(* ===== verification/Hash_Map.thy ===== *)
theory Hash_Map
  imports Prelude
begin

text \<open>
  The standard library's \<^verbatim>\<open>HashMap\<close>, which holds the state of every component. The
  interface is the locale \<open>hash_map\<close>; its model is an association list with distinct keys, whose
  order stands for the (unspecified) iteration order of the table.
\<close>

section \<open>The interface\<close>

locale hash_map =
  fixes empty :: "'m"
    and get :: "'m \<Rightarrow> 'k \<Rightarrow> 'v option"
    and insert :: "'k \<Rightarrow> 'v \<Rightarrow> 'm \<Rightarrow> 'm"
    and remove :: "'k \<Rightarrow> 'm \<Rightarrow> 'm"
    and len :: "'m \<Rightarrow> nat"
    and invar :: "'m \<Rightarrow> bool"
  assumes get_empty: "get empty k = None"
    and get_insert: "invar m \<Longrightarrow> get (insert k v m) k' = (if k' = k then Some v else get m k')"
    and get_remove: "invar m \<Longrightarrow> get (remove k m) k' = (if k' = k then None else get m k')"
    and len_empty: "len empty = 0"
    and len_insert: "invar m \<Longrightarrow> len (insert k v m) = (if get m k = None then Suc (len m) else len m)"
    and len_remove: "invar m \<Longrightarrow> len (remove k m) = (if get m k = None then len m else len m - 1)"
    and invar_empty: "invar empty"
    and invar_insert: "invar m \<Longrightarrow> invar (insert k v m)"
    and invar_remove: "invar m \<Longrightarrow> invar (remove k m)"
begin

text \<open>What the clients rely on: two writes to one key, writes to distinct keys, write then remove.\<close>

lemma insert_insert_same: "invar m \<Longrightarrow> get (insert k v (insert k w m)) = get (insert k v m)"
  by (rule ext) (simp add: get_insert invar_insert)

lemma insert_commute: "invar m \<Longrightarrow> k \<noteq> k' \<Longrightarrow>
    get (insert k v (insert k' w m)) = get (insert k' w (insert k v m))"
  by (rule ext) (simp add: get_insert invar_insert)

lemma remove_insert_same: "invar m \<Longrightarrow> get (remove k (insert k v m)) = get (remove k m)"
  by (rule ext) (simp add: get_insert get_remove invar_insert)

lemma len_insert_le: "invar m \<Longrightarrow> len (insert k v m) \<le> Suc (len m)"
  by (simp add: len_insert)

end

section \<open>The association list model\<close>

type_synonym ('k, 'v) hm = "('k \<times> 'v) list"

definition hm_empty :: "('k, 'v) hm" where
  "hm_empty = []"

definition hm_get :: "('k, 'v) hm \<Rightarrow> 'k \<Rightarrow> 'v option" where
  "hm_get m k = map_of m k"

definition hm_insert :: "'k \<Rightarrow> 'v \<Rightarrow> ('k, 'v) hm \<Rightarrow> ('k, 'v) hm" where
  "hm_insert k v m = AList.update k v m"

definition hm_remove :: "'k \<Rightarrow> ('k, 'v) hm \<Rightarrow> ('k, 'v) hm" where
  "hm_remove k m = AList.delete k m"

definition hm_values :: "('k, 'v) hm \<Rightarrow> 'v list" where
  "hm_values m = map snd m"

definition hm_len :: "('k, 'v) hm \<Rightarrow> nat" where
  "hm_len m = length m"

definition hm_retain :: "('k \<Rightarrow> 'v \<Rightarrow> bool) \<Rightarrow> ('k, 'v) hm \<Rightarrow> ('k, 'v) hm" where
  "hm_retain P m = filter (\<lambda>(k, v). P k v) m"

definition hm_ok :: "('k, 'v) hm \<Rightarrow> bool" where
  "hm_ok m \<longleftrightarrow> distinct (map fst m)"

text \<open>\<^verbatim>\<open>if let Some(v) = m.get_mut(k) { ... }\<close>\<close>

definition hm_modify :: "'k \<Rightarrow> ('v \<Rightarrow> 'v) \<Rightarrow> ('k, 'v) hm \<Rightarrow> ('k, 'v) hm" where
  "hm_modify k f m = (case hm_get m k of None \<Rightarrow> m | Some v \<Rightarrow> hm_insert k (f v) m)"

text \<open>\<^verbatim>\<open>let e = m.entry(k).or_insert(d); ...\<close>\<close>

definition hm_entry :: "'k \<Rightarrow> 'v \<Rightarrow> ('v \<Rightarrow> 'v) \<Rightarrow> ('k, 'v) hm \<Rightarrow> ('k, 'v) hm" where
  "hm_entry k d f m = hm_insert k (f (case hm_get m k of None \<Rightarrow> d | Some v \<Rightarrow> v)) m"

lemma length_delete_alist:
  "distinct (map fst m) \<Longrightarrow>
   length (AList.delete k m) = (if map_of m k = None then length m else length m - 1)"
proof (induction m)
  case (Cons p m)
  show ?case
  proof (cases "fst p = k")
    case True
    with Cons.prems have "map_of m k = None" by (auto simp: map_of_eq_None_iff)
    with True Cons show ?thesis by (cases p) (simp add: AList.delete_eq)
  next
    case False
    have "m \<noteq> []" if "map_of m k \<noteq> None" using that by auto
    with False Cons show ?thesis by (cases p) (auto simp: AList.delete_eq Suc_diff_1 length_greater_0_conv)
  qed
qed (simp add: AList.delete_eq)

lemma length_update_alist:
  "length (AList.update k v m) = (if map_of m k = None then Suc (length m) else length m)"
  by (induction m) auto

interpretation hm: hash_map hm_empty hm_get hm_insert hm_remove hm_len hm_ok
  by unfold_locales
     (auto simp: hm_empty_def hm_get_def hm_insert_def hm_remove_def hm_len_def hm_ok_def
        update_conv' delete_conv' distinct_update distinct_delete length_delete_alist
        length_update_alist)

lemma hm_get_empty [simp, hm_laws]: "hm_get hm_empty k = None"
  by (rule hm.get_empty)

lemma hm_get_insert [simp, hm_laws]: "hm_get (hm_insert k v m) k' = (if k' = k then Some v else hm_get m k')"
  by (simp add: hm_get_def hm_insert_def update_conv')

lemma hm_get_remove [simp, hm_laws]: "hm_get (hm_remove k m) k' = (if k' = k then None else hm_get m k')"
  by (simp add: hm_get_def hm_remove_def delete_conv')

lemma hm_get_modify [simp, hm_laws]:
  "hm_get (hm_modify k f m) k' = (if k' = k then map_option f (hm_get m k) else hm_get m k')"
  by (auto simp: hm_modify_def split: option.splits)

lemma hm_get_entry [simp, hm_laws]:
  "hm_get (hm_entry k d f m) k' =
     (if k' = k then Some (f (case hm_get m k of None \<Rightarrow> d | Some v \<Rightarrow> v)) else hm_get m k')"
  by (simp add: hm_entry_def)

lemma hm_ok_empty [simp]: "hm_ok hm_empty"
  by (rule hm.invar_empty)

lemma hm_ok_insert [simp]: "hm_ok m \<Longrightarrow> hm_ok (hm_insert k v m)"
  by (rule hm.invar_insert)

lemma hm_ok_remove [simp]: "hm_ok m \<Longrightarrow> hm_ok (hm_remove k m)"
  by (rule hm.invar_remove)

lemma hm_ok_modify [simp]: "hm_ok m \<Longrightarrow> hm_ok (hm_modify k f m)"
  by (simp add: hm_modify_def split: option.splits)

lemma hm_ok_entry [simp]: "hm_ok m \<Longrightarrow> hm_ok (hm_entry k d f m)"
  by (simp add: hm_entry_def)

lemma hm_ok_retain [simp]: "hm_ok m \<Longrightarrow> hm_ok (hm_retain P m)"
  by (induction m) (auto simp: hm_ok_def hm_retain_def)

lemma hm_get_retain [hm_laws]:
  "hm_ok m \<Longrightarrow> hm_get (hm_retain P m) k = (case hm_get m k of None \<Rightarrow> None
     | Some v \<Rightarrow> if P k v then Some v else None)"
proof (induction m)
  case (Cons p m)
  obtain a b where p: "p = (a, b)" by (cases p)
  have IH: "hm_get (hm_retain P m) k =
      (case hm_get m k of None \<Rightarrow> None | Some v \<Rightarrow> if P k v then Some v else None)"
    using Cons by (simp add: hm_ok_def)
  have "a = k \<Longrightarrow> hm_get m k = None"
    using Cons.prems by (auto simp: p hm_ok_def hm_get_def map_of_eq_None_iff)
  with IH show ?case by (auto simp: p hm_get_def hm_retain_def split: option.splits)
qed (simp add: hm_get_def hm_retain_def)

lemma hm_len_empty [simp]: "hm_len hm_empty = 0"
  by (rule hm.len_empty)

lemma hm_len_remove: "hm_ok m \<Longrightarrow> hm_get m k \<noteq> None \<Longrightarrow> Suc (hm_len (hm_remove k m)) = hm_len m"
proof -
  assume ok: "hm_ok m" and g: "hm_get m k \<noteq> None"
  from g have "m \<noteq> []" by (auto simp: hm_get_def)
  then show ?thesis using ok g by (simp add: hm.len_remove) (simp add: hm_len_def)
qed

lemma hm_len_modify [simp]: "hm_ok m \<Longrightarrow> hm_len (hm_modify k f m) = hm_len m"
  by (simp add: hm_modify_def hm.len_insert split: option.splits)

lemma hm_values_get: "hm_ok m \<Longrightarrow> v \<in> set (hm_values m) \<longleftrightarrow> (\<exists>k. hm_get m k = Some v)"
  by (auto simp: hm_values_def hm_get_def hm_ok_def dest: map_of_SomeD
           intro!: image_eqI)

lemma hm_len_retain_le: "hm_len (hm_retain P m) \<le> hm_len m"
  by (simp add: hm_len_def hm_retain_def)

lemma hm_len_le_card:
  assumes "hm_ok m" and "finite A" and "\<And>k v. hm_get m k = Some v \<Longrightarrow> k \<in> A"
  shows "hm_len m \<le> card A"
proof -
  have "set (map fst m) \<subseteq> A"
  proof
    fix k assume "k \<in> set (map fst m)"
    then have "map_of m k \<noteq> None" by (simp add: map_of_eq_None_iff)
    then show "k \<in> A" using assms(3) by (auto simp: hm_get_def)
  qed
  then have "card (set (map fst m)) \<le> card A" using assms(2) by (rule card_mono [rotated])
  moreover have "card (set (map fst m)) = hm_len m"
    using assms(1) distinct_card [of "map fst m"] by (simp add: hm_ok_def hm_len_def)
  ultimately show ?thesis by simp
qed

lemma hm_keys: "{k. hm_get m k \<noteq> None} = set (map fst m)"
  by (auto simp: hm_get_def map_of_eq_None_iff)

lemma hm_len_card: "hm_ok m \<Longrightarrow> hm_len m = card {k. hm_get m k \<noteq> None}"
  using distinct_card [of "map fst m"] unfolding hm_keys by (simp add: hm_ok_def hm_len_def)

lemma hm_sum_values:
  fixes m :: "('k, 'v::comm_monoid_add) hm"
  assumes "hm_ok m"
  shows "sum_list (hm_values m) = (\<Sum>k \<in> {k. hm_get m k \<noteq> None}. the (hm_get m k))"
proof -
  have vals: "map (\<lambda>k. the (hm_get m k)) (map fst m) = map snd m"
    using assms by (auto simp: hm_ok_def hm_get_def)
  have "(\<Sum>k \<in> set (map fst m). the (hm_get m k)) = sum_list (map (\<lambda>k. the (hm_get m k)) (map fst m))"
    using assms unfolding hm_ok_def by (rule sum.distinct_set_conv_list)
  then show ?thesis unfolding hm_keys hm_values_def vals by simp
qed

end
