(* ===== verification/FileId.thy ===== *)
theory FileId
  imports Hash_Map
begin

text \<open>
  File identity and the table of trusted system binaries (\<^verbatim>\<open>src/fileid.rs\<close>). A program is
  trusted by the \<open>(device, inode)\<close> pair the kernel reports for its executable, never by a name.

  The functions of the C library that unpack a \<^verbatim>\<open>dev_t\<close>, and the file system (\<^verbatim>\<open>stat\<close> and
  \<^verbatim>\<open>canonicalize\<close>), are parameters of the definitions that use them.
\<close>

unbundle bit_operations_syntax

section \<open>Device numbers and identities\<close>

definition MINOR_BITS :: nat where
  "MINOR_BITS = 20"

definition kernel_dev :: "(u64 \<Rightarrow> u32) \<Rightarrow> (u64 \<Rightarrow> u32) \<Rightarrow> u64 \<Rightarrow> u32" where
  "kernel_dev libc_major libc_minor glibc_dev =
     (let major = ucast (libc_major glibc_dev) :: u64; minor = ucast (libc_minor glibc_dev) :: u64
      in ucast (push_bit MINOR_BITS major OR (minor AND (push_bit MINOR_BITS 1 - 1))))"

record file_id =
  dev :: u32
  ino :: u64

definition file_id_new :: "u32 \<Rightarrow> u64 \<Rightarrow> file_id" where
  "file_id_new d i = \<lparr>dev = d, ino = i\<rparr>"

text \<open>What the process sees of the host: \<^verbatim>\<open>stat\<close>, the two unpacking functions of the C
  library, and \<^verbatim>\<open>canonicalize\<close>.\<close>

record host_fs =
  fs_metadata :: "string \<Rightarrow> (u64 \<times> u64) option"  \<comment> \<open>\<^verbatim>\<open>(st_dev, st_ino)\<close>\<close>
  fs_major :: "u64 \<Rightarrow> u32"
  fs_minor :: "u64 \<Rightarrow> u32"
  fs_canonicalize :: "string \<Rightarrow> string option"

definition file_id_of :: "host_fs \<Rightarrow> string \<Rightarrow> file_id option" where
  "file_id_of fs path =
     (case fs_metadata fs path of None \<Rightarrow> None
      | Some (d, i) \<Rightarrow> Some \<lparr>dev = kernel_dev (fs_major fs) (fs_minor fs) d, ino = i\<rparr>)"

definition is_unknown :: "file_id \<Rightarrow> bool" where
  "is_unknown f \<longleftrightarrow> ino f = 0"

definition to_map_key :: "file_id \<Rightarrow> u8 list" where
  "to_map_key f = le_bytes 8 (ino f) @ le_bytes 4 (dev f) @ replicate 4 0"

section \<open>The built-in tables\<close>

datatype role = CredentialReader | NetworkDaemon

record trusted =
  tr_name :: string
  tr_role :: role
  tr_paths :: "string list"

definition trusted_t :: "string \<Rightarrow> role \<Rightarrow> string list \<Rightarrow> trusted" where
  "trusted_t n r ps = \<lparr>tr_name = n, tr_role = r, tr_paths = ps\<rparr>"

definition CREDENTIAL_READERS :: "trusted list" where
  "CREDENTIAL_READERS = [
     trusted_t ''unix_chkpwd'' CredentialReader [''/usr/sbin/unix_chkpwd'', ''/sbin/unix_chkpwd''],
     trusted_t ''sshd'' CredentialReader [''/usr/sbin/sshd'', ''/usr/bin/sshd'', ''/sbin/sshd''],
     trusted_t ''sudo'' CredentialReader [''/usr/bin/sudo'', ''/bin/sudo''],
     trusted_t ''su'' CredentialReader [''/usr/bin/su'', ''/bin/su''],
     trusted_t ''login'' CredentialReader [''/usr/bin/login'', ''/bin/login''],
     trusted_t ''passwd'' CredentialReader [''/usr/bin/passwd'', ''/bin/passwd''],
     trusted_t ''chpasswd'' CredentialReader [''/usr/sbin/chpasswd'', ''/sbin/chpasswd''],
     trusted_t ''gpasswd'' CredentialReader [''/usr/bin/gpasswd'', ''/bin/gpasswd''],
     trusted_t ''newgrp'' CredentialReader [''/usr/bin/newgrp'', ''/bin/newgrp''],
     trusted_t ''usermod'' CredentialReader [''/usr/sbin/usermod'', ''/sbin/usermod''],
     trusted_t ''useradd'' CredentialReader [''/usr/sbin/useradd'', ''/sbin/useradd''],
     trusted_t ''userdel'' CredentialReader [''/usr/sbin/userdel'', ''/sbin/userdel''],
     trusted_t ''vipw'' CredentialReader [''/usr/sbin/vipw'', ''/sbin/vipw''],
     trusted_t ''systemd-logind'' CredentialReader
       [''/usr/lib/systemd/systemd-logind'', ''/lib/systemd/systemd-logind'',
        ''/usr/sbin/systemd-logind''],
     trusted_t ''sssd'' CredentialReader
       [''/usr/sbin/sssd'', ''/usr/libexec/sssd/sssd_pam'', ''/usr/libexec/sssd/sssd_nss''],
     trusted_t ''agetty'' CredentialReader [''/usr/sbin/agetty'', ''/sbin/agetty''],
     trusted_t ''gdm-session-worker'' CredentialReader
       [''/usr/libexec/gdm-session-worker'', ''/usr/lib/gdm3/gdm-session-worker'',
        ''/usr/lib/gdm/gdm-session-worker''],
     trusted_t ''lightdm'' CredentialReader [''/usr/sbin/lightdm'', ''/usr/bin/lightdm''],
     trusted_t ''accounts-daemon'' CredentialReader
       [''/usr/libexec/accounts-daemon'', ''/usr/lib/accountsservice/accounts-daemon''],
     trusted_t ''polkitd'' CredentialReader
       [''/usr/lib/polkit-1/polkitd'', ''/usr/libexec/polkitd'', ''/usr/sbin/polkitd'']]"

definition NETWORK_DAEMONS :: "trusted list" where
  "NETWORK_DAEMONS = [
     trusted_t ''nginx'' NetworkDaemon
       [''/usr/sbin/nginx'', ''/usr/bin/nginx'', ''/usr/local/nginx/sbin/nginx''],
     trusted_t ''apache2'' NetworkDaemon
       [''/usr/sbin/apache2'', ''/usr/sbin/httpd'', ''/usr/local/apache2/bin/httpd''],
     trusted_t ''php-fpm'' NetworkDaemon
       [''/usr/sbin/php-fpm'', ''/usr/sbin/php-fpm8.2'', ''/usr/sbin/php-fpm8.3'',
        ''/usr/sbin/php-fpm7.4'', ''/usr/bin/php-fpm''],
     trusted_t ''tomcat'' NetworkDaemon
       [''/usr/share/tomcat/bin/catalina.sh'', ''/opt/tomcat/bin/catalina.sh''],
     trusted_t ''node'' NetworkDaemon [''/usr/bin/node'', ''/usr/local/bin/node'', ''/usr/bin/nodejs''],
     trusted_t ''gunicorn'' NetworkDaemon [''/usr/bin/gunicorn'', ''/usr/local/bin/gunicorn''],
     trusted_t ''uwsgi'' NetworkDaemon [''/usr/bin/uwsgi'', ''/usr/local/bin/uwsgi''],
     trusted_t ''mysqld'' NetworkDaemon [''/usr/sbin/mysqld'', ''/usr/libexec/mysqld''],
     trusted_t ''mariadbd'' NetworkDaemon [''/usr/sbin/mariadbd'', ''/usr/bin/mariadbd''],
     trusted_t ''postgres'' NetworkDaemon
       [''/usr/lib/postgresql/16/bin/postgres'', ''/usr/lib/postgresql/15/bin/postgres'',
        ''/usr/bin/postgres'', ''/usr/pgsql/bin/postgres''],
     trusted_t ''redis-server'' NetworkDaemon [''/usr/bin/redis-server'', ''/usr/local/bin/redis-server''],
     trusted_t ''mongod'' NetworkDaemon [''/usr/bin/mongod'', ''/usr/local/bin/mongod''],
     trusted_t ''memcached'' NetworkDaemon [''/usr/bin/memcached'', ''/usr/local/bin/memcached'']]"

section \<open>The resolved table\<close>

type_synonym program = "string \<times> role"

record trusted_binaries =
  by_id :: "(file_id, program) hm"
  by_path :: "(string, program) hm"
  unresolved :: "string list"

definition tb_none :: trusted_binaries where
  "tb_none = \<lparr>by_id = hm_empty, by_path = hm_empty, unresolved = []\<rparr>"

text \<open>One candidate path of one table entry: \<open>found\<close> becomes true when it exists.\<close>

definition resolve_path :: "host_fs \<Rightarrow> program \<Rightarrow> string \<Rightarrow> trusted_binaries \<times> bool \<Rightarrow> trusted_binaries \<times> bool" where
  "resolve_path fs prog path st = (case st of (tb, found) \<Rightarrow>
     (case file_id_of fs path of
        None \<Rightarrow> (tb, found)
      | Some fid \<Rightarrow>
          let tb1 = tb\<lparr>by_id := hm_entry fid prog (\<lambda>p. p) (by_id tb)\<rparr>;
              tb2 = tb1\<lparr>by_path := hm_insert path prog (by_path tb1)\<rparr>;
              tb3 = (case fs_canonicalize fs path of None \<Rightarrow> tb2
                     | Some real \<Rightarrow> tb2\<lparr>by_path := hm_insert real prog (by_path tb2)\<rparr>)
          in (tb3, True)))"

definition resolve_entry :: "host_fs \<Rightarrow> trusted \<Rightarrow> trusted_binaries \<Rightarrow> trusted_binaries" where
  "resolve_entry fs entry tb =
     (case fold (resolve_path fs (tr_name entry, tr_role entry)) (tr_paths entry) (tb, False) of
        (tb', found) \<Rightarrow>
          if found then tb' else tb'\<lparr>unresolved := unresolved tb' @ [tr_name entry]\<rparr>)"

definition resolve_host :: "host_fs \<Rightarrow> trusted_binaries" where
  "resolve_host fs = fold (resolve_entry fs) (CREDENTIAL_READERS @ NETWORK_DAEMONS) tb_none"

definition bind :: "string \<Rightarrow> file_id \<Rightarrow> trusted_binaries \<Rightarrow> program option \<times> trusted_binaries" where
  "bind path fid tb =
     (case hm_get (by_path tb) path of
        None \<Rightarrow> (None, tb)
      | Some (name, rl) \<Rightarrow>
          (Some (name, rl),
           tb\<lparr>by_id := hm_insert fid (name, rl) (hm_retain (\<lambda>_ (n, _). n \<noteq> name) (by_id tb)),
              unresolved := filter (\<lambda>n. n \<noteq> name) (unresolved tb)\<rparr>))"

definition rebind :: "host_fs \<Rightarrow> string \<Rightarrow> trusted_binaries \<Rightarrow> program option \<times> trusted_binaries" where
  "rebind fs path tb =
     (case file_id_of fs path of None \<Rightarrow> (None, tb) | Some fid \<Rightarrow> bind path fid tb)"

definition rebind_from_kernel ::
  "host_fs \<Rightarrow> string \<Rightarrow> file_id \<Rightarrow> trusted_binaries \<Rightarrow> program option \<times> trusted_binaries" where
  "rebind_from_kernel fs path seen tb =
     (if is_unknown seen then (None, tb)
      else (case file_id_of fs path of
              None \<Rightarrow> (None, tb)
            | Some on_disk \<Rightarrow> if ino on_disk \<noteq> ino seen then (None, tb) else bind path seen tb))"

definition tracks_path :: "trusted_binaries \<Rightarrow> string \<Rightarrow> bool" where
  "tracks_path tb path \<longleftrightarrow> hm_get (by_path tb) path \<noteq> None"

definition lookup :: "trusted_binaries \<Rightarrow> file_id \<Rightarrow> program option" where
  "lookup tb fid = (if is_unknown fid then None else hm_get (by_id tb) fid)"

definition has_role :: "string \<Rightarrow> role \<Rightarrow> bool" where
  "has_role name rl =
     (if name = [] then False
      else list_ex (\<lambda>e. tr_name e = name \<and> tr_role e = rl) (CREDENTIAL_READERS @ NETWORK_DAEMONS))"

definition name_looks_like_daemon :: "string \<Rightarrow> bool" where
  "name_looks_like_daemon comm =
     (if comm = [] then False
      else list_ex (\<lambda>e. tr_name e = comm \<or> starts_with (tr_name e) comm) NETWORK_DAEMONS)"

definition tb_summary :: "trusted_binaries \<Rightarrow> string" where
  "tb_summary tb = show_nat (hm_len (by_id tb)) @ '' trusted system binaries resolved by identity, ''
     @ show_nat (length (unresolved tb)) @ '' not present''"

section \<open>Device number encoding\<close>

lemma bit_kernel_dev:
  "bit (kernel_dev mj mn d) k \<longleftrightarrow>
     (if k < 20 then bit (mn d) k else k < 32 \<and> bit (mj d) (k - 20))"
proof -
  have m: "(push_bit MINOR_BITS 1 - 1 :: u64) = mask 20"
    by (simp add: MINOR_BITS_def mask_eq_exp_minus_1)
  have bm: "bit (1048575 :: int) k \<longleftrightarrow> k < 20"
    using bit_mask_iff [of 20 k, where 'a = int] by (auto simp: mask_eq_exp_minus_1)
  show ?thesis
    unfolding kernel_dev_def Let_def m MINOR_BITS_def
    by (auto simp: bit_unsigned_iff bit_or_iff bit_and_iff bit_push_bit_iff bm
             dest: bit_imp_le_length)
qed

lemma take_bit_kernel_dev: "take_bit 20 (kernel_dev mj mn d) = take_bit 20 (mn d)"
  by (rule bit_eqI) (auto simp: bit_take_bit_iff bit_kernel_dev)

lemma drop_bit_kernel_dev: "drop_bit 20 (kernel_dev mj mn d) = take_bit 12 (mj d)"
  by (rule bit_eqI) (auto simp: bit_take_bit_iff bit_drop_bit_eq bit_kernel_dev)

text \<open>
  The kernel form of a device number keeps both parts: for a major number of 12
  bits and a minor number of 20, the low 20 bits are the minor number and the rest the major.
\<close>

theorem kernel_dev_unpacks:
  assumes "mj d < 2 ^ 12" and "mn d < 2 ^ 20"
  shows "take_bit 20 (kernel_dev mj mn d) = mn d \<and> drop_bit 20 (kernel_dev mj mn d) = mj d"
proof -
  have "take_bit 20 (mn d) = mn d" using assms(2) by (simp add: take_bit_word_less)
  moreover have "take_bit 12 (mj d) = mj d" using assms(1) by (simp add: take_bit_word_less)
  ultimately show ?thesis by (simp add: take_bit_kernel_dev drop_bit_kernel_dev)
qed

theorem kernel_dev_unpacks_witness:
  "take_bit 20 (kernel_dev (\<lambda>d. ucast (drop_bit 8 d)) (\<lambda>d. ucast (take_bit 8 d)) 2049) = 1
   \<and> drop_bit 20 (kernel_dev (\<lambda>d. ucast (drop_bit 8 d)) (\<lambda>d. ucast (take_bit 8 d)) 2049) = 8"
  using kernel_dev_unpacks [of "\<lambda>d. ucast (drop_bit 8 d)" 2049 "\<lambda>d. ucast (take_bit 8 d)"]
  by simp

text \<open>
  The C library's form and the kernel's form of a device number agree on
  pseudo-file systems, whose major number is 0, when the whole number is the minor number.
\<close>

theorem kernel_dev_pseudo_fs:
  assumes "mj d = 0" and "mn d = ucast d" and "d < 2 ^ 20"
  shows "kernel_dev mj mn d = ucast d"
proof (rule bit_eqI)
  fix k
  have "take_bit 20 d = d" using assms(3) by (simp add: take_bit_word_less)
  then have "bit d k \<Longrightarrow> k < 20" by (metis bit_take_bit_iff)
  then show "bit (kernel_dev mj mn d) k = bit (ucast d :: u32) k"
    using assms(1,2) by (auto simp: bit_kernel_dev bit_unsigned_iff)
qed

theorem kernel_dev_pseudo_fs_witness: "kernel_dev (\<lambda>_. 0) ucast 23 = 23"
  using kernel_dev_pseudo_fs [of "\<lambda>_. 0" 23 ucast] by simp

lemma le_bytes_inj: "8 * n = LENGTH('a) \<Longrightarrow> le_bytes n (v :: 'a::len word) = le_bytes n w \<Longrightarrow> v = w"
  by (metis le_bytes_roundtrip)

lemma to_map_key_eq_iff: "to_map_key f = to_map_key g \<longleftrightarrow> f = g"
proof
  assume "to_map_key f = to_map_key g"
  then have "le_bytes 8 (ino f) = le_bytes 8 (ino g)" and "le_bytes 4 (dev f) = le_bytes 4 (dev g)"
    by (simp_all add: to_map_key_def)
  then show "f = g"
    using le_bytes_inj [of 8 "ino f" "ino g"] le_bytes_inj [of 4 "dev f" "dev g"] by simp
qed simp

text \<open>
  The bytes handed to the kernel as a map key are 16 long and determine the
  identity, so two files never share a key.
\<close>

theorem to_map_key_injective:
  "length (to_map_key f) = 16 \<and> (to_map_key f = to_map_key g \<longleftrightarrow> f = g)"
  by (simp add: to_map_key_eq_iff) (simp add: to_map_key_def)

section \<open>The table of trusted programs\<close>

abbreviation all_trusted :: "trusted list" where
  "all_trusted \<equiv> CREDENTIAL_READERS @ NETWORK_DAEMONS"

text \<open>Every program the table knows plays the role the built-in lists give it.\<close>

definition tb_ok :: "trusted_binaries \<Rightarrow> bool" where
  "tb_ok tb \<longleftrightarrow> hm_ok (by_id tb) \<and> hm_ok (by_path tb)
     \<and> (\<forall>f n r. hm_get (by_id tb) f = Some (n, r) \<longrightarrow> has_role n r)
     \<and> (\<forall>p n r. hm_get (by_path tb) p = Some (n, r) \<longrightarrow> has_role n r)"

text \<open>Every identity was read from a path listed for the program it stands for.\<close>

definition identities_listed :: "host_fs \<Rightarrow> trusted_binaries \<Rightarrow> bool" where
  "identities_listed fs tb \<longleftrightarrow> (\<forall>f n r. hm_get (by_id tb) f = Some (n, r) \<longrightarrow>
     (\<exists>e \<in> set all_trusted. tr_name e = n \<and> tr_role e = r \<and>
        (\<exists>p \<in> set (tr_paths e). file_id_of fs p = Some f)))"

lemma table_names_nonempty: "e \<in> set all_trusted \<Longrightarrow> tr_name e \<noteq> []"
  by (auto simp: CREDENTIAL_READERS_def NETWORK_DAEMONS_def trusted_t_def)

lemma table_roles:
  "e \<in> set CREDENTIAL_READERS \<Longrightarrow> tr_role e = CredentialReader"
  "e \<in> set NETWORK_DAEMONS \<Longrightarrow> tr_role e = NetworkDaemon"
  by (auto simp: CREDENTIAL_READERS_def NETWORK_DAEMONS_def trusted_t_def)

lemma has_role_iff:
  "has_role n r \<longleftrightarrow> (\<exists>e \<in> set all_trusted. tr_name e = n \<and> tr_role e = r)"
  using table_names_nonempty by (auto simp: has_role_def list_ex_iff)

lemma resolve_path_ok:
  assumes "e \<in> set all_trusted" and "p \<in> set (tr_paths e)"
    and "tb_ok tb \<and> identities_listed fs tb"
  shows "tb_ok (fst (resolve_path fs (tr_name e, tr_role e) p (tb, found)))
    \<and> identities_listed fs (fst (resolve_path fs (tr_name e, tr_role e) p (tb, found)))"
proof (cases "file_id_of fs p")
  case None
  then show ?thesis using assms(3) by (simp add: resolve_path_def)
next
  case (Some f)
  let ?tb' = "fst (resolve_path fs (tr_name e, tr_role e) p (tb, found))"
  have role: "has_role (tr_name e) (tr_role e)" using assms(1) by (auto simp: has_role_iff)
  have ids: "by_id ?tb' = hm_entry f (tr_name e, tr_role e) (\<lambda>q. q) (by_id tb)"
    by (simp add: resolve_path_def Some Let_def split: option.splits)
  have paths: "by_path ?tb' = hm_insert p (tr_name e, tr_role e) (by_path tb)
      \<or> (\<exists>q. by_path ?tb' = hm_insert q (tr_name e, tr_role e) (hm_insert p (tr_name e, tr_role e) (by_path tb)))"
    by (cases "fs_canonicalize fs p") (auto simp: resolve_path_def Some Let_def)
  have "tb_ok ?tb'" using assms(3) role paths
    by (auto simp: tb_ok_def ids split: if_splits option.splits)
  moreover have "identities_listed fs ?tb'"
    using assms Some by (auto simp: identities_listed_def ids split: if_splits option.splits)
  ultimately show ?thesis by blast
qed

lemma unresolved_frame [simp]:
  "tb_ok (tb\<lparr>unresolved := us\<rparr>) = tb_ok tb"
  "identities_listed fs (tb\<lparr>unresolved := us\<rparr>) = identities_listed fs tb"
  by (simp_all add: tb_ok_def identities_listed_def)

lemma resolve_entry_ok:
  assumes "e \<in> set all_trusted" and "tb_ok tb \<and> identities_listed fs tb"
  shows "tb_ok (resolve_entry fs e tb) \<and> identities_listed fs (resolve_entry fs e tb)"
proof -
  have "set ps \<subseteq> set (tr_paths e) \<Longrightarrow> tb_ok (fst st) \<and> identities_listed fs (fst st) \<Longrightarrow>
    tb_ok (fst (fold (resolve_path fs (tr_name e, tr_role e)) ps st))
    \<and> identities_listed fs (fst (fold (resolve_path fs (tr_name e, tr_role e)) ps st))" for ps st
  proof (induction ps arbitrary: st)
    case (Cons p ps)
    then show ?case using resolve_path_ok [OF assms(1), of p "fst st" fs "snd st"] by simp
  qed simp
  from this [of "tr_paths e" "(tb, False)"] assms(2) show ?thesis
    by (cases "fold (resolve_path fs (tr_name e, tr_role e)) (tr_paths e) (tb, False)")
       (simp add: resolve_entry_def)
qed

text \<open>
  Resolving the built-in tables against any host invents nothing: every identity in
  the result was read from a path listed for the program it names, with that program's role.
\<close>

theorem resolve_host_sound: "tb_ok (resolve_host fs) \<and> identities_listed fs (resolve_host fs)"
proof -
  have "set es \<subseteq> set all_trusted \<Longrightarrow> tb_ok tb \<and> identities_listed fs tb \<Longrightarrow>
    tb_ok (fold (resolve_entry fs) es tb) \<and> identities_listed fs (fold (resolve_entry fs) es tb)" for es tb
    by (induction es arbitrary: tb) (auto simp: resolve_entry_ok)
  moreover have "tb_ok tb_none \<and> identities_listed fs tb_none"
    by (simp add: tb_ok_def identities_listed_def tb_none_def)
  ultimately show ?thesis by (simp add: resolve_host_def)
qed

lemma bind_ok: "tb_ok tb \<Longrightarrow> tb_ok (snd (bind p f tb))"
  by (auto simp: tb_ok_def bind_def hm_get_retain split: option.splits prod.splits if_splits)

lemma lookup_role: "tb_ok tb \<Longrightarrow> lookup tb f = Some (n, r) \<Longrightarrow> has_role n r"
  by (auto simp: lookup_def tb_ok_def split: if_splits)

lemma rebind_ok: "tb_ok tb \<Longrightarrow> tb_ok (snd (rebind_from_kernel fs p f tb))"
  by (auto simp: rebind_from_kernel_def bind_ok split: option.splits)

lemma rebind_Some:
  assumes "tb_ok tb" and "rebind_from_kernel fs path seen tb = (Some (n, r), tb')"
  shows "\<not> is_unknown seen" and "\<exists>d. file_id_of fs path = Some \<lparr>dev = d, ino = ino seen\<rparr>"
    and "hm_get (by_path tb) path = Some (n, r)" and "tb_ok tb'" and "has_role n r"
    and "by_id tb' = hm_insert seen (n, r) (hm_retain (\<lambda>_ (m, _). m \<noteq> n) (by_id tb))"
    and "lookup tb' seen = Some (n, r)"
proof -
  from assms(2) obtain d where known: "\<not> is_unknown seen"
    and disk: "file_id_of fs path = Some d" "ino d = ino seen"
    and b: "bind path seen tb = (Some (n, r), tb')"
    by (auto simp: rebind_from_kernel_def split: if_splits option.splits)
  from b show p: "hm_get (by_path tb) path = Some (n, r)"
    and ids: "by_id tb' = hm_insert seen (n, r) (hm_retain (\<lambda>_ (m, _). m \<noteq> n) (by_id tb))"
    by (auto simp: bind_def split: option.splits)
  show "\<not> is_unknown seen" by (rule known)
  show "\<exists>d. file_id_of fs path = Some \<lparr>dev = d, ino = ino seen\<rparr>" using disk by (cases d) auto
  show "tb_ok tb'" using bind_ok [OF assms(1), of path seen] b by simp
  show "has_role n r" using assms(1) p by (simp add: tb_ok_def)
  show "lookup tb' seen = Some (n, r)" using known ids by (simp add: lookup_def)
qed

text \<open>
  Relearning an identity from the kernel succeeds only for a tracked path whose
  file on disk has the very inode that ran. Afterwards the program is found under that identity and
  under no other, and every other program keeps its identities unless it had claimed this one.
\<close>

theorem rebind_from_kernel_spec:
  assumes "tb_ok tb" and "rebind_from_kernel fs path seen tb = (Some (n, r), tb')"
  shows "\<not> is_unknown seen
    \<and> (\<exists>d. file_id_of fs path = Some \<lparr>dev = d, ino = ino seen\<rparr>)
    \<and> hm_get (by_path tb) path = Some (n, r)
    \<and> (\<forall>f r'. lookup tb' f = Some (n, r') \<longleftrightarrow> f = seen \<and> r' = r)
    \<and> (\<forall>f m r'. m \<noteq> n \<longrightarrow> f \<noteq> seen \<longrightarrow> lookup tb' f = Some (m, r') \<longleftrightarrow> lookup tb f = Some (m, r'))"
proof (intro conjI allI impI)
  note facts = rebind_Some [OF assms]
  have ok: "hm_ok (by_id tb)" using assms(1) by (simp add: tb_ok_def)
  show "\<not> is_unknown seen" "\<exists>d. file_id_of fs path = Some \<lparr>dev = d, ino = ino seen\<rparr>"
    "hm_get (by_path tb) path = Some (n, r)" by (fact facts)+
  show "lookup tb' f = Some (n, r') \<longleftrightarrow> f = seen \<and> r' = r" for f r'
    using facts(1) ok by (auto simp: lookup_def facts(6) hm_get_retain split: option.splits if_splits)
  show "lookup tb' f = Some (m, r') \<longleftrightarrow> lookup tb f = Some (m, r')" if "m \<noteq> n" "f \<noteq> seen" for f m r'
    using that ok by (auto simp: lookup_def facts(6) hm_get_retain split: option.splits if_splits)
qed

definition example_host :: "string \<Rightarrow> u64 \<Rightarrow> host_fs" where
  "example_host path i = \<lparr>fs_metadata = (\<lambda>p. if p = path then Some (37, i) else None),
     fs_major = (\<lambda>_. 0), fs_minor = ucast, fs_canonicalize = (\<lambda>p. Some p)\<rparr>"

definition example_tb :: trusted_binaries where
  "example_tb = \<lparr>by_id = [(file_id_new 37 17746, (''unix_chkpwd'', CredentialReader))],
     by_path = [(''/usr/sbin/unix_chkpwd'', (''unix_chkpwd'', CredentialReader))], unresolved = []\<rparr>"

lemma example_tb_ok: "tb_ok example_tb"
  by (auto simp: tb_ok_def example_tb_def hm_ok_def hm_get_def has_role_def CREDENTIAL_READERS_def
      trusted_t_def split: if_splits)

lemma example_rebind: "rebind_from_kernel (example_host ''/usr/sbin/unix_chkpwd'' 17746)
    ''/usr/sbin/unix_chkpwd'' (file_id_new 35 17746) example_tb
  = (Some (''unix_chkpwd'', CredentialReader),
     example_tb\<lparr>by_id := [(file_id_new 35 17746, (''unix_chkpwd'', CredentialReader))]\<rparr>)"
  by (simp add: rebind_from_kernel_def example_host_def file_id_of_def is_unknown_def file_id_new_def
      bind_def example_tb_def hm_get_def hm_insert_def hm_retain_def)

theorem rebind_from_kernel_spec_witness:
  "lookup (snd (rebind_from_kernel (example_host ''/usr/sbin/unix_chkpwd'' 17746)
      ''/usr/sbin/unix_chkpwd'' (file_id_new 35 17746) example_tb)) (file_id_new 35 17746)
    = Some (''unix_chkpwd'', CredentialReader)"
  using rebind_from_kernel_spec [OF example_tb_ok example_rebind]
  by (simp add: example_rebind)

text \<open>
  An unknown identity (inode 0) is never trusted, and whatever a well-formed table
  returns for an identity is a program that plays that role in the built-in lists.
\<close>

theorem lookup_safe:
  assumes "tb_ok tb"
  shows "lookup tb \<lparr>dev = d, ino = 0\<rparr> = None
    \<and> (\<forall>f n r. lookup tb f = Some (n, r) \<longrightarrow> ino f \<noteq> 0 \<and> has_role n r)"
  using assms lookup_role by (auto simp: lookup_def is_unknown_def split: if_splits)

theorem lookup_safe_witness:
  "lookup example_tb \<lparr>dev = 37, ino = 0\<rparr> = None \<and> has_role ''unix_chkpwd'' CredentialReader"
proof -
  have "lookup example_tb (file_id_new 37 17746) = Some (''unix_chkpwd'', CredentialReader)"
    by (simp add: lookup_def example_tb_def file_id_new_def is_unknown_def hm_get_def)
  then show ?thesis using lookup_safe [OF example_tb_ok, of 37] by blast
qed

text \<open>
  No program is listed both as a credential reader (whose reads are suppressed) and as
  a network daemon (whose shells are reported).
\<close>

theorem roles_disjoint: "\<not> (has_role n CredentialReader \<and> has_role n NetworkDaemon)"
proof -
  have "set (map tr_name CREDENTIAL_READERS) \<inter> set (map tr_name NETWORK_DAEMONS) = {}"
    by (simp add: CREDENTIAL_READERS_def NETWORK_DAEMONS_def trusted_t_def)
  then show ?thesis using table_roles by (fastforce simp: has_role_iff)
qed

end
