(* ===== verification/Container.thy ===== *)
theory Container
  imports Prelude
begin

text \<open>
  Container references in cgroup paths (\<^verbatim>\<open>src/container.rs\<close>).
\<close>

record container_ref =
  runtime :: string
  cid :: string

definition container_label :: "container_ref \<Rightarrow> string" where
  "container_label c = runtime c @ '':'' @ cid c"

definition is_hex_id :: "string \<Rightarrow> bool" where
  "is_hex_id s \<longleftrightarrow> length s \<ge> 12 \<and> list_all is_ascii_hexdigit s"

definition container_short :: "string \<Rightarrow> string" where
  "container_short i = take 12 i"

definition RUNTIMES :: "(string \<times> string) list" where
  "RUNTIMES = [(''docker-'', ''docker''), (''cri-containerd-'', ''containerd''),
     (''containerd-'', ''containerd''), (''libpod-'', ''podman''), (''crio-'', ''crio'')]"

text \<open>The inner loop: the first runtime prefix that is followed by an id.\<close>

fun match_runtime :: "(string \<times> string) list \<Rightarrow> string \<Rightarrow> container_ref option" where
  "match_runtime [] stem = None"
| "match_runtime ((pfx, rt) # rs) stem =
     (case strip_prefix pfx stem of
        Some i \<Rightarrow> if is_hex_id i then Some \<lparr>runtime = rt, cid = container_short i\<rparr> else match_runtime rs stem
      | None \<Rightarrow> match_runtime rs stem)"

definition parse_part :: "string \<Rightarrow> container_ref option" where
  "parse_part part =
     (let stem = (case strip_suffix ''.scope'' part of Some s \<Rightarrow> s | None \<Rightarrow> part)
      in case match_runtime RUNTIMES stem of
           Some c \<Rightarrow> Some c
         | None \<Rightarrow> if is_hex_id stem \<and> length stem \<ge> 32
                   then Some \<lparr>runtime = ''container'', cid = container_short stem\<rparr> else None)"

fun parse_parts :: "string list \<Rightarrow> container_ref option" where
  "parse_parts [] = None"
| "parse_parts (p # ps) = (case parse_part p of Some c \<Rightarrow> Some c | None \<Rightarrow> parse_parts ps)"

definition parse_container :: "string \<Rightarrow> container_ref option" where
  "parse_container path =
     (if \<not> contains ''-'' path \<and> length path < 32 then None
      else parse_parts (split_on (CHR ''/'') path))"

section \<open>Correctness\<close>

lemma contains_char: "contains [c] s \<longleftrightarrow> c \<in> set s"
  by (auto simp: contains_iff in_set_conv_decomp)

lemma match_runtime_Some:
  assumes "match_runtime rs stem = Some c"
  shows "\<exists>p i. (p, runtime c) \<in> set rs \<and> stem = p @ i \<and> is_hex_id i \<and> cid c = container_short i"
  using assms
proof (induction rs stem rule: match_runtime.induct)
  case (2 pfx rt rs stem)
  then show ?case by (cases "strip_prefix pfx stem") (auto simp: strip_prefix_Some split: if_splits)
qed simp

lemma parse_part_Some:
  assumes "parse_part part = Some c"
  shows "\<exists>i. is_hex_id i \<and> cid c = container_short i \<and> (\<exists>a b. part = a @ i @ b)
    \<and> (CHR ''-'' \<in> set part \<or> 32 \<le> length part)"
proof -
  define stem where "stem = (case strip_suffix ''.scope'' part of Some s \<Rightarrow> s | None \<Rightarrow> part)"
  obtain sfx where part: "part = stem @ sfx"
    by (cases "strip_suffix ''.scope'' part") (auto simp: stem_def strip_suffix_Some)
  show ?thesis
  proof (cases "match_runtime RUNTIMES stem")
    case None
    then have "is_hex_id stem \<and> 32 \<le> length stem \<and> cid c = container_short stem"
      using assms by (auto simp: parse_part_def stem_def [symmetric] Let_def split: if_splits)
    then show ?thesis using part by (metis append_Nil length_append trans_le_add1)
  next
    case (Some d)
    then have "d = c" using assms by (simp add: parse_part_def stem_def [symmetric] Let_def)
    then obtain p i where "(p, runtime c) \<in> set RUNTIMES" "stem = p @ i" "is_hex_id i" "cid c = container_short i"
      using match_runtime_Some [OF Some] by auto
    moreover from this(1) have "CHR ''-'' \<in> set p" by (auto simp: RUNTIMES_def)
    ultimately show ?thesis using part by auto
  qed
qed

lemma split_on_sub: "w \<in> set (split_on c s) \<Longrightarrow> \<exists>a b. s = a @ w @ b"
proof (induction s arbitrary: w)
  case (Cons x xs)
  obtain v vs where sp: "split_on c xs = v # vs" by (cases "split_on c xs") auto
  have hd_ok: "\<exists>b. xs = v @ b"
    using sp
  proof (induction xs arbitrary: v vs)
    case (Cons y ys)
    then show ?case by (cases "split_on c ys") (auto split: if_splits)
  qed simp
  show ?case
  proof (cases "x \<noteq> c \<and> w = x # v")
    case True
    then show ?thesis using hd_ok by (metis append_Cons append_Nil)
  next
    case False
    then have "w = [] \<or> w \<in> set (split_on c xs)" using Cons.prems sp by (auto split: if_splits)
    then show ?thesis
    proof
      assume "w \<in> set (split_on c xs)"
      then show ?thesis using Cons.IH by (metis append_Cons)
    qed auto
  qed
qed simp

lemma parse_parts_Some: "parse_parts ps = Some c \<Longrightarrow> \<exists>p \<in> set ps. parse_part p = Some c"
  by (induction ps) (auto split: option.splits)

lemma parse_parts_short_path:
  assumes "\<not> contains ''-'' path" and "length path < 32"
  shows "parse_parts (split_on (CHR ''/'') path) = None"
proof (rule ccontr)
  assume "parse_parts (split_on (CHR ''/'') path) \<noteq> None"
  then obtain c p where "p \<in> set (split_on (CHR ''/'') path)" "parse_part p = Some c"
    using parse_parts_Some by fastforce
  moreover from this(1) obtain a b where "path = a @ p @ b" using split_on_sub by blast
  ultimately show False using parse_part_Some assms by (fastforce simp: contains_char)
qed

lemma parse_container_eq: "parse_container path = parse_parts (split_on (CHR ''/'') path)"
  by (simp add: parse_container_def parse_parts_short_path)

text \<open>
  The fast path that skips host cgroups never changes the answer: the result is
  that of scanning every path component, in order, for the first one that names a container.
\<close>

theorem parse_container_fast_path:
  "parse_container path =
     (case find (\<lambda>p. parse_part p \<noteq> None) (split_on (CHR ''/'') path) of
        None \<Rightarrow> None | Some p \<Rightarrow> parse_part p)"
proof -
  have "parse_parts ps = (case find (\<lambda>p. parse_part p \<noteq> None) ps of None \<Rightarrow> None | Some p \<Rightarrow> parse_part p)" for ps
    by (induction ps) (auto split: option.splits)
  then show ?thesis by (simp add: parse_container_eq)
qed

text \<open>
  A container reference names an id of twelve hexadecimal digits that occurs in
  the path.
\<close>

theorem parse_container_id:
  assumes "parse_container path = Some c"
  shows "length (cid c) = 12 \<and> list_all is_ascii_hexdigit (cid c) \<and> contains (cid c) path"
proof -
  obtain p where p: "p \<in> set (split_on (CHR ''/'') path)" "parse_part p = Some c"
    using assms parse_parts_Some by (auto simp: parse_container_eq)
  obtain i a b where i: "is_hex_id i" "cid c = container_short i" "p = a @ i @ b"
    using parse_part_Some [OF p(2)] by blast
  obtain u v where "path = u @ p @ v" using split_on_sub [OF p(1)] by blast
  then have "path = (u @ a) @ cid c @ (drop 12 i @ b @ v)" using i by (simp add: container_short_def)
  then have "contains (cid c) path" using contains_iff by blast
  then show ?thesis using i by (auto simp: is_hex_id_def container_short_def list_all_iff dest: in_set_takeD)
qed

theorem parse_container_id_witness:
  "parse_container ''/system.slice/docker-3b9e8f2a1c4d5e6f7a8b.scope''
      = Some \<lparr>runtime = ''docker'', cid = ''3b9e8f2a1c4d''\<rparr>
   \<and> length ''3b9e8f2a1c4d'' = 12 \<and> contains ''3b9e8f2a1c4d'' ''/system.slice/docker-3b9e8f2a1c4d5e6f7a8b.scope''"
proof -
  have e: "parse_container ''/system.slice/docker-3b9e8f2a1c4d5e6f7a8b.scope''
      = Some \<lparr>runtime = ''docker'', cid = ''3b9e8f2a1c4d''\<rparr>"
    by (simp add: parse_container_def contains_char parse_part_def strip_suffix_def strip_prefix_def
        starts_with_def RUNTIMES_def is_hex_id_def container_short_def is_ascii_hexdigit_def)
  show ?thesis using parse_container_id [OF e] e by simp
qed

end
