(* ===== verification/Event.thy ===== *)
theory Event
  imports FileId Redact Container
begin

text \<open>
  Events (\<^verbatim>\<open>src/event.rs\<close>, \<^verbatim>\<open>src/decoded.rs\<close>): the record the kernel side writes into
  the ring buffer, its decoding from bytes, the lossy conversion of its byte arrays to text, and the
  decoded event that the process graph and the detection engine consume.
\<close>

section \<open>Event types\<close>

datatype event_type =
    Exec | Exit | Fork | CredChange | FileOpen | FileMode | Setcap | Ptrace | ExecAnon
  | Module | SockConnect | SockListen | Unknown u16

definition event_type_from :: "u16 \<Rightarrow> event_type" where
  "event_type_from v =
     (if v = 1 then Exec else if v = 2 then Exit else if v = 3 then Fork
      else if v = 4 then CredChange else if v = 5 then FileOpen else if v = 6 then FileMode
      else if v = 7 then Setcap else if v = 8 then Ptrace else if v = 9 then ExecAnon
      else if v = 10 then Module else if v = 11 then SockConnect else if v = 12 then SockListen
      else Unknown v)"

section \<open>The wire format\<close>

definition TASK_COMM_LEN :: nat where "TASK_COMM_LEN = 16"
definition MAX_FILENAME :: nat where "MAX_FILENAME = 256"
definition MAX_ARGV :: nat where "MAX_ARGV = 512"
definition MAX_CGROUP_NAME :: nat where "MAX_CGROUP_NAME = 64"

record raw_event =
  r_ts_ns :: u64
  r_cgroup_id :: u64
  r_start_boottime :: u64
  r_cap_effective :: u64
  r_old_cap_effective :: u64
  r_child_start_boottime :: u64
  r_exe_ino :: u64
  r_pid :: u32
  r_tgid :: u32
  r_ppid :: u32
  r_uid :: u32
  r_gid :: u32
  r_euid :: u32
  r_egid :: u32
  r_old_uid :: u32
  r_old_gid :: u32
  r_old_euid :: u32
  r_old_egid :: u32
  r_exit_code :: u32
  r_argv_len :: u32
  r_child_pid :: u32
  r_file_mode :: u32
  r_old_file_mode :: u32
  r_watch_id :: u32
  r_target_pid :: u32
  r_aux :: u32
  r_mnt_ns :: u32
  r_pid_ns :: u32
  r_net_ns :: u32
  r_exe_dev :: u32
  r_type :: u16
  r_flags :: u16
  r_comm :: "u8 list"
  r_filename :: "u8 list"
  r_argv :: "u8 list"
  r_cgroup_name :: "u8 list"

text \<open>
  \<^verbatim>\<open>#[repr(C)]\<close>: the fields in order, seven 8-byte integers, twenty-three 4-byte ones, two
  2-byte ones and four arrays; no field needs padding and the size, 1000, is a multiple of 8.
\<close>

definition RAW_SIZE :: nat where
  "RAW_SIZE = 7 * 8 + 23 * 4 + 2 * 2 + TASK_COMM_LEN + MAX_FILENAME + MAX_ARGV + MAX_CGROUP_NAME"

definition rd64 :: "u8 list \<Rightarrow> nat \<Rightarrow> u64" where
  "rd64 bs i = of_le_bytes (take 8 (drop (8 * i) bs))"

definition rd32 :: "u8 list \<Rightarrow> nat \<Rightarrow> u32" where
  "rd32 bs i = of_le_bytes (take 4 (drop (56 + 4 * i) bs))"

definition rd16 :: "u8 list \<Rightarrow> nat \<Rightarrow> u16" where
  "rd16 bs i = of_le_bytes (take 2 (drop (148 + 2 * i) bs))"

definition from_bytes :: "u8 list \<Rightarrow> raw_event option" where
  "from_bytes bs =
     (if length bs < RAW_SIZE then None
      else Some \<lparr>
        r_ts_ns = rd64 bs 0, r_cgroup_id = rd64 bs 1, r_start_boottime = rd64 bs 2,
        r_cap_effective = rd64 bs 3, r_old_cap_effective = rd64 bs 4,
        r_child_start_boottime = rd64 bs 5, r_exe_ino = rd64 bs 6,
        r_pid = rd32 bs 0, r_tgid = rd32 bs 1, r_ppid = rd32 bs 2, r_uid = rd32 bs 3,
        r_gid = rd32 bs 4, r_euid = rd32 bs 5, r_egid = rd32 bs 6, r_old_uid = rd32 bs 7,
        r_old_gid = rd32 bs 8, r_old_euid = rd32 bs 9, r_old_egid = rd32 bs 10,
        r_exit_code = rd32 bs 11, r_argv_len = rd32 bs 12, r_child_pid = rd32 bs 13,
        r_file_mode = rd32 bs 14, r_old_file_mode = rd32 bs 15, r_watch_id = rd32 bs 16,
        r_target_pid = rd32 bs 17, r_aux = rd32 bs 18, r_mnt_ns = rd32 bs 19,
        r_pid_ns = rd32 bs 20, r_net_ns = rd32 bs 21, r_exe_dev = rd32 bs 22,
        r_type = rd16 bs 0, r_flags = rd16 bs 1,
        r_comm = take TASK_COMM_LEN (drop 152 bs),
        r_filename = take MAX_FILENAME (drop 168 bs),
        r_argv = take MAX_ARGV (drop 424 bs),
        r_cgroup_name = take MAX_CGROUP_NAME (drop 936 bs)\<rparr>)"

section \<open>Bytes to text\<close>

text \<open>
  \<^verbatim>\<open>String::from_utf8_lossy\<close>. The step at a lead byte yields how many bytes it consumes and
  whether they form a code point; a broken sequence consumes its longest well-formed start, which
  becomes one U+FFFD.
\<close>

definition is_cont :: "u8 \<Rightarrow> bool" where
  "is_cont b \<longleftrightarrow> 0x80 \<le> b \<and> b \<le> 0xBF"

definition second_ok :: "u8 \<Rightarrow> u8 \<Rightarrow> bool" where
  "second_ok b c \<longleftrightarrow>
     (if b = 0xE0 then 0xA0 \<le> c \<and> c \<le> 0xBF
      else if b = 0xED then 0x80 \<le> c \<and> c \<le> 0x9F
      else if b = 0xF0 then 0x90 \<le> c \<and> c \<le> 0xBF
      else if b = 0xF4 then 0x80 \<le> c \<and> c \<le> 0x8F
      else is_cont c)"

definition utf8_width :: "u8 \<Rightarrow> nat" where
  "utf8_width b =
     (if b < 0x80 then 1 else if 0xC2 \<le> b \<and> b \<le> 0xDF then 2
      else if 0xE0 \<le> b \<and> b \<le> 0xEF then 3 else if 0xF0 \<le> b \<and> b \<le> 0xF4 then 4 else 0)"

fun utf8_step :: "u8 \<Rightarrow> u8 list \<Rightarrow> nat \<times> bool" where
  "utf8_step b rest =
     (if utf8_width b = 0 then (1, False)
      else if utf8_width b = 1 then (1, True)
      else (case rest of
          [] \<Rightarrow> (1, False)
        | c # rest2 \<Rightarrow>
            if \<not> second_ok b c then (1, False)
            else if utf8_width b = 2 then (2, True)
            else (case rest2 of
                [] \<Rightarrow> (2, False)
              | d # rest3 \<Rightarrow>
                  if \<not> is_cont d then (2, False)
                  else if utf8_width b = 3 then (3, True)
                  else (case rest3 of
                      [] \<Rightarrow> (3, False)
                    | e # _ \<Rightarrow> if \<not> is_cont e then (3, False) else (4, True)))))"

definition REPLACEMENT :: "u8 list" where
  "REPLACEMENT = [0xEF, 0xBF, 0xBD]"

fun utf8_lossy :: "u8 list \<Rightarrow> u8 list" where
  "utf8_lossy [] = []"
| "utf8_lossy (b # bs) =
     (case utf8_step b bs of (n, ok) \<Rightarrow>
        (if ok then take n (b # bs) else REPLACEMENT) @ utf8_lossy (drop (n - 1) bs))"

definition text_of :: "u8 list \<Rightarrow> string" where
  "text_of bs = map (\<lambda>b. char_of (unat b)) bs"

definition from_utf8_lossy :: "u8 list \<Rightarrow> string" where
  "from_utf8_lossy bs = text_of (utf8_lossy bs)"

text \<open>\<^verbatim>\<open>CStr::from_bytes_until_nul\<close> fails only when there is no NUL at all.\<close>

definition cstr_lossy :: "u8 list \<Rightarrow> string" where
  "cstr_lossy buf =
     (if 0 \<in> set buf then from_utf8_lossy (takeWhile (\<lambda>b. b \<noteq> 0) buf) else from_utf8_lossy buf)"

fun split_nul :: "u8 list \<Rightarrow> u8 list list" where
  "split_nul [] = [[]]"
| "split_nul (b # bs) =
     (if b = 0 then [] # split_nul bs
      else (case split_nul bs of [] \<Rightarrow> [[b]] | w # ws \<Rightarrow> (b # w) # ws))"

section \<open>Accessors of the raw record\<close>

definition raw_comm :: "raw_event \<Rightarrow> string" where "raw_comm r = cstr_lossy (r_comm r)"
definition raw_cgroup_name :: "raw_event \<Rightarrow> string" where "raw_cgroup_name r = cstr_lossy (r_cgroup_name r)"
definition raw_filename :: "raw_event \<Rightarrow> string" where "raw_filename r = cstr_lossy (r_filename r)"

definition raw_argv :: "raw_event \<Rightarrow> string list" where
  "raw_argv r =
     (let len = min (unat (r_argv_len r)) MAX_ARGV
      in map from_utf8_lossy (filter (\<lambda>s. s \<noteq> []) (split_nul (take len (r_argv r)))))"

definition truncated :: "raw_event \<Rightarrow> bool" where "truncated r = bit (r_flags r) 0"
definition degraded_path :: "raw_event \<Rightarrow> bool" where "degraded_path r = bit (r_flags r) 1"
definition denied :: "raw_event \<Rightarrow> bool" where "denied r = bit (r_flags r) 2"
definition would_deny :: "raw_event \<Rightarrow> bool" where "would_deny r = bit (r_flags r) 3"
definition escape_target :: "raw_event \<Rightarrow> bool" where "escape_target r = bit (r_flags r) 4"
definition socket_stdio :: "raw_event \<Rightarrow> bool" where "socket_stdio r = bit (r_flags r) 5"

text \<open>The record has the readings of its fields that the decoded event has, for callers that hold no event.\<close>

definition raw_event_type :: "raw_event \<Rightarrow> event_type" where
  "raw_event_type r = event_type_from (r_type r)"

definition raw_ptrace_is_attach :: "raw_event \<Rightarrow> bool" where
  "raw_ptrace_is_attach r \<longleftrightarrow> and (r_aux r) 0x02 \<noteq> 0"

definition raw_exec_source :: "raw_event \<Rightarrow> string" where
  "raw_exec_source r = (if r_aux r = 1 then ''memfd'' else if r_aux r = 2 then ''anon-inode''
     else if r_aux r = 3 then ''deleted-file'' else ''unknown'')"

definition raw_module_origin :: "raw_event \<Rightarrow> string" where
  "raw_module_origin r = (if r_aux r = 1 then ''init_module'' else if r_aux r = 2 then ''finit_module'' else [])"

definition raw_gained_bits :: "raw_event \<Rightarrow> string" where
  "raw_gained_bits r =
     (let S_ISUID = 2048; S_ISGID = 1024;
          suid = and (r_file_mode r) S_ISUID \<noteq> 0 \<and> and (r_old_file_mode r) S_ISUID = 0;
          sgid = and (r_file_mode r) S_ISGID \<noteq> 0 \<and> and (r_old_file_mode r) S_ISGID = 0
      in if suid \<and> sgid then ''SUID+SGID'' else if suid then ''SUID''
         else if sgid then ''SGID'' else ''none'')"

definition raw_opened_for_write :: "raw_event \<Rightarrow> bool" where
  "raw_opened_for_write r \<longleftrightarrow> and (r_file_mode r) 0x2 \<noteq> 0"

definition CAPS :: "(nat \<times> string) list" where
  "CAPS = [(0, ''CAP_CHOWN''), (1, ''CAP_DAC_OVERRIDE''), (2, ''CAP_DAC_READ_SEARCH''),
     (6, ''CAP_SETGID''), (7, ''CAP_SETUID''), (8, ''CAP_SETPCAP''), (12, ''CAP_NET_ADMIN''),
     (16, ''CAP_SYS_MODULE''), (19, ''CAP_SYS_PTRACE''), (21, ''CAP_SYS_ADMIN''),
     (38, ''CAP_PERFMON''), (39, ''CAP_BPF'')]"

definition cap_names :: "u64 \<Rightarrow> string list" where
  "cap_names caps = map snd (filter (\<lambda>(b, _). bit caps b) CAPS)"

section \<open>The decoded event\<close>

record event =
  ev_ts_ns :: u64
  ev_type :: u16
  ev_tgid :: u32
  ev_ppid :: u32
  ev_start_boottime :: u64
  ev_uid :: u32
  ev_gid :: u32
  ev_euid :: u32
  ev_egid :: u32
  ev_cgroup_id :: u64
  ev_comm :: string
  ev_filename :: string
  ev_argv :: "string list"
  ev_truncated :: bool
  ev_escape_target :: bool
  ev_socket_stdio :: bool
  ev_denied :: bool
  ev_would_deny :: bool
  ev_exit_code :: u32
  ev_child_pid :: u32
  ev_child_start_boottime :: u64
  ev_old_uid :: u32
  ev_old_gid :: u32
  ev_old_euid :: u32
  ev_old_egid :: u32
  ev_cap_effective :: u64
  ev_old_cap_effective :: u64
  ev_file_mode :: u32
  ev_old_file_mode :: u32
  ev_watch_id :: u32
  ev_mnt_ns :: u32
  ev_pid_ns :: u32
  ev_net_ns :: u32
  ev_degraded_path :: bool
  ev_target_pid :: u32
  ev_aux :: u32
  ev_container :: string
  ev_exe_ino :: u64
  ev_exe_dev :: u32
  ev_exe_trusted :: string

definition event_type :: "event \<Rightarrow> event_type" where
  "event_type e = event_type_from (ev_type e)"

definition exe_id :: "event \<Rightarrow> file_id" where
  "exe_id e = file_id_new (ev_exe_dev e) (ev_exe_ino e)"

definition resolve_trust :: "host_fs \<Rightarrow> event \<Rightarrow> trusted_binaries \<Rightarrow> event \<times> trusted_binaries" where
  "resolve_trust fs e tb =
     (case lookup tb (exe_id e) of
        Some (name, _) \<Rightarrow> (e\<lparr>ev_exe_trusted := name\<rparr>, tb)
      | None \<Rightarrow>
          if event_type e = Exec \<and> tracks_path tb (ev_filename e) then
            (case rebind_from_kernel fs (ev_filename e) (exe_id e) tb of
               (Some (name, _), tb') \<Rightarrow> (e\<lparr>ev_exe_trusted := name\<rparr>, tb')
             | (None, tb') \<Rightarrow> (e, tb'))
          else (e, tb))"

definition opened_for_write :: "event \<Rightarrow> bool" where
  "opened_for_write e \<longleftrightarrow> and (ev_file_mode e) 0x2 \<noteq> 0"

definition ptrace_is_attach :: "event \<Rightarrow> bool" where
  "ptrace_is_attach e \<longleftrightarrow> and (ev_aux e) 0x02 \<noteq> 0"

definition exec_source :: "event \<Rightarrow> string" where
  "exec_source e = (if ev_aux e = 1 then ''memfd'' else if ev_aux e = 2 then ''anon-inode''
     else if ev_aux e = 3 then ''deleted-file'' else ''unknown'')"

definition module_origin :: "event \<Rightarrow> string" where
  "module_origin e = (if ev_aux e = 1 then ''init_module'' else if ev_aux e = 2 then ''finit_module'' else [])"

definition gained_bits :: "event \<Rightarrow> string" where
  "gained_bits e =
     (let S_ISUID = 2048; S_ISGID = 1024;
          suid = and (ev_file_mode e) S_ISUID \<noteq> 0 \<and> and (ev_old_file_mode e) S_ISUID = 0;
          sgid = and (ev_file_mode e) S_ISGID \<noteq> 0 \<and> and (ev_old_file_mode e) S_ISGID = 0
      in if suid \<and> sgid then ''SUID+SGID'' else if suid then ''SUID''
         else if sgid then ''SGID'' else ''none'')"

definition event_from_raw :: "raw_event \<Rightarrow> event" where
  "event_from_raw r = \<lparr>
     ev_ts_ns = r_ts_ns r, ev_type = r_type r, ev_tgid = r_tgid r, ev_ppid = r_ppid r,
     ev_start_boottime = r_start_boottime r, ev_uid = r_uid r, ev_gid = r_gid r,
     ev_euid = r_euid r, ev_egid = r_egid r, ev_cgroup_id = r_cgroup_id r,
     ev_comm = raw_comm r, ev_filename = raw_filename r,
     ev_argv = Redact.argv (raw_argv r),
     ev_truncated = truncated r, ev_escape_target = escape_target r,
     ev_socket_stdio = socket_stdio r, ev_denied = denied r, ev_would_deny = would_deny r,
     ev_exit_code = r_exit_code r, ev_child_pid = r_child_pid r,
     ev_child_start_boottime = r_child_start_boottime r,
     ev_old_uid = r_old_uid r, ev_old_gid = r_old_gid r, ev_old_euid = r_old_euid r,
     ev_old_egid = r_old_egid r, ev_cap_effective = r_cap_effective r,
     ev_old_cap_effective = r_old_cap_effective r,
     ev_file_mode = r_file_mode r, ev_old_file_mode = r_old_file_mode r,
     ev_watch_id = r_watch_id r, ev_mnt_ns = r_mnt_ns r, ev_pid_ns = r_pid_ns r,
     ev_net_ns = r_net_ns r, ev_degraded_path = degraded_path r,
     ev_target_pid = r_target_pid r, ev_aux = r_aux r,
     ev_container = (case parse_container (raw_cgroup_name r) of
        None \<Rightarrow> [] | Some c \<Rightarrow> container_label c),
     ev_exe_ino = r_exe_ino r, ev_exe_dev = r_exe_dev r, ev_exe_trusted = []\<rparr>"

section \<open>Correctness of decoding\<close>

text \<open>The memory image of a record: what the kernel side copies into the ring buffer.\<close>

definition raw_ok :: "raw_event \<Rightarrow> bool" where
  "raw_ok r \<longleftrightarrow> length (r_comm r) = TASK_COMM_LEN \<and> length (r_filename r) = MAX_FILENAME
     \<and> length (r_argv r) = MAX_ARGV \<and> length (r_cgroup_name r) = MAX_CGROUP_NAME"

definition raw_u64s :: "raw_event \<Rightarrow> u64 list" where
  "raw_u64s r = [r_ts_ns r, r_cgroup_id r, r_start_boottime r, r_cap_effective r,
     r_old_cap_effective r, r_child_start_boottime r, r_exe_ino r]"

definition raw_u32s :: "raw_event \<Rightarrow> u32 list" where
  "raw_u32s r = [r_pid r, r_tgid r, r_ppid r, r_uid r, r_gid r, r_euid r, r_egid r, r_old_uid r,
     r_old_gid r, r_old_euid r, r_old_egid r, r_exit_code r, r_argv_len r, r_child_pid r,
     r_file_mode r, r_old_file_mode r, r_watch_id r, r_target_pid r, r_aux r, r_mnt_ns r,
     r_pid_ns r, r_net_ns r, r_exe_dev r]"

definition raw_bytes :: "raw_event \<Rightarrow> u8 list" where
  "raw_bytes r = concat (map (le_bytes 8) (raw_u64s r)) @ concat (map (le_bytes 4) (raw_u32s r))
     @ concat (map (le_bytes 2) [r_type r, r_flags r])
     @ r_comm r @ r_filename r @ r_argv r @ r_cgroup_name r"

lemma length_concat_same: "(\<And>x. x \<in> set xs \<Longrightarrow> length (f x) = n) \<Longrightarrow> length (concat (map f xs)) = n * length xs"
  by (induction xs) auto

lemma take_drop_concat:
  assumes "\<And>x. length (f x) = n" and "i < length xs"
  shows "take n (drop (n * i) (concat (map f xs) @ ys)) = f (xs ! i)"
  using assms(2)
proof (induction xs arbitrary: i)
  case (Cons x xs)
  then show ?case using assms(1) by (cases i) auto
qed simp

lemma length_u64s [simp]: "length (concat (map (le_bytes 8) (raw_u64s r))) = 56"
  by (simp add: raw_u64s_def)

lemma length_u32s [simp]: "length (concat (map (le_bytes 4) (raw_u32s r))) = 92"
  by (simp add: raw_u32s_def)

lemma rd64_raw: "i < 7 \<Longrightarrow> rd64 (raw_bytes r @ s) i = raw_u64s r ! i"
  using take_drop_concat [of "le_bytes 8" 8 i "raw_u64s r"]
  by (simp add: rd64_def raw_bytes_def le_bytes_roundtrip) (simp add: raw_u64s_def le_bytes_roundtrip)

lemma rd32_raw: "i < 23 \<Longrightarrow> rd32 (raw_bytes r @ s) i = raw_u32s r ! i"
  using take_drop_concat [of "le_bytes 4" 4 i "raw_u32s r"]
  by (simp add: rd32_def raw_bytes_def) (simp add: raw_u32s_def le_bytes_roundtrip)

lemma rd16_raw: "i < 2 \<Longrightarrow> rd16 (raw_bytes r @ s) i = [r_type r, r_flags r] ! i"
  using take_drop_concat [of "le_bytes 2" 2 i "[r_type r, r_flags r]"]
  by (simp add: rd16_def raw_bytes_def le_bytes_roundtrip)

lemma length_raw_bytes: "raw_ok r \<Longrightarrow> length (raw_bytes r) = RAW_SIZE"
  by (simp add: raw_bytes_def raw_ok_def RAW_SIZE_def)

lemma raw_arrays:
  assumes "raw_ok r"
  shows "take TASK_COMM_LEN (drop 152 (raw_bytes r @ s)) = r_comm r"
    and "take MAX_FILENAME (drop 168 (raw_bytes r @ s)) = r_filename r"
    and "take MAX_ARGV (drop 424 (raw_bytes r @ s)) = r_argv r"
    and "take MAX_CGROUP_NAME (drop 936 (raw_bytes r @ s)) = r_cgroup_name r"
  using assms
  by (simp_all add: raw_bytes_def raw_ok_def TASK_COMM_LEN_def MAX_FILENAME_def MAX_ARGV_def
      MAX_CGROUP_NAME_def)

lemma from_bytes_raw: "raw_ok r \<Longrightarrow> from_bytes (raw_bytes r @ s) = Some r"
  unfolding from_bytes_def raw_arrays
  by (simp add: length_raw_bytes rd64_raw rd32_raw rd16_raw) (simp add: raw_u64s_def raw_u32s_def)

text \<open>Decoding loses none of the readings.\<close>

lemma raw_readings:
  "raw_event_type r = event_type (event_from_raw r)" "raw_ptrace_is_attach r = ptrace_is_attach (event_from_raw r)"
  "raw_exec_source r = exec_source (event_from_raw r)" "raw_module_origin r = module_origin (event_from_raw r)"
  "raw_gained_bits r = gained_bits (event_from_raw r)" "raw_opened_for_write r = opened_for_write (event_from_raw r)"
  by (simp_all add: raw_event_type_def raw_ptrace_is_attach_def raw_exec_source_def raw_module_origin_def raw_gained_bits_def
      raw_opened_for_write_def event_type_def ptrace_is_attach_def exec_source_def module_origin_def gained_bits_def
      opened_for_write_def event_from_raw_def Let_def)

text \<open>
  Decoding the memory image of a record gives back that record, whatever follows it
  in the ring buffer, and exactly the buffers shorter than a record are refused.
\<close>

theorem from_bytes_roundtrip:
  assumes "raw_ok r"
  shows "from_bytes (raw_bytes r @ s) = Some r
    \<and> (from_bytes bs = None \<longleftrightarrow> length bs < length (raw_bytes r))"
  using from_bytes_raw [OF assms] by (simp add: from_bytes_def length_raw_bytes [OF assms])

definition example_raw :: "u16 \<Rightarrow> u8 list \<Rightarrow> raw_event" where
  "example_raw ty args = \<lparr>
     r_ts_ns = 7, r_cgroup_id = 1, r_start_boottime = 5, r_cap_effective = 0, r_old_cap_effective = 0,
     r_child_start_boottime = 0, r_exe_ino = 17746, r_pid = 100, r_tgid = 100, r_ppid = 1,
     r_uid = 1000, r_gid = 1000, r_euid = 0, r_egid = 1000, r_old_uid = 1000, r_old_gid = 1000,
     r_old_euid = 1000, r_old_egid = 1000, r_exit_code = 0, r_argv_len = of_nat (length args),
     r_child_pid = 0, r_file_mode = 0, r_old_file_mode = 0, r_watch_id = 0, r_target_pid = 0,
     r_aux = 0, r_mnt_ns = 0, r_pid_ns = 0, r_net_ns = 0, r_exe_dev = 35, r_type = ty, r_flags = 0,
     r_comm = replicate 16 0, r_filename = replicate 256 0,
     r_argv = args @ replicate (512 - length args) 0, r_cgroup_name = replicate 64 0\<rparr>"

theorem from_bytes_roundtrip_witness:
  "from_bytes (raw_bytes (example_raw 1 [108, 115])) = Some (example_raw 1 [108, 115])
    \<and> from_bytes [1, 2] = None"
proof -
  have ok: "raw_ok (example_raw 1 [108, 115])"
    by (simp add: raw_ok_def example_raw_def TASK_COMM_LEN_def MAX_FILENAME_def MAX_ARGV_def
        MAX_CGROUP_NAME_def)
  show ?thesis using from_bytes_roundtrip [OF ok, of "[]" "[1, 2]"]
    by (simp add: length_raw_bytes [OF ok] RAW_SIZE_def)
qed

section \<open>Text is valid UTF-8\<close>

fun utf8_valid :: "u8 list \<Rightarrow> bool" where
  "utf8_valid [] = True"
| "utf8_valid (b # bs) = (case utf8_step b bs of (n, ok) \<Rightarrow> ok \<and> utf8_valid (drop (n - 1) bs))"

lemma utf8_step_ok:
  "utf8_step b bs = (n, True) \<Longrightarrow>
     1 \<le> n \<and> n - 1 \<le> length bs \<and> utf8_step b (take (n - 1) bs @ s) = (n, True)"
  by (auto split: if_splits list.splits)

lemma utf8_valid_append: "utf8_valid xs \<Longrightarrow> utf8_valid (xs @ ys) \<longleftrightarrow> utf8_valid ys"
proof (induction xs rule: utf8_valid.induct)
  case (2 b bs)
  obtain n where st: "utf8_step b bs = (n, True)" and v: "utf8_valid (drop (n - 1) bs)"
    using 2(2) by (auto split: prod.splits simp del: utf8_step.simps)
  note ok = utf8_step_ok [OF st]
  have "utf8_step b (bs @ ys) = (n, True)"
    using ok [of "drop (n - 1) bs @ ys"] by (metis append.assoc append_take_drop_id)
  moreover have "n - 1 \<le> length bs" using ok by blast
  then have "n - Suc (length bs) = 0" by simp
  ultimately show ?case using 2(1) [OF st [symmetric] v] by (simp del: utf8_step.simps)
qed simp

lemma utf8_valid_replacement [simp]: "utf8_valid REPLACEMENT"
  by (simp add: REPLACEMENT_def utf8_width_def second_ok_def is_cont_def)

lemma utf8_valid_lossy: "utf8_valid (utf8_lossy bs)"
proof (induction bs rule: utf8_lossy.induct)
  case (2 b bs)
  obtain n ok where st: "utf8_step b bs = (n, ok)" by (cases "utf8_step b bs")
  have IH: "utf8_valid (utf8_lossy (drop (n - 1) bs))" using 2 st by simp
  have head: "utf8_valid (if ok then take n (b # bs) else REPLACEMENT)"
  proof (cases ok)
    case True
    then have "1 \<le> n" "utf8_step b (take (n - 1) bs) = (n, True)" "n - 1 \<le> length bs"
      using utf8_step_ok [of b bs n "[]"] st by simp_all
    then show ?thesis using True by (cases n) (simp_all del: utf8_step.simps)
  qed simp
  show ?case using st IH utf8_valid_append [OF head] by (simp del: utf8_step.simps)
qed simp

lemma utf8_lossy_valid: "utf8_valid bs \<Longrightarrow> utf8_lossy bs = bs"
proof (induction bs rule: utf8_valid.induct)
  case (2 b bs)
  obtain n where st: "utf8_step b bs = (n, True)" and v: "utf8_valid (drop (n - 1) bs)"
    using 2(2) by (auto split: prod.splits simp del: utf8_step.simps)
  have "1 \<le> n" using utf8_step_ok [OF st] by simp
  then show ?case using 2(1) [OF st [symmetric] v] st
    by (cases n) (simp_all del: utf8_step.simps)
qed simp

text \<open>
  Text taken from the kernel is always well-formed UTF-8, and well-formed input is
  kept byte for byte.
\<close>

theorem utf8_lossy_correct:
  "utf8_valid (utf8_lossy bs) \<and> (utf8_lossy bs = bs \<longleftrightarrow> utf8_valid bs)"
  using utf8_valid_lossy [of bs] utf8_lossy_valid [of bs] by auto

section \<open>What decoding guarantees\<close>

text \<open>
  A decoded event carries no more arguments than the process had, already redacted:
  redacting them again changes nothing. Its executable is not yet trusted.
\<close>

theorem event_from_raw_redacted:
  "length (ev_argv (event_from_raw r)) = length (raw_argv r)
   \<and> Redact.argv (ev_argv (event_from_raw r)) = ev_argv (event_from_raw r)
   \<and> ev_exe_trusted (event_from_raw r) = []"
  by (simp add: event_from_raw_def)

text \<open>
  An event is named as a trusted program only if that program is in the built-in lists
  and the event's executable has a known inode; every other field is left alone, and the table stays
  well-formed.
\<close>

theorem resolve_trust_sound:
  assumes "tb_ok tb" and "ev_exe_trusted e = []" and "resolve_trust fs e tb = (e', tb')"
  shows "tb_ok tb' \<and> e'\<lparr>ev_exe_trusted := []\<rparr> = e
    \<and> (ev_exe_trusted e' \<noteq> [] \<longrightarrow>
        ev_exe_ino e \<noteq> 0 \<and> (\<exists>r. has_role (ev_exe_trusted e') r
          \<and> lookup tb' (exe_id e) = Some (ev_exe_trusted e', r)))"
proof (cases "lookup tb (exe_id e)")
  case (Some p)
  then obtain n r where n: "lookup tb (exe_id e) = Some (n, r)" by (cases p) auto
  then have "ev_exe_ino e \<noteq> 0" by (auto simp: lookup_def is_unknown_def exe_id_def file_id_new_def split: if_splits)
  with n assms lookup_role [OF assms(1) n] show ?thesis by (auto simp: resolve_trust_def)
next
  case None
  show ?thesis
  proof (cases "fst (rebind_from_kernel fs (ev_filename e) (exe_id e) tb)")
    case (Some p)
    then obtain n r tb2 where reb: "rebind_from_kernel fs (ev_filename e) (exe_id e) tb = (Some (n, r), tb2)"
      by (cases "rebind_from_kernel fs (ev_filename e) (exe_id e) tb", cases p) auto
    note facts = rebind_Some [OF assms(1) reb]
    from facts(1) have "ev_exe_ino e \<noteq> 0" by (simp add: is_unknown_def exe_id_def file_id_new_def)
    with facts None reb assms show ?thesis
      by (auto simp: resolve_trust_def split: if_splits)
  next
    case None
    with \<open>lookup tb (exe_id e) = None\<close> rebind_ok [OF assms(1), of fs "ev_filename e" "exe_id e"] assms
    show ?thesis by (auto simp: resolve_trust_def split: if_splits prod.splits option.splits)
  qed
qed

definition example_exec :: event where
  "example_exec = (event_from_raw (example_raw 1 []))\<lparr>ev_filename := ''/usr/sbin/unix_chkpwd''\<rparr>"

theorem resolve_trust_sound_witness:
  "ev_exe_trusted (fst (resolve_trust (example_host ''/usr/sbin/unix_chkpwd'' 17746) example_exec example_tb))
     = ''unix_chkpwd'' \<and> (\<exists>r. has_role ''unix_chkpwd'' r)"
proof -
  have f: "exe_id example_exec = file_id_new 35 17746" "event_type example_exec = Exec"
    "ev_filename example_exec = ''/usr/sbin/unix_chkpwd''" "ev_exe_trusted example_exec = []"
    by (simp_all add: example_exec_def event_from_raw_def example_raw_def exe_id_def event_type_def
        event_type_from_def)
  have l: "lookup example_tb (file_id_new 35 17746) = None"
    "tracks_path example_tb ''/usr/sbin/unix_chkpwd''"
    by (simp_all add: lookup_def example_tb_def hm_get_def file_id_new_def tracks_path_def is_unknown_def)
  have r: "resolve_trust (example_host ''/usr/sbin/unix_chkpwd'' 17746) example_exec example_tb
    = (example_exec\<lparr>ev_exe_trusted := ''unix_chkpwd''\<rparr>,
       example_tb\<lparr>by_id := [(file_id_new 35 17746, (''unix_chkpwd'', CredentialReader))]\<rparr>)"
    by (simp add: resolve_trust_def f l example_rebind)
  show ?thesis using resolve_trust_sound [OF example_tb_ok f(4) r] r by auto
qed

end
