(* ===== verification/Graph.thy ===== *)
theory Graph
  imports Hash_Map Event
begin

text \<open>
  The process graph (\<^verbatim>\<open>src/graph/mod.rs\<close>): processes keyed by PID and start time, the edges
  between them, the events that change them, and the reaper that bounds the graph.
\<close>

section \<open>Data\<close>

definition SCAN_START_TOLERANCE_NS :: u64 where
  "SCAN_START_TOLERANCE_NS = 20000000"

datatype proc_key = ProcKey (pk_pid: u32) (pk_start: u64)

text \<open>\<^verbatim>\<open>#[derive(PartialOrd, Ord)]\<close>: lexicographic, PID first.\<close>

instantiation proc_key :: linorder
begin

definition less_eq_proc_key :: "proc_key \<Rightarrow> proc_key \<Rightarrow> bool" where
  "less_eq_proc_key a b \<longleftrightarrow> pk_pid a < pk_pid b \<or> pk_pid a = pk_pid b \<and> pk_start a \<le> pk_start b"

definition less_proc_key :: "proc_key \<Rightarrow> proc_key \<Rightarrow> bool" where
  "less_proc_key a b \<longleftrightarrow> pk_pid a < pk_pid b \<or> pk_pid a = pk_pid b \<and> pk_start a < pk_start b"

instance
  by standard (auto simp: less_eq_proc_key_def less_proc_key_def intro: proc_key.expand)

end

datatype origin = Observed | Scanned

record cred_snapshot =
  cs_ts_ns :: u64
  cs_uid :: u32
  cs_euid :: u32
  cs_gid :: u32
  cs_egid :: u32
  cs_caps :: u64

record proc_node =
  pn_key :: proc_key
  pn_parent :: "proc_key option"
  pn_children :: "proc_key list"
  pn_comm :: string
  pn_exe :: string
  pn_trusted :: string
  pn_argv :: "string list"
  pn_uid :: u32
  pn_euid :: u32
  pn_cgroup_id :: u64
  pn_container :: string
  pn_cred_history :: "cred_snapshot list"
  pn_started :: u64
  pn_exited :: "u64 option"
  pn_origin :: origin

definition node_new :: "proc_key \<Rightarrow> origin \<Rightarrow> proc_node" where
  "node_new k o' = \<lparr>pn_key = k, pn_parent = None, pn_children = [], pn_comm = [], pn_exe = [],
     pn_trusted = [], pn_argv = [], pn_uid = 0, pn_euid = 0, pn_cgroup_id = 0, pn_container = [],
     pn_cred_history = [], pn_started = pk_start k, pn_exited = None, pn_origin = o'\<rparr>"

definition alive :: "proc_node \<Rightarrow> bool" where
  "alive n \<longleftrightarrow> pn_exited n = None"

definition node_name :: "proc_node \<Rightarrow> string" where
  "node_name n = (if pn_exe n = [] then pn_comm n else pn_exe n)"

record graph =
  g_nodes :: "(proc_key, proc_node) hm"
  g_by_pid :: "(u32, proc_key) hm"
  g_max_processes :: nat
  g_retain_ns :: u64
  g_reaped :: u64
  g_evicted :: u64
  g_adopted :: u64
  g_host_mnt_ns :: u32

record graph_stats =
  st_nodes :: nat
  st_alive :: nat
  st_reaped :: u64
  st_evicted :: u64
  st_adopted :: u64

section \<open>Queries\<close>

text \<open>\<^verbatim>\<open>retain.as_nanos() as u64\<close> keeps the low 64 bits.\<close>

definition graph_new :: "nat \<Rightarrow> nat \<Rightarrow> graph" where
  "graph_new max_processes retain_nanos = \<lparr>g_nodes = hm_empty, g_by_pid = hm_empty,
     g_max_processes = max_processes, g_retain_ns = of_nat retain_nanos,
     g_reaped = 0, g_evicted = 0, g_adopted = 0, g_host_mnt_ns = 0\<rparr>"

definition set_host_mnt_ns :: "u32 \<Rightarrow> graph \<Rightarrow> graph" where
  "set_host_mnt_ns inum g = g\<lparr>g_host_mnt_ns := inum\<rparr>"

definition graph_len :: "graph \<Rightarrow> nat" where
  "graph_len g = hm_len (g_nodes g)"

definition graph_get :: "graph \<Rightarrow> proc_key \<Rightarrow> proc_node option" where
  "graph_get g k = hm_get (g_nodes g) k"

definition graph_stats_of :: "graph \<Rightarrow> graph_stats" where
  "graph_stats_of g = \<lparr>st_nodes = hm_len (g_nodes g),
     st_alive = length (filter alive (hm_values (g_nodes g))),
     st_reaped = g_reaped g, st_evicted = g_evicted g, st_adopted = g_adopted g\<rparr>"

fun ancestry_go :: "nat \<Rightarrow> graph \<Rightarrow> proc_key option \<Rightarrow> proc_node list" where
  "ancestry_go 0 g cur = []"
| "ancestry_go (Suc i) g cur =
     (case cur of None \<Rightarrow> []
      | Some k \<Rightarrow> (case graph_get g k of None \<Rightarrow> []
          | Some node \<Rightarrow> node # ancestry_go i g (pn_parent node)))"

definition ancestry :: "graph \<Rightarrow> proc_key \<Rightarrow> proc_node list" where
  "ancestry g k = ancestry_go 64 g (Some k)"

definition roots :: "graph \<Rightarrow> proc_key list" where
  "roots g = sort (map pn_key (filter (\<lambda>n. case pn_parent n of None \<Rightarrow> True
     | Some p \<Rightarrow> graph_get g p = None) (hm_values (g_nodes g))))"

definition children_of :: "graph \<Rightarrow> proc_key \<Rightarrow> proc_key list" where
  "children_of g k =
     sort (filter (\<lambda>c. graph_get g c \<noteq> None)
       (case graph_get g k of None \<Rightarrow> [] | Some n \<Rightarrow> pn_children n))"

section \<open>Updates\<close>

definition rekey :: "proc_key \<Rightarrow> proc_key \<Rightarrow> graph \<Rightarrow> graph" where
  "rekey from to g =
     (case graph_get g from of
        None \<Rightarrow> g
      | Some node0 \<Rightarrow>
          let ns = hm_remove from (g_nodes g);
              node = node0\<lparr>pn_key := to, pn_origin := Observed\<rparr>;
              ns = (case pn_parent node of None \<Rightarrow> ns
                    | Some parent \<Rightarrow> hm_modify parent
                        (\<lambda>pn. pn\<lparr>pn_children := map (\<lambda>c. if c = from then to else c) (pn_children pn)\<rparr>) ns);
              ns = fold (\<lambda>child. hm_modify child (\<lambda>cn. cn\<lparr>pn_parent := Some to\<rparr>)) (pn_children node) ns
          in g\<lparr>g_by_pid := hm_insert (pk_pid to) to (g_by_pid g), g_nodes := hm_insert to node ns\<rparr>)"

definition resolve :: "u32 \<Rightarrow> u64 \<Rightarrow> graph \<Rightarrow> proc_key \<times> graph" where
  "resolve pid start g =
     (let exact = ProcKey pid start in
      if graph_get g exact \<noteq> None then (exact, g)
      else (case hm_get (g_by_pid g) pid of
          None \<Rightarrow> (exact, g)
        | Some existing \<Rightarrow>
            if existing = exact then (exact, g)
            else (case graph_get g existing of
                None \<Rightarrow> (exact, g)
              | Some node \<Rightarrow>
                  if alive node \<and> pn_origin node = Scanned
                    \<and> abs_diff start (pk_start existing) \<le> SCAN_START_TOLERANCE_NS
                  then (exact, (rekey existing exact g)\<lparr>g_adopted := g_adopted (rekey existing exact g) + 1\<rparr>)
                  else (exact, g))))"

definition ensure :: "proc_key \<Rightarrow> origin \<Rightarrow> graph \<Rightarrow> graph" where
  "ensure k o' g = g\<lparr>g_by_pid := hm_insert (pk_pid k) k (g_by_pid g),
     g_nodes := hm_entry k (node_new k o') (\<lambda>n. n) (g_nodes g)\<rparr>"

definition modify_node :: "proc_key \<Rightarrow> (proc_node \<Rightarrow> proc_node) \<Rightarrow> graph \<Rightarrow> graph" where
  "modify_node k f g = g\<lparr>g_nodes := hm_modify k f (g_nodes g)\<rparr>"

definition insert_scanned :: "proc_node \<Rightarrow> graph \<Rightarrow> graph" where
  "insert_scanned node g = g\<lparr>g_by_pid := hm_insert (pk_pid (pn_key node)) (pn_key node) (g_by_pid g),
     g_nodes := hm_insert (pn_key node) node (g_nodes g)\<rparr>"

definition link_edge :: "proc_key \<times> u32 \<Rightarrow> graph \<Rightarrow> graph" where
  "link_edge e g = (case e of (child, ppid) \<Rightarrow>
     (case hm_get (g_by_pid g) ppid of
        None \<Rightarrow> g
      | Some parent \<Rightarrow>
          if parent = child then g
          else modify_node parent (\<lambda>pn. pn\<lparr>pn_children := pn_children pn @ [child]\<rparr>)
                 (modify_node child (\<lambda>cn. cn\<lparr>pn_parent := Some parent\<rparr>) g)))"

definition link_scanned :: "(proc_key \<times> u32) list \<Rightarrow> graph \<Rightarrow> graph" where
  "link_scanned edges g = fold link_edge edges g"

definition set_comm_if_empty :: "string \<Rightarrow> proc_node \<Rightarrow> proc_node" where
  "set_comm_if_empty c n = (if pn_comm n = [] then n\<lparr>pn_comm := c\<rparr> else n)"

definition set_container :: "string \<Rightarrow> proc_node \<Rightarrow> proc_node" where
  "set_container c n = (if c \<noteq> [] then n\<lparr>pn_container := c\<rparr> else n)"

definition ev_key :: "event \<Rightarrow> proc_key" where
  "ev_key ev = ProcKey (ev_tgid ev) (ev_start_boottime ev)"

definition ev_child_key :: "event \<Rightarrow> proc_key" where
  "ev_child_key ev = ProcKey (ev_child_pid ev) (ev_child_start_boottime ev)"

definition fork_child :: "event \<Rightarrow> proc_key \<Rightarrow> proc_node \<Rightarrow> proc_node" where
  "fork_child ev parent cn =
     set_comm_if_empty (ev_comm ev) (set_container (ev_container ev)
       (cn\<lparr>pn_parent := Some parent, pn_started := ev_ts_ns ev, pn_uid := ev_uid ev,
           pn_euid := ev_euid ev, pn_cgroup_id := ev_cgroup_id ev\<rparr>))"

definition add_child :: "proc_key \<Rightarrow> proc_node \<Rightarrow> proc_node" where
  "add_child c pn = (if c \<in> set (pn_children pn) then pn else pn\<lparr>pn_children := pn_children pn @ [c]\<rparr>)"

definition on_fork :: "event \<Rightarrow> graph \<Rightarrow> graph" where
  "on_fork ev g0 = (case resolve (ev_tgid ev) (ev_start_boottime ev) g0 of (parent, g) \<Rightarrow>
     let g = modify_node parent (set_comm_if_empty (ev_comm ev)) (ensure parent Observed g);
         child = ev_child_key ev;
         g = modify_node child (fork_child ev parent) (ensure child Observed g)
     in modify_node parent (add_child child) g)"

definition exec_node :: "event \<Rightarrow> proc_node \<Rightarrow> proc_node" where
  "exec_node ev n = set_container (ev_container ev)
     (n\<lparr>pn_comm := ev_comm ev, pn_exe := ev_filename ev, pn_argv := ev_argv ev,
        pn_trusted := ev_exe_trusted ev, pn_uid := ev_uid ev, pn_euid := ev_euid ev,
        pn_cgroup_id := ev_cgroup_id ev\<rparr>)"

definition on_exec :: "event \<Rightarrow> graph \<Rightarrow> graph" where
  "on_exec ev g0 = (case resolve (ev_tgid ev) (ev_start_boottime ev) g0 of (k, g) \<Rightarrow>
     modify_node k (exec_node ev) (ensure k Observed g))"

definition on_exit :: "event \<Rightarrow> graph \<Rightarrow> graph" where
  "on_exit ev g0 = (case resolve (ev_tgid ev) (ev_start_boottime ev) g0 of (k, g) \<Rightarrow>
     let g = modify_node k (\<lambda>n. n\<lparr>pn_exited := Some (ev_ts_ns ev)\<rparr>) g
     in g\<lparr>g_by_pid := hm_remove (pk_pid k) (g_by_pid g)\<rparr>)"

definition snap_of :: "event \<Rightarrow> cred_snapshot" where
  "snap_of ev = \<lparr>cs_ts_ns = ev_ts_ns ev, cs_uid = ev_uid ev, cs_euid = ev_euid ev,
     cs_gid = ev_gid ev, cs_egid = ev_egid ev, cs_caps = ev_cap_effective ev\<rparr>"

definition cred_node :: "event \<Rightarrow> proc_node \<Rightarrow> proc_node" where
  "cred_node ev n0 =
     (let n = set_container (ev_container ev)
                ((set_comm_if_empty (ev_comm ev) n0)\<lparr>pn_uid := ev_uid ev, pn_euid := ev_euid ev\<rparr>)
      in if length (pn_cred_history n) < 64
         then n\<lparr>pn_cred_history := pn_cred_history n @ [snap_of ev]\<rparr> else n)"

definition on_cred :: "event \<Rightarrow> graph \<Rightarrow> graph" where
  "on_cred ev g0 = (case resolve (ev_tgid ev) (ev_start_boottime ev) g0 of (k, g) \<Rightarrow>
     modify_node k (cred_node ev) (ensure k Observed g))"

definition apply_event :: "event \<Rightarrow> graph \<Rightarrow> graph" where
  "apply_event ev g = (case event_type ev of
       Fork \<Rightarrow> on_fork ev g | Exec \<Rightarrow> on_exec ev g | Exit \<Rightarrow> on_exit ev g
     | CredChange \<Rightarrow> on_cred ev g | _ \<Rightarrow> g)"

section \<open>Reaping\<close>

definition remove_node :: "proc_key \<Rightarrow> graph \<Rightarrow> graph" where
  "remove_node k g =
     (case graph_get g k of
        None \<Rightarrow> g
      | Some node \<Rightarrow>
          let ns = hm_remove k (g_nodes g);
              ns = (case pn_parent node of None \<Rightarrow> ns
                    | Some parent \<Rightarrow> hm_modify parent
                        (\<lambda>pn. pn\<lparr>pn_children := filter (\<lambda>c. c \<noteq> k) (pn_children pn)\<rparr>) ns);
              ns = fold (\<lambda>child. hm_modify child (\<lambda>cn. cn\<lparr>pn_parent := None\<rparr>)) (pn_children node) ns
          in g\<lparr>g_nodes := ns,
               g_by_pid := (if hm_get (g_by_pid g) (pk_pid k) = Some k
                            then hm_remove (pk_pid k) (g_by_pid g) else g_by_pid g)\<rparr>)"

definition expired_node :: "u64 \<Rightarrow> u64 \<Rightarrow> proc_node \<Rightarrow> bool" where
  "expired_node now retain n =
     (case pn_exited n of None \<Rightarrow> False | Some e \<Rightarrow> saturating_sub now e > retain)"

definition reap_one :: "proc_key \<Rightarrow> graph \<Rightarrow> graph" where
  "reap_one k g = (remove_node k g)\<lparr>g_reaped := g_reaped (remove_node k g) + 1\<rparr>"

definition reap_expired :: "u64 \<Rightarrow> graph \<Rightarrow> graph" where
  "reap_expired now g =
     fold reap_one (map pn_key (filter (expired_node now (g_retain_ns g)) (hm_values (g_nodes g)))) g"

definition victim :: "graph \<Rightarrow> proc_key option" where
  "victim g = map_option pn_key
     (case min_by_key (\<lambda>n. case pn_exited n of None \<Rightarrow> - 1 | Some e \<Rightarrow> e)
             (filter (\<lambda>n. \<not> alive n) (hm_values (g_nodes g))) of
        Some n \<Rightarrow> Some n
      | None \<Rightarrow> min_by_key pn_started (hm_values (g_nodes g)))"

definition evict_one :: "proc_key \<Rightarrow> graph \<Rightarrow> graph" where
  "evict_one k g = (remove_node k g)\<lparr>g_evicted := g_evicted (remove_node k g) + 1\<rparr>"

partial_function (option) evict :: "graph \<Rightarrow> graph option" where
  "evict g =
     (if graph_len g > g_max_processes g then
        (case victim g of None \<Rightarrow> Some g | Some v \<Rightarrow> evict (evict_one v g))
      else Some g)"

definition reap :: "u64 \<Rightarrow> graph \<Rightarrow> graph option" where
  "reap now g = evict (reap_expired now g)"

end
