(* ===== verification/Float64.thy ===== *)
theory Float64
  imports Complex_Main Prelude
begin

text \<open>
  Double precision arithmetic. The agent uses \<^verbatim>\<open>f64\<close> for scores and confidences, all of them
  finite numbers that are zero or of a magnitude between \<open>2^-200\<close> and \<open>2^200\<close>, where every operation
  of IEEE 754 is the exact result rounded to a 53-bit significand, ties to even. A double is modelled
  by the rational it denotes and each operation by the exact one followed by \<open>rnd\<close>. The laws the
  components use are the interface \<open>rounding\<close>.
\<close>

section \<open>The interface\<close>

locale rounding =
  fixes r :: "rat \<Rightarrow> rat"
  assumes r_mono: "x \<le> y \<Longrightarrow> r x \<le> r y"
    and r_int: "\<bar>n\<bar> \<le> 2 ^ 53 \<Longrightarrow> r (of_int n) = of_int n"
    and r_double: "r (2 * x) = 2 * r x"
begin

lemma r_0: "r 0 = 0"
  using r_int [of 0] by simp

lemma r_1: "r 1 = 1"
  using r_int [of 1] by simp

lemma r_half: "r (1 / 2) = 1 / 2"
  using r_double [of "1 / 2"] r_1 by simp

lemma r_nonneg: "0 \<le> x \<Longrightarrow> 0 \<le> r x"
  using r_mono [of 0 x] r_0 by simp

lemma r_le_int: "x \<le> of_int n \<Longrightarrow> \<bar>n\<bar> \<le> 2 ^ 53 \<Longrightarrow> r x \<le> of_int n"
  using r_mono [of x "of_int n"] r_int by simp

lemma r_ge_int: "of_int n \<le> x \<Longrightarrow> \<bar>n\<bar> \<le> 2 ^ 53 \<Longrightarrow> of_int n \<le> r x"
  using r_mono [of "of_int n" x] r_int by simp

lemma r_unit: "0 \<le> x \<Longrightarrow> x \<le> 1 \<Longrightarrow> 0 \<le> r x \<and> r x \<le> 1"
  using r_nonneg r_le_int [of x 1] by simp

lemma r_product_unit: "0 \<le> x \<Longrightarrow> x \<le> 1 \<Longrightarrow> 0 \<le> y \<Longrightarrow> y \<le> 1 \<Longrightarrow> 0 \<le> r (x * y) \<and> r (x * y) \<le> 1"
  by (rule r_unit) (auto simp: mult_le_one)

end

section \<open>Rounding to 53 bits\<close>

fun ilog2 :: "nat \<Rightarrow> nat" where
  "ilog2 n = (if n < 2 then 0 else Suc (ilog2 (n div 2)))"

declare ilog2.simps [simp del]

definition expo :: "rat \<Rightarrow> int" where
  \<comment> \<open>the exponent \<open>e\<close> with \<open>2^e \<le> x < 2^(e+1)\<close>\<close>
  "expo x = (if 1 \<le> x then int (ilog2 (nat \<lfloor>x\<rfloor>)) else - int (Suc (ilog2 (nat (\<lceil>1 / x\<rceil> - 1)))))"

definition round_even :: "rat \<Rightarrow> int" where
  "round_even q = (let f = \<lfloor>q\<rfloor>; d = q - of_int f in
     if d < 1 / 2 then f else if d > 1 / 2 then f + 1 else if even f then f else f + 1)"

definition ulp :: "rat \<Rightarrow> rat" where
  "ulp x = 2 powi (expo x - 52)"

definition rnd_pos :: "rat \<Rightarrow> rat" where
  "rnd_pos x = of_int (round_even (x / ulp x)) * ulp x"

definition rnd :: "rat \<Rightarrow> rat" where
  "rnd x = (if x = 0 then 0 else if x < 0 then - rnd_pos (- x) else rnd_pos x)"

text \<open>The operations of the sources.\<close>

definition f64_mul :: "rat \<Rightarrow> rat \<Rightarrow> rat" where "f64_mul x y = rnd (x * y)"
definition f64_div :: "rat \<Rightarrow> rat \<Rightarrow> rat" where "f64_div x y = rnd (x / y)"
definition f64_add :: "rat \<Rightarrow> rat \<Rightarrow> rat" where "f64_add x y = rnd (x + y)"
definition f64_sub :: "rat \<Rightarrow> rat \<Rightarrow> rat" where "f64_sub x y = rnd (x - y)"

definition clamp :: "'a::linorder \<Rightarrow> 'a \<Rightarrow> 'a \<Rightarrow> 'a" where
  "clamp lo hi x = (if x < lo then lo else if hi < x then hi else x)"

text \<open>\<^verbatim>\<open>f64::round\<close> is exact, halves away from zero; \<^verbatim>\<open>as u32\<close> saturates.\<close>

definition f64_round :: "rat \<Rightarrow> int" where
  "f64_round x = (if x < 0 then - \<lfloor>- x + 1 / 2\<rfloor> else \<lfloor>x + 1 / 2\<rfloor>)"

definition as_u32 :: "int \<Rightarrow> u32" where
  "as_u32 i = of_int (clamp 0 (2 ^ 32 - 1) i)"

definition u32_f64 :: "u32 \<Rightarrow> rat" where
  "u32_f64 w = of_int (uint w)"

definition u64_f64 :: "u64 \<Rightarrow> rat" where
  "u64_f64 w = rnd (of_int (uint w))"

section \<open>The laws hold\<close>

lemma ilog2_bounds: "0 < n \<Longrightarrow> 2 ^ ilog2 n \<le> n \<and> n < 2 ^ Suc (ilog2 n)"
proof (induction n rule: ilog2.induct)
  case (1 n)
  show ?case
  proof (cases "n < 2")
    case True
    with 1 have "n = 1" by simp
    then show ?thesis by (simp add: ilog2.simps)
  next
    case False
    then have "2 ^ ilog2 (n div 2) \<le> n div 2 \<and> n div 2 < 2 ^ Suc (ilog2 (n div 2))"
      using 1 by simp
    then show ?thesis using False by (simp add: ilog2.simps [of n]) linarith
  qed
qed

lemma ilog2_bounds_rat: "0 < n \<Longrightarrow> (2::rat) ^ ilog2 n \<le> of_nat n \<and> of_nat n + 1 \<le> (2::rat) ^ Suc (ilog2 n)"
proof -
  assume "0 < n"
  then have "2 ^ ilog2 n \<le> n" "Suc n \<le> 2 ^ Suc (ilog2 n)" using ilog2_bounds [of n] by auto
  then have "(of_nat (2 ^ ilog2 n) :: rat) \<le> of_nat n" "(of_nat (Suc n) :: rat) \<le> of_nat (2 ^ Suc (ilog2 n))"
    by (simp_all only: of_nat_le_iff)
  then show ?thesis by simp
qed

lemma expo_bounds:
  assumes "0 < x" shows "2 powi expo x \<le> x" and "x < 2 powi (expo x + 1)"
proof -
  have "2 powi expo x \<le> x \<and> x < 2 powi (expo x + 1)"
  proof (cases "1 \<le> x")
    case True
    define n where "n = nat \<lfloor>x\<rfloor>"
    have n: "of_nat n \<le> x" "x < of_nat n + 1" "0 < n"
      using True floor_less_iff [of x "\<lfloor>x\<rfloor> + 1"] by (simp_all add: n_def)
    have "(2::rat) ^ ilog2 n \<le> x" "x < 2 ^ Suc (ilog2 n)" using n ilog2_bounds_rat [OF n(3)] by linarith+
    moreover have "expo x = int (ilog2 n)" using True by (simp add: expo_def n_def)
    ultimately show ?thesis by (simp add: power_int_add)
  next
    case False
    define n where "n = nat (\<lceil>1 / x\<rceil> - 1)"
    define k where "k = Suc (ilog2 n)"
    have big: "1 < 1 / x" using False assms by (simp add: field_simps)
    then have n: "of_nat n < 1 / x" "1 / x \<le> of_nat n + 1" "0 < n"
      by (simp_all add: n_def) linarith+
    have "(2::rat) ^ ilog2 n < 1 / x" "1 / x \<le> 2 ^ k"
      unfolding k_def using n ilog2_bounds_rat [OF n(3)] by linarith+
    then have "1 / 2 ^ k \<le> x" "x < 1 / 2 ^ ilog2 n" using assms by (simp_all add: field_simps)
    moreover have e: "expo x = - int k" using False by (simp add: expo_def n_def k_def)
    moreover have "(2::rat) powi (- int k) = 1 / 2 ^ k" by (simp add: power_int_minus_divide)
    moreover have "expo x + 1 = - int (ilog2 n)" using e by (simp add: k_def)
    moreover have "(2::rat) powi (- int (ilog2 n)) = 1 / 2 ^ ilog2 n" by (simp add: power_int_minus_divide)
    ultimately show ?thesis by simp
  qed
  then show "2 powi expo x \<le> x" and "x < 2 powi (expo x + 1)" by simp_all
qed

lemma powi_less: "(2::rat) powi a < 2 powi b \<longleftrightarrow> a < b"
  using power_int_strict_increasing [of a b "2::rat"] power_int_increasing [of b a "2::rat"]
  by (cases "a < b") auto

lemma expo_unique: "2 powi e \<le> x \<Longrightarrow> x < 2 powi (e + 1) \<Longrightarrow> expo x = e"
proof -
  assume a: "2 powi e \<le> x" "x < 2 powi (e + 1)"
  have p: "(0::rat) < 2 powi e" by simp
  with a have "0 < x" by linarith
  from expo_bounds [OF this] a have "(2::rat) powi e < 2 powi (expo x + 1)" "(2::rat) powi expo x < 2 powi (e + 1)"
    by linarith+
  then show ?thesis by (simp only: powi_less)
qed

lemma expo_mono: "0 < x \<Longrightarrow> x \<le> y \<Longrightarrow> expo x \<le> expo y"
proof -
  assume a: "0 < x" "x \<le> y"
  then have "2 powi expo x < (2::rat) powi (expo y + 1)"
    using expo_bounds(1) [of x] expo_bounds(2) [of y] by linarith
  then show ?thesis by (simp only: powi_less)
qed

lemma round_even_mono: "x \<le> y \<Longrightarrow> round_even x \<le> round_even y"
proof -
  assume xy: "x \<le> y"
  then have "\<lfloor>x\<rfloor> \<le> \<lfloor>y\<rfloor>" by (rule floor_mono)
  then consider "\<lfloor>x\<rfloor> = \<lfloor>y\<rfloor>" | "\<lfloor>x\<rfloor> + 1 \<le> \<lfloor>y\<rfloor>" by linarith
  then show ?thesis
  proof cases
    case 1
    then show ?thesis using xy by (auto simp: round_even_def Let_def)
  next
    case 2
    then show ?thesis by (auto simp: round_even_def Let_def)
  qed
qed

lemma round_even_int [simp]: "round_even (of_int n) = n"
  by (simp add: round_even_def)

lemma ulp_pos [simp]: "0 < ulp x"
  by (simp add: ulp_def)

lemma rnd_pos_binade:
  assumes "0 < x" shows "2 powi expo x \<le> rnd_pos x" and "rnd_pos x \<le> 2 powi (expo x + 1)"
proof -
  have lo: "(2::rat) powi expo x / ulp x = of_int (2 ^ 52)"
    by (simp add: ulp_def power_int_diff)
  have hi: "(2::rat) powi (expo x + 1) / ulp x = of_int (2 ^ 53)"
    by (simp add: ulp_def power_int_diff power_int_add)
  have "of_int (2 ^ 52) \<le> x / ulp x" "x / ulp x \<le> of_int (2 ^ 53)"
    unfolding lo [symmetric] hi [symmetric] using expo_bounds [OF assms] by (simp_all add: divide_right_mono less_imp_le)
  then have "round_even (of_int (2 ^ 52)) \<le> round_even (x / ulp x)"
    "round_even (x / ulp x) \<le> round_even (of_int (2 ^ 53))" by (blast intro: round_even_mono)+
  then have "2 ^ 52 \<le> round_even (x / ulp x)" "round_even (x / ulp x) \<le> 2 ^ 53"
    by (simp_all only: round_even_int)
  then have "(of_int (2 ^ 52) :: rat) \<le> of_int (round_even (x / ulp x))"
    "of_int (round_even (x / ulp x)) \<le> (of_int (2 ^ 53) :: rat)" by (simp_all only: of_int_le_iff)
  then have "of_int (2 ^ 52) * ulp x \<le> rnd_pos x" "rnd_pos x \<le> of_int (2 ^ 53) * ulp x"
    unfolding rnd_pos_def by (simp_all only: mult_right_mono [OF _ less_imp_le [OF ulp_pos]])
  then show "2 powi expo x \<le> rnd_pos x" and "rnd_pos x \<le> 2 powi (expo x + 1)"
    using lo hi ulp_pos [of x] by (simp_all add: nonzero_divide_eq_eq less_imp_neq [symmetric])
qed

lemma rnd_pos_mono: "0 < x \<Longrightarrow> x \<le> y \<Longrightarrow> rnd_pos x \<le> rnd_pos y"
proof -
  assume x: "0 < x" and xy: "x \<le> y"
  consider "expo x = expo y" | "expo x + 1 \<le> expo y" using expo_mono [OF x xy] by linarith
  then show ?thesis
  proof cases
    case 1
    then have "ulp x = ulp y" by (simp add: ulp_def)
    then show ?thesis using xy
      by (simp add: rnd_pos_def) (intro round_even_mono divide_right_mono; simp add: less_imp_le)
  next
    case 2
    then have "(2::rat) powi (expo x + 1) \<le> 2 powi expo y" by (intro power_int_increasing) simp_all
    then show ?thesis using rnd_pos_binade(2) [OF x] rnd_pos_binade(1) [of y] x xy by linarith
  qed
qed

lemma rnd_pos_nonneg: "0 < x \<Longrightarrow> 0 < rnd_pos x"
  using rnd_pos_binade(1) [of x] zero_less_power_int [of "2::rat" "expo x"] by linarith

lemma rnd_pos_double: "0 < x \<Longrightarrow> rnd_pos (2 * x) = 2 * rnd_pos x"
proof -
  assume x: "0 < x"
  have "expo (2 * x) = expo x + 1"
    using expo_bounds [OF x] by (intro expo_unique) (simp_all add: power_int_add)
  then have "ulp (2 * x) = 2 * ulp x" by (simp add: ulp_def power_int_add power_int_diff)
  then show ?thesis by (simp add: rnd_pos_def)
qed

lemma rnd_pos_int: assumes "0 < n" "n < 2 ^ 53" shows "rnd_pos (of_int n) = of_int n"
proof -
  let ?x = "of_int n :: rat"
  have x: "0 < ?x" using assms by simp
  have "?x < of_int (2 ^ 53)" using assms(2) by (simp only: of_int_less_iff)
  then have "(2::rat) powi expo ?x < 2 powi 53" using expo_bounds(1) [OF x] by simp
  then have e: "expo ?x \<le> 52" by (simp only: powi_less)
  define k where "k = nat (52 - expo ?x)"
  have "expo ?x - 52 = - int k" using e by (simp add: k_def)
  then have u: "ulp ?x = 1 / 2 ^ k" by (simp add: ulp_def power_int_minus_divide)
  have "?x / ulp ?x = of_int (n * 2 ^ k)" by (simp add: u)
  then have "round_even (?x / ulp ?x) = n * 2 ^ k" by (simp only: round_even_int)
  then show ?thesis unfolding rnd_pos_def by (simp add: u)
qed

lemma rnd_minus: "rnd (- x) = - rnd x"
  by (simp add: rnd_def)

lemma rnd_int_small: assumes "\<bar>n\<bar> \<le> 2 ^ 53" shows "rnd (of_int n) = of_int n"
proof -
  have pos: "rnd (of_int n) = of_int n" if "0 \<le> n" "n \<le> 2 ^ 53" for n
  proof (cases "n = 2 ^ 53")
    case True
    have "rnd_pos (2 * of_int (2 ^ 52)) = 2 * rnd_pos (of_int (2 ^ 52))" by (rule rnd_pos_double) simp
    also have "rnd_pos (of_int (2 ^ 52)) = of_int (2 ^ 52)" by (rule rnd_pos_int) simp_all
    finally show ?thesis using True by (simp add: rnd_def)
  next
    case False
    then show ?thesis using that rnd_pos_int [of n] by (cases "n = 0") (simp_all add: rnd_def)
  qed
  show ?thesis
  proof (cases "0 \<le> n")
    case False
    then have "rnd (of_int (- n)) = of_int (- n)" using assms by (intro pos) auto
    then show ?thesis by (simp add: rnd_minus)
  qed (use assms pos in simp)
qed

lemma rnd_mono: "x \<le> y \<Longrightarrow> rnd x \<le> rnd y"
  using rnd_pos_mono [of x y] rnd_pos_mono [of "- y" "- x"] rnd_pos_nonneg [of "- x"] rnd_pos_nonneg [of y]
  by (auto simp: rnd_def)

interpretation f64: rounding rnd
proof
  show "rnd (2 * x) = 2 * rnd x" for x
    using rnd_pos_double [of x] rnd_pos_double [of "- x"] by (auto simp: rnd_def zero_less_mult_iff mult_less_0_iff)
qed (simp_all add: rnd_mono rnd_int_small)

lemma uint_as_u32: "uint (as_u32 i) = clamp 0 (2 ^ 32 - 1) i"
proof -
  have "0 \<le> clamp 0 (2 ^ 32 - 1) i" "clamp 0 (2 ^ 32 - 1) i < 2 ^ 32" by (simp_all add: clamp_def)
  then have "take_bit 32 (clamp 0 (2 ^ 32 - 1) i) = clamp 0 (2 ^ 32 - 1) i" by (rule take_bit_int_eq_self)
  moreover have "uint (of_int c :: u32) = take_bit 32 c" for c by (simp add: unsigned_of_int)
  ultimately show ?thesis unfolding as_u32_def by (rule trans [rotated])
qed

lemma uint_min: "uint (min a b) = min (uint a) (uint b)"
  by (simp add: min_def word_le_def)

end
