(* ===== verification/Score.thy ===== *)
theory Score
  imports Graph Float64
begin

text \<open>
  Signals and risk scoring (\<^verbatim>\<open>src/detect/signal.rs\<close>, \<^verbatim>\<open>src/detect/score.rs\<close> and the order
  on severities in \<^verbatim>\<open>src/detect/mod.rs\<close>).
\<close>

section \<open>Signals\<close>

record signal =
  s_id :: string
  s_score :: u32
  s_detail :: string
  s_attack :: "string list"
  s_ts_ns :: u64
  s_key :: proc_key
  s_target :: "string option"

definition signal_new :: "string \<Rightarrow> u32 \<Rightarrow> string list \<Rightarrow> proc_key \<Rightarrow> u64 \<Rightarrow> string \<Rightarrow> signal" where
  "signal_new i sc att k ts detail = \<lparr>s_id = i, s_score = sc, s_detail = detail, s_attack = att,
     s_ts_ns = ts, s_key = k, s_target = None\<rparr>"

definition with_target :: "string \<Rightarrow> signal \<Rightarrow> signal" where
  "with_target path s = (if path \<noteq> [] then s\<lparr>s_target := Some path\<rparr> else s)"

section \<open>Severities\<close>

datatype severity = Info | Low | Medium | High | Critical

definition from_score :: "u32 \<Rightarrow> severity" where
  "from_score s = (if s \<le> 24 then Info else if s \<le> 49 then Low else if s \<le> 74 then Medium
     else if s \<le> 89 then High else Critical)"

definition severity_label :: "severity \<Rightarrow> string" where
  "severity_label s = (case s of Info \<Rightarrow> ''INFO'' | Low \<Rightarrow> ''LOW'' | Medium \<Rightarrow> ''MEDIUM''
     | High \<Rightarrow> ''HIGH'' | Critical \<Rightarrow> ''CRITICAL'')"

definition rank :: "severity \<Rightarrow> nat" where
  "rank s = (case s of Info \<Rightarrow> 0 | Low \<Rightarrow> 1 | Medium \<Rightarrow> 2 | High \<Rightarrow> 3 | Critical \<Rightarrow> 4)"

lemma rank_inj: "rank a = rank b \<longleftrightarrow> a = b"
  by (auto simp: rank_def split: severity.splits)

instantiation severity :: linorder
begin

definition less_eq_severity :: "severity \<Rightarrow> severity \<Rightarrow> bool" where
  "less_eq_severity a b \<longleftrightarrow> rank a \<le> rank b"

definition less_severity :: "severity \<Rightarrow> severity \<Rightarrow> bool" where
  "less_severity a b \<longleftrightarrow> rank a < rank b"

instance
  by standard (auto simp: less_eq_severity_def less_severity_def rank_inj)

end

section \<open>Scoring\<close>

record score_t =
  sc_total :: u32
  sc_base :: u32
  sc_chain_bonus :: u32
  sc_context_mult :: rat
  sc_context_note :: "string option"
  sc_severity :: severity

record context_t =
  network_rooted :: bool
  in_container :: bool

definition CHAIN_WINDOW_NS :: u64 where
  "CHAIN_WINDOW_NS = 600 * 1000000000"

definition family :: "string \<Rightarrow> string" where
  "family i =
     (if i \<in> {''ldso_preload_write'', ''authorized_keys_write'', ''persistence_write'',
              ''cred_config_write'', ''sensitive_write''} then ''watched_write''
      else if i \<in> {''credential_store_read'', ''ssh_private_key_read''} then ''credential_read''
      else if i \<in> {''ptrace_attach'', ''cross_uid_proc_read''} then ''process_access''
      else i)"

definition multiplier :: "context_t \<Rightarrow> rat \<times> string option" where
  "multiplier ctx =
     (let m = 1; notes = [];
          (m, notes) = (if network_rooted ctx
             then (f64_mul m (rnd (13 / 10)), notes @ [''lineage rooted at a network daemon'']) else (m, notes));
          (m, notes) = (if in_container ctx
             then (f64_mul m (rnd (11 / 10)), notes @ [''inside a container'']) else (m, notes))
      in (m, if notes = [] then None else Some (join ''; '' notes)))"

definition newest :: "signal list \<Rightarrow> u64" where
  "newest signals = max_or 0 (map s_ts_ns signals)"

definition recent_signals :: "signal list \<Rightarrow> signal list" where
  "recent_signals signals =
     filter (\<lambda>s. saturating_sub (newest signals) (s_ts_ns s) \<le> CHAIN_WINDOW_NS) signals"

definition per_family :: "signal list \<Rightarrow> (string, u32) hm" where
  "per_family signals = fold (\<lambda>s. hm_entry (family (s_id s)) 0 (\<lambda>e. max e (s_score s))) signals hm_empty"

definition score :: "signal list \<Rightarrow> context_t \<Rightarrow> score_t" where
  "score signals ctx =
     (if signals = [] then
        \<lparr>sc_total = 0, sc_base = 0, sc_chain_bonus = 0, sc_context_mult = 1, sc_context_note = None,
         sc_severity = Info\<rparr>
      else
        let recent = recent_signals signals;
            fams = per_family recent;
            base = sum_list (hm_values fams);
            distinct = of_nat (hm_len fams) :: u32;
            mx = max_or 0 (hm_values fams);
            chain_bonus = (if distinct > 1 then (distinct - 1) * mx div 2 else 0);
            (context_mult, context_note) = multiplier ctx;
            total = as_u32 (f64_round (f64_mul (u32_f64 (base + chain_bonus)) context_mult));
            total = min total 100
        in \<lparr>sc_total = total, sc_base = base, sc_chain_bonus = chain_bonus,
            sc_context_mult = context_mult, sc_context_note = context_note,
            sc_severity = from_score total\<rparr>)"

section \<open>Bounds\<close>

lemma from_score_mono: "a \<le> b \<Longrightarrow> from_score a \<le> from_score b"
  by (auto simp: from_score_def less_eq_severity_def rank_def)

text \<open>
  A score is never above 100, its severity is the band of the total, and the bands are
  ordered like the scores.
\<close>

theorem score_bounds:
  "sc_total (score signals ctx) \<le> 100
   \<and> sc_severity (score signals ctx) = from_score (sc_total (score signals ctx))
   \<and> (sc_total (score signals ctx) \<le> sc_total (score signals' ctx') \<longrightarrow>
        sc_severity (score signals ctx) \<le> sc_severity (score signals' ctx'))"
proof -
  have *: "sc_total (score signals ctx) \<le> 100
    \<and> sc_severity (score signals ctx) = from_score (sc_total (score signals ctx))" for signals ctx
    by (simp add: score_def Let_def case_prod_beta) (simp add: from_score_def)
  then show ?thesis by (simp add: from_score_mono)
qed

section \<open>The arithmetic is exact\<close>

text \<open>The multiplier in percent.\<close>

definition percent :: "context_t \<Rightarrow> int" where
  "percent ctx = (if network_rooted ctx then if in_container ctx then 143 else 130
     else if in_container ctx then 110 else 100)"

lemma f64_130: "rnd (13 / 10) = 5854679515581645 / 2 ^ 52"
  by code_simp

lemma f64_110: "rnd (11 / 10) = 4953959590107546 / 2 ^ 52"
  by code_simp

lemma f64_143: "rnd (5854679515581645 / 2 ^ 52 * (4953959590107546 / 2 ^ 52)) = 6440147467139810 / 2 ^ 52"
  by code_simp

lemma rnd_dyadic: "\<bar>n\<bar> \<le> 2 ^ 53 \<Longrightarrow> rnd (of_int n / 2 ^ k) = of_int n / 2 ^ k"
proof (induction k)
  case (Suc k)
  have "2 * rnd (of_int n / 2 ^ Suc k) = rnd (2 * (of_int n / 2 ^ Suc k))" by (simp only: f64.r_double)
  also have "\<dots> = of_int n / 2 ^ k" using Suc by simp
  finally show ?case by simp
qed (simp add: f64.r_int)

lemma multiplier_exact:
  "of_int (percent ctx) / 100 \<le> fst (multiplier ctx)
   \<and> fst (multiplier ctx) \<le> of_int (percent ctx) / 100 + 1 / 2 ^ 50"
proof -
  have a: "rnd (rnd (13 / 10)) = rnd (13 / 10)" "rnd (rnd (11 / 10)) = rnd (11 / 10)"
    using rnd_dyadic [of 5854679515581645 52] rnd_dyadic [of 4953959590107546 52]
    unfolding f64_130 f64_110 by simp_all
  have c: "rnd (rnd (13 / 10) * rnd (11 / 10)) = 6440147467139810 / 2 ^ 52"
    using f64_143 unfolding f64_130 f64_110 .
  have "fst (multiplier ctx) = (if network_rooted ctx
      then if in_container ctx then 6440147467139810 / 2 ^ 52 else rnd (13 / 10)
      else if in_container ctx then rnd (11 / 10) else 1)"
    by (simp add: multiplier_def f64_mul_def a c)
  then show ?thesis unfolding f64_130 f64_110 percent_def by simp
qed

lemma round_scaled:
  assumes n: "0 \<le> n" "n < 2 ^ 32" and p: "100 \<le> p" "p \<le> 143"
    and m: "of_int p / 100 \<le> m" "m \<le> of_int p / 100 + 1 / 2 ^ 50"
  shows "f64_round (rnd (of_int n * m)) = (n * p + 50) div 100"
proof -
  define k where "k = (n * p + 50) div 100"
  have k1: "100 * k \<le> n * p + 50" and k2: "n * p + 50 \<le> 100 * k + 99" unfolding k_def by presburger+
  have np: "0 \<le> n * p" "n * p \<le> 2 ^ 32 * 143" using n p mult_mono [of n "2 ^ 32" p 143] by simp_all
  then have kb: "0 \<le> k" "k \<le> 2 ^ 40" unfolding k_def by simp_all
  have lo: "of_int (2 * k - 1) / 2 ^ 1 \<le> of_int n * m"
  proof -
    have "(of_int (100 * k) :: rat) \<le> of_int (n * p + 50)" using k1 by (simp only: of_int_le_iff)
    then have "of_int (2 * k - 1) / 2 ^ 1 \<le> of_int n * (of_int p / 100 :: rat)" by simp
    also have "\<dots> \<le> of_int n * m" using n m(1) by (intro mult_left_mono) simp_all
    finally show ?thesis .
  qed
  have hi: "of_int n * m \<le> of_int (256 * k + 127) / 2 ^ 8"
  proof -
    have "(of_int (n * p + 50) :: rat) \<le> of_int (100 * k + 99)" using k2 by (simp only: of_int_le_iff)
    then have a: "of_int n * (of_int p / 100 :: rat) \<le> of_int k + 49 / 100" by simp
    have "(of_int n :: rat) \<le> of_int (2 ^ 32)" using n(2) by (simp only: of_int_le_iff)
    then have b: "(of_int n :: rat) * (1 / 2 ^ 50) \<le> 2 ^ 32 * (1 / 2 ^ 50)" by (intro mult_right_mono) simp_all
    have "of_int n * m \<le> of_int n * (of_int p / 100 + 1 / 2 ^ 50)" using n m(2) by (intro mult_left_mono) simp_all
    also have "\<dots> \<le> of_int k + 49 / 100 + 2 ^ 32 * (1 / 2 ^ 50)" using a b by (simp only: distrib_left)
    also have "\<dots> \<le> of_int (256 * k + 127) / 2 ^ 8" by simp
    finally show ?thesis .
  qed
  have d1: "rnd (of_int (2 * k - 1) / 2 ^ 1) = of_int (2 * k - 1) / 2 ^ 1"
    and d8: "rnd (of_int (256 * k + 127) / 2 ^ 8) = of_int (256 * k + 127) / 2 ^ 8"
    by (rule rnd_dyadic, use kb in simp)+
  have "of_int (2 * k - 1) / 2 ^ 1 \<le> rnd (of_int n * m)"
    using f64.r_mono [OF lo] d1 by (simp only:)
  moreover have "rnd (of_int n * m) \<le> of_int (256 * k + 127) / 2 ^ 8"
    using f64.r_mono [OF hi] d8 by (simp only:)
  moreover have "0 \<le> rnd (of_int n * m)" using n m(1) p by (intro f64.r_nonneg mult_nonneg_nonneg) (simp_all add: order_trans [OF _ m(1)])
  ultimately show ?thesis unfolding f64_round_def k_def [symmetric] by (auto simp: floor_eq_iff)
qed

lemma percent_range: "100 \<le> percent ctx \<and> percent ctx \<le> 143"
  by (simp add: percent_def)

lemma score_total:
  assumes "signals \<noteq> []"
  shows "int (unat (sc_total (score signals ctx))) =
    min 100 ((int (unat (sc_base (score signals ctx) + sc_chain_bonus (score signals ctx))) * percent ctx + 50) div 100)"
proof -
  define b where "b = sc_base (score signals ctx) + sc_chain_bonus (score signals ctx)"
  define t where "t = (uint b * percent ctx + 50) div 100"
  have b: "0 \<le> uint b" "uint b < 2 ^ 32" using unsigned_less [of b, where 'a = int] by simp_all
  have "f64_round (f64_mul (u32_f64 b) (fst (multiplier ctx))) = t"
    unfolding f64_mul_def u32_f64_def t_def
    using round_scaled [OF b] percent_range multiplier_exact by blast
  then have tot: "sc_total (score signals ctx) = min (as_u32 t) 100"
    using assms unfolding b_def by (simp add: score_def Let_def case_prod_beta)
  have t0: "0 \<le> t" unfolding t_def using b percent_range [of ctx] by (simp add: pos_imp_zdiv_nonneg_iff)
  have "uint (min (as_u32 t) 100) = min (clamp 0 (2 ^ 32 - 1) t) 100"
    unfolding uint_min uint_as_u32 by simp
  also have "\<dots> = min 100 t" using t0 by (simp add: clamp_def min_def)
  finally show ?thesis unfolding tot t_def b_def by (simp only: uint_nat)
qed

lemma score_single_parts: "sc_base (score [s] ctx) = s_score s \<and> sc_chain_bonus (score [s] ctx) = 0"
  by (simp add: score_def Let_def case_prod_beta recent_signals_def newest_def per_family_def
      hm_entry_def hm_get_def hm_insert_def hm_empty_def hm_values_def hm_len_def)

lemma score_single_total:
  "sc_total (score [s] ctx) = of_int (min 100 ((int (unat (s_score s)) * percent ctx + 50) div 100))"
proof -
  have "int (unat (sc_total (score [s] ctx))) = min 100 ((int (unat (s_score s)) * percent ctx + 50) div 100)"
    using score_total [of "[s]" ctx] score_single_parts [of s ctx] by simp
  then have "of_int (int (unat (sc_total (score [s] ctx)))) = (of_int (min 100 ((int (unat (s_score s)) * percent ctx + 50) div 100)) :: u32)"
    by (simp only:)
  then show ?thesis by simp
qed

text \<open>
  C25 (functional): Floating point never shows in a score. The total is the sum of base and chain
  bonus scaled by the exact percentage of the context (130 for a network daemon, 110 for a container,
  143 for both), rounded half up, and cut at 100.
\<close>

theorem score_exact:
  assumes "signals \<noteq> []"
  shows "int (unat (sc_total (score signals ctx))) =
    min 100 ((int (unat (sc_base (score signals ctx) + sc_chain_bonus (score signals ctx))) * percent ctx + 50) div 100)"
  using assms by (rule score_total)

section \<open>What the base and the bonus count\<close>

definition families :: "signal list \<Rightarrow> string set" where
  "families ss = (\<lambda>s. family (s_id s)) ` set ss"

definition worst :: "signal list \<Rightarrow> string \<Rightarrow> u32" where
  "worst ss f = Max (s_score ` {s \<in> set ss. family (s_id s) = f})"

lemma worst_snoc:
  "worst (ss @ [s]) f = (if family (s_id s) = f
     then if f \<in> families ss then max (worst ss f) (s_score s) else s_score s else worst ss f)"
proof -
  define A where "A = s_score ` {x \<in> set ss. family (s_id x) = f}"
  have "s_score ` {x \<in> set (ss @ [s]). family (s_id x) = f} =
      (if family (s_id s) = f then insert (s_score s) A else A)" by (auto simp: A_def)
  moreover have "finite A" by (simp add: A_def)
  moreover have "A = {} \<longleftrightarrow> f \<notin> families ss" by (auto simp: A_def families_def)
  ultimately show ?thesis unfolding worst_def A_def [symmetric]
    by (cases "A = {}") (simp_all add: max.commute)
qed

lemma per_family_spec:
  "hm_ok (per_family ss) \<and> hm_get (per_family ss) f = (if f \<in> families ss then Some (worst ss f) else None)"
proof (induction ss arbitrary: f rule: rev_induct)
  case Nil
  then show ?case by (simp add: per_family_def families_def)
next
  case (snoc s ss)
  have "per_family (ss @ [s]) = hm_entry (family (s_id s)) 0 (\<lambda>e. max e (s_score s)) (per_family ss)"
    by (simp add: per_family_def)
  then show ?case using snoc [of f] snoc [of "family (s_id s)"]
    by (auto simp: worst_snoc families_def)
qed

lemma per_family_keys: "{f. hm_get (per_family ss) f \<noteq> None} = families ss"
  using per_family_spec by auto

lemma per_family_sum: "sum_list (hm_values (per_family ss)) = (\<Sum>f \<in> families ss. worst ss f)"
  using hm_sum_values [of "per_family ss"] per_family_spec [of ss] unfolding per_family_keys by simp

lemma per_family_len: "hm_len (per_family ss) = card (families ss)"
  using hm_len_card [of "per_family ss"] per_family_spec [of ss] unfolding per_family_keys by simp

lemma max_or_Max: "xs \<noteq> [] \<Longrightarrow> max_or d xs = Max (set xs)"
  by (rule Max_eqI [symmetric]) (auto intro: max_or_upper max_or_in)

lemma per_family_values: "set (hm_values (per_family ss)) = worst ss ` families ss"
proof -
  have "hm_ok (per_family ss)" using per_family_spec by blast
  from hm_values_get [OF this] show ?thesis using per_family_spec [of ss] by (auto split: if_splits)
qed

lemma recent_nonempty: "ss \<noteq> [] \<Longrightarrow> recent_signals ss \<noteq> []"
proof -
  assume "ss \<noteq> []"
  then have "newest ss \<in> set (map s_ts_ns ss)" unfolding newest_def by (intro max_or_in) simp
  then obtain s where "s \<in> set ss" "s_ts_ns s = newest ss" by auto
  then show ?thesis by (auto simp: recent_signals_def filter_empty_conv intro!: bexI [of _ s])
qed

lemma per_family_max:
  assumes "ss \<noteq> []"
  shows "max_or 0 (hm_values (per_family ss)) = Max (s_score ` set ss)"
proof -
  have ne: "hm_values (per_family ss) \<noteq> []"
    using assms per_family_values [of ss] by (auto simp: families_def)
  have "Max (worst ss ` families ss) = Max (s_score ` set ss)"
  proof (rule Max_eqI)
    fix y assume "y \<in> worst ss ` families ss"
    then obtain f where f: "f \<in> families ss" "y = worst ss f" by blast
    then have "y \<in> s_score ` {s \<in> set ss. family (s_id s) = f}"
      unfolding f(2) worst_def by (intro Max_in) (auto simp: families_def)
    then show "y \<le> Max (s_score ` set ss)" by (auto intro: Max_ge)
  next
    have "Max (s_score ` set ss) \<in> s_score ` set ss" using assms by (intro Max_in) auto
    then obtain s where s: "s \<in> set ss" "s_score s = Max (s_score ` set ss)" by force
    have "worst ss (family (s_id s)) = s_score s"
      unfolding worst_def
    proof (rule Max_eqI)
      show "s_score s \<in> s_score ` {x \<in> set ss. family (s_id x) = family (s_id s)}" using s(1) by simp
    qed (use s in auto)
    then show "Max (s_score ` set ss) \<in> worst ss ` families ss"
      using s by (auto simp: families_def image_iff intro!: bexI [of _ s])
  qed (simp add: families_def)
  then show ?thesis using max_or_Max [OF ne] per_family_values [of ss] by simp
qed

text \<open>
  What the numbers of a score count. The base is the sum, over the behaviour
  families seen in the window, of the worst signal of each; the bonus is half the worst signal for
  every family after the first. Repeating a behaviour adds nothing.
\<close>

theorem score_counts_families:
  assumes "signals \<noteq> []"
  shows "sc_base (score signals ctx) =
      (\<Sum>f \<in> families (recent_signals signals). worst (recent_signals signals) f)
    \<and> sc_chain_bonus (score signals ctx) =
      (let distinct = of_nat (card (families (recent_signals signals))) in
       if distinct > 1 then (distinct - 1) * Max (s_score ` set (recent_signals signals)) div 2 else 0)"
  using assms recent_nonempty [OF assms]
  by (simp add: score_def Let_def case_prod_beta per_family_sum per_family_len per_family_max)

definition example_signal :: "string \<Rightarrow> u32 \<Rightarrow> u64 \<Rightarrow> signal" where
  "example_signal i sc ts = signal_new i sc [''T1543''] (ProcKey 1 1) ts []"

lemma family_examples:
  "family ''cred_config_write'' = ''watched_write''" "family ''persistence_write'' = ''watched_write''"
  "family ''privilege_escalation'' = ''privilege_escalation''"
  by code_simp+

lemma example_signal_sel [simp]: "s_id (example_signal i sc ts) = i" "s_score (example_signal i sc ts) = sc"
  "s_ts_ns (example_signal i sc ts) = ts"
  by (simp_all add: example_signal_def signal_new_def)

theorem score_counts_families_witness:
  "sc_base (score [example_signal ''cred_config_write'' 35 0, example_signal ''persistence_write'' 30 0]
      \<lparr>network_rooted = False, in_container = False\<rparr>) = 35"
proof -
  let ?ss = "[example_signal ''cred_config_write'' 35 0, example_signal ''persistence_write'' 30 0]"
  have r: "recent_signals ?ss = ?ss"
    by (simp add: recent_signals_def newest_def CHAIN_WINDOW_NS_def)
  have f: "families ?ss = {''watched_write''}"
    by (simp add: families_def family_examples)
  have "worst ?ss ''watched_write'' = 35"
  proof -
    have "{s \<in> set ?ss. family (s_id s) = ''watched_write''} = set ?ss" by (auto simp: family_examples)
    then show ?thesis by (simp add: worst_def)
  qed
  then show ?thesis
    using score_counts_families [of ?ss "\<lparr>network_rooted = False, in_container = False\<rparr>"]
    unfolding r f by simp
qed

lemma families_set: "set ss = set ss' \<Longrightarrow> families ss = families ss' \<and> worst ss = worst ss'"
  by (simp add: families_def worst_def fun_eq_iff)

lemma newest_Max: "ss \<noteq> [] \<Longrightarrow> newest ss = Max (s_ts_ns ` set ss)"
  unfolding newest_def by (subst max_or_Max) simp_all

lemma newest_set: "set ss = set ss' \<Longrightarrow> newest ss = newest ss'"
proof (cases "ss = []")
  case False
  assume set: "set ss = set ss'"
  then have "ss' \<noteq> []" using False by auto
  then show ?thesis by (simp only: newest_Max [OF False] newest_Max [OF \<open>ss' \<noteq> []\<close>] set)
qed simp

lemma recent_set: "set ss = set ss' \<Longrightarrow> set (recent_signals ss) = set (recent_signals ss')"
  by (simp add: recent_signals_def newest_set [of ss ss'])

lemma score_set: "set ss = set ss' \<Longrightarrow> score ss ctx = score ss' ctx"
proof -
  assume set: "set ss = set ss'"
  show ?thesis
  proof (cases "ss = []")
    case True
    then show ?thesis using set by simp
  next
    case False
    then have "ss' \<noteq> []" using set by auto
    note rec = recent_set [OF set] families_set [OF recent_set [OF set]]
    have "sum_list (hm_values (per_family (recent_signals ss))) = sum_list (hm_values (per_family (recent_signals ss')))"
      "hm_len (per_family (recent_signals ss)) = hm_len (per_family (recent_signals ss'))"
      "max_or 0 (hm_values (per_family (recent_signals ss))) = max_or 0 (hm_values (per_family (recent_signals ss')))"
      using rec by (simp_all add: per_family_sum per_family_len per_family_max
          recent_nonempty [OF False] recent_nonempty [OF \<open>ss' \<noteq> []\<close>])
    then show ?thesis using False \<open>ss' \<noteq> []\<close> by (simp add: score_def Let_def)
  qed
qed

lemma newest_recent: "newest (recent_signals ss) = newest ss"
proof (cases "ss = []")
  case False
  have "newest ss \<in> s_ts_ns ` set ss" unfolding newest_Max [OF False] using False by (intro Max_in) simp_all
  then obtain s where s: "s \<in> set ss" "s_ts_ns s = newest ss" by force
  then have "s \<in> set (recent_signals ss)" by (simp add: recent_signals_def)
  moreover have "s_ts_ns x \<le> newest ss" if "x \<in> set (recent_signals ss)" for x
    unfolding newest_Max [OF False] using that by (intro Max_ge) (auto simp: recent_signals_def)
  ultimately show ?thesis
    unfolding newest_Max [OF recent_nonempty [OF False]] using s(2) by (intro Max_eqI) force+
qed (simp add: recent_signals_def)

text \<open>
  A score is a function of the set of signals of the last ten minutes before the
  newest one: neither their order, nor repeats, nor anything older changes any part of it.
\<close>

theorem score_order_and_window:
  "set (recent_signals signals) = set (recent_signals signals') \<Longrightarrow> score signals ctx = score signals' ctx"
proof -
  assume "set (recent_signals signals) = set (recent_signals signals')"
  then have "score (recent_signals signals) ctx = score (recent_signals signals') ctx" by (rule score_set)
  moreover have "score (recent_signals ss) ctx = score ss ctx" for ss
  proof -
    have "recent_signals (recent_signals ss) = recent_signals ss"
      by (simp add: recent_signals_def [of "recent_signals ss"] newest_recent) (simp add: recent_signals_def)
    then show ?thesis using recent_nonempty [of ss] by (cases "ss = []") (simp_all add: score_def recent_signals_def [of "[]"])
  qed
  ultimately show ?thesis by simp
qed

theorem score_order_and_window_witness:
  "score [example_signal ''suid_create'' 30 0, example_signal ''memfd_exec'' 45 700000000000]
       \<lparr>network_rooted = True, in_container = False\<rparr>
     = score [example_signal ''memfd_exec'' 45 700000000000] \<lparr>network_rooted = True, in_container = False\<rparr>"
  by (rule score_order_and_window)
     (simp add: recent_signals_def newest_def saturating_sub_def CHAIN_WINDOW_NS_def)

theorem score_exact_witness:
  "int (unat (sc_total (score [example_signal ''privilege_escalation'' 40 0] \<lparr>network_rooted = True, in_container = False\<rparr>))) = 52"
  using score_exact [of "[example_signal ''privilege_escalation'' 40 0]" "\<lparr>network_rooted = True, in_container = False\<rparr>"]
    score_single_parts [of "example_signal ''privilege_escalation'' 40 0"]
  by (simp add: percent_def)

end
