(* ===== verification/Contracts.thy ===== *)
theory Contracts
  imports Prelude
begin

text \<open>
  Contracts that several components of the agent share: a state machine with an invariant, and a
  store whose periodic housekeeping keeps it within a cap.
\<close>

section \<open>State machines with an invariant\<close>

locale transition_system =
  fixes init :: "'s \<Rightarrow> bool"
    and step :: "'s \<Rightarrow> 's \<Rightarrow> bool"
    and invar :: "'s \<Rightarrow> bool"
  assumes invar_init: "init s \<Longrightarrow> invar s"
    and invar_step: "invar s \<Longrightarrow> step s s' \<Longrightarrow> invar s'"
begin

lemma invar_steps: "step\<^sup>*\<^sup>* s s' \<Longrightarrow> invar s \<Longrightarrow> invar s'"
  by (induction rule: rtranclp_induct) (auto intro: invar_step)

lemma invar_reachable: "init s \<Longrightarrow> step\<^sup>*\<^sup>* s s' \<Longrightarrow> invar s'"
  using invar_init invar_steps by blast

end

section \<open>Stores with housekeeping\<close>

text \<open>
  An agent that never forgets runs its host out of memory. Each stateful component therefore has a
  housekeeping operation that must return, keep the invariant and leave the component within its cap.
\<close>

locale bounded_store = transition_system init step invar
  for init :: "'s \<Rightarrow> bool" and step :: "'s \<Rightarrow> 's \<Rightarrow> bool" and invar :: "'s \<Rightarrow> bool" +
  fixes size :: "'s \<Rightarrow> nat"
    and cap :: "'s \<Rightarrow> nat"
    and housekeeping :: "'t \<Rightarrow> 's \<Rightarrow> 's option"
  assumes housekeeping_returns: "invar s \<Longrightarrow> \<exists>s'. housekeeping now s = Some s'"
    and housekeeping_invar: "invar s \<Longrightarrow> housekeeping now s = Some s' \<Longrightarrow> invar s'"
    and housekeeping_bound: "invar s \<Longrightarrow> housekeeping now s = Some s' \<Longrightarrow> size s' \<le> cap s'"
begin

lemma housekeeping_reachable:
  assumes "init s" and "step\<^sup>*\<^sup>* s r"
  shows "\<exists>s'. housekeeping now r = Some s' \<and> invar s' \<and> size s' \<le> cap s'"
  using invar_reachable [OF assms] housekeeping_returns housekeeping_invar housekeeping_bound by blast

text \<open>Housekeeping can be repeated at every tick.\<close>

lemma housekeeping_again:
  assumes "invar s" and "housekeeping now s = Some s'"
  shows "\<exists>s''. housekeeping later s' = Some s'' \<and> size s'' \<le> cap s''"
  using housekeeping_invar [OF assms] housekeeping_returns housekeeping_bound by blast

end

end
