(* ===== verification/Graph_Inv.thy ===== *)
theory Graph_Inv
  imports Graph Contracts
begin

text \<open>
  The process graph's invariant and what follows from it: every operation keeps the edges
  consistent in both directions, events change only the process they name, and the reaper always
  returns a graph within its cap, having dropped the longest-dead processes first.
\<close>

section \<open>Lookups after updates\<close>

named_theorems get_simps \<open>what a lookup returns after each update\<close>

lemma get_modify_node [simp, get_simps]:
  "graph_get (modify_node k f g) k' = (if k' = k then map_option f (graph_get g k) else graph_get g k')"
  by (simp add: graph_get_def modify_node_def)

lemma get_ensure [simp, get_simps]:
  "graph_get (ensure k o' g) k' =
     (if k' = k \<and> graph_get g k = None then Some (node_new k o') else graph_get g k')"
  by (auto simp: graph_get_def ensure_def split: option.splits)

lemma get_update_other [simp]:
  "graph_get (g\<lparr>g_by_pid := b\<rparr>) k = graph_get g k"
  "graph_get (g\<lparr>g_adopted := a\<rparr>) k = graph_get g k"
  "graph_get (g\<lparr>g_reaped := a\<rparr>) k = graph_get g k"
  "graph_get (g\<lparr>g_evicted := a\<rparr>) k = graph_get g k"
  "graph_get (g\<lparr>g_host_mnt_ns := h\<rparr>) k = graph_get g k"
  by (simp_all add: graph_get_def)

lemma get_fold_modify:
  assumes "\<And>n. f (f n) = f n"
  shows "hm_get (fold (\<lambda>c. hm_modify c f) cs m) k =
    (if k \<in> set cs then map_option f (hm_get m k) else hm_get m k)"
proof (induction cs arbitrary: m)
  case (Cons c cs)
  then show ?case by (cases "hm_get m k") (auto simp: assms)
qed simp

lemma ok_fold_modify: "hm_ok m \<Longrightarrow> hm_ok (fold (\<lambda>c. hm_modify c f) cs m)
    \<and> hm_len (fold (\<lambda>c. hm_modify c f) cs m) = hm_len m"
  by (induction cs arbitrary: m) auto

lemma get_remove_node [get_simps]:
  assumes "graph_get g k = Some node"
  shows "graph_get (remove_node k g) c =
    (if c = k then None else map_option (\<lambda>n.
       n\<lparr>pn_children := (if pn_parent node = Some c then filter (\<lambda>x. x \<noteq> k) (pn_children n) else pn_children n),
         pn_parent := (if c \<in> set (pn_children node) then None else pn_parent n)\<rparr>) (graph_get g c))"
  using assms
  by (cases "graph_get g c")
     (auto simp: remove_node_def graph_get_def Let_def get_fold_modify split: option.splits)

lemma get_rekey [get_simps]:
  assumes "graph_get g from = Some node"
  shows "graph_get (rekey from to g) c =
    (if c = to then Some (node\<lparr>pn_key := to, pn_origin := Observed\<rparr>)
     else if c = from then None
     else map_option (\<lambda>n.
       n\<lparr>pn_children := (if pn_parent node = Some c
              then map (\<lambda>x. if x = from then to else x) (pn_children n) else pn_children n),
         pn_parent := (if c \<in> set (pn_children node) then Some to else pn_parent n)\<rparr>) (graph_get g c))"
  using assms
  by (cases "graph_get g c")
     (auto simp: rekey_def graph_get_def Let_def get_fold_modify split: option.splits)

section \<open>The invariant\<close>

definition node_ok :: "graph \<Rightarrow> proc_key \<Rightarrow> proc_node \<Rightarrow> bool" where
  "node_ok g c n \<longleftrightarrow> pn_key n = c \<and> pn_parent n \<noteq> Some c \<and> length (pn_cred_history n) \<le> 64
     \<and> (\<forall>p. pn_parent n = Some p \<longrightarrow> (\<exists>m. graph_get g p = Some m \<and> c \<in> set (pn_children m)))"

definition graph_wf :: "graph \<Rightarrow> bool" where
  "graph_wf g \<longleftrightarrow> hm_ok (g_nodes g) \<and> hm_ok (g_by_pid g)
     \<and> (\<forall>c n. graph_get g c = Some n \<longrightarrow> node_ok g c n)
     \<and> (\<forall>p k. hm_get (g_by_pid g) p = Some k \<longrightarrow> pk_pid k = p \<and> graph_get g k \<noteq> None)"

lemma graph_wfI:
  assumes "hm_ok (g_nodes g)" and "hm_ok (g_by_pid g)"
    and "\<And>c n. graph_get g c = Some n \<Longrightarrow> node_ok g c n"
    and "\<And>p k. hm_get (g_by_pid g) p = Some k \<Longrightarrow> pk_pid k = p \<and> graph_get g k \<noteq> None"
  shows "graph_wf g"
  using assms by (auto simp: graph_wf_def)

lemma wf_ok: "graph_wf g \<Longrightarrow> hm_ok (g_nodes g)" "graph_wf g \<Longrightarrow> hm_ok (g_by_pid g)"
  by (simp_all add: graph_wf_def)

lemma wf_node: "graph_wf g \<Longrightarrow> graph_get g c = Some n \<Longrightarrow> node_ok g c n"
  by (simp add: graph_wf_def)

lemma wf_key: "graph_wf g \<Longrightarrow> graph_get g c = Some n \<Longrightarrow> pn_key n = c"
  using wf_node by (simp add: node_ok_def)

lemma wf_parent: "graph_wf g \<Longrightarrow> graph_get g c = Some n \<Longrightarrow> pn_parent n = Some p \<Longrightarrow>
    p \<noteq> c \<and> (\<exists>m. graph_get g p = Some m \<and> c \<in> set (pn_children m))"
  using wf_node by (auto simp: node_ok_def)

lemma wf_pid: "graph_wf g \<Longrightarrow> hm_get (g_by_pid g) p = Some k \<Longrightarrow> pk_pid k = p \<and> (\<exists>n. graph_get g k = Some n)"
  by (auto simp: graph_wf_def)

lemma wf_values: "graph_wf g \<Longrightarrow> n \<in> set (hm_values (g_nodes g)) \<longleftrightarrow> graph_get g (pn_key n) = Some n"
  using wf_key by (auto simp: hm_values_get wf_ok graph_get_def)

lemma wf_update_counters [simp]:
  "graph_wf (g\<lparr>g_adopted := a\<rparr>) = graph_wf g" "graph_wf (g\<lparr>g_reaped := a\<rparr>) = graph_wf g"
  "graph_wf (g\<lparr>g_evicted := a\<rparr>) = graph_wf g" "graph_wf (g\<lparr>g_host_mnt_ns := h\<rparr>) = graph_wf g"
  by (simp_all add: graph_wf_def node_ok_def)

lemma graph_new_wf: "graph_wf (graph_new mx retain)"
  by (simp add: graph_wf_def graph_new_def graph_get_def)

lemma ensure_wf:
  assumes "graph_wf g" shows "graph_wf (ensure k o' g)"
proof (rule graph_wfI)
  fix c n assume n: "graph_get (ensure k o' g) c = Some n"
  show "node_ok (ensure k o' g) c n"
  proof (cases "graph_get g c")
    case None
    then show ?thesis using n by (auto simp: node_ok_def node_new_def split: if_splits)
  next
    case (Some m)
    then have "n = m" using n by (auto split: if_splits)
    then show ?thesis using wf_node [OF assms Some] by (auto simp: node_ok_def)
  qed
next
  fix p j assume "hm_get (g_by_pid (ensure k o' g)) p = Some j"
  then show "pk_pid j = p \<and> graph_get (ensure k o' g) j \<noteq> None"
    using wf_pid [OF assms] by (auto simp: ensure_def graph_get_def split: if_splits)
qed (use wf_ok [OF assms] in \<open>simp_all add: ensure_def\<close>)

text \<open>An update that keeps the node's place in the graph.\<close>

definition keeps_place :: "(proc_node \<Rightarrow> proc_node) \<Rightarrow> bool" where
  "keeps_place f \<longleftrightarrow> (\<forall>n. pn_key (f n) = pn_key n
     \<and> (length (pn_cred_history n) \<le> 64 \<longrightarrow> length (pn_cred_history (f n)) \<le> 64)
     \<and> set (pn_children n) \<subseteq> set (pn_children (f n)))"

lemma modify_by_pid [simp]: "g_by_pid (modify_node k f g) = g_by_pid g"
  by (simp add: modify_node_def)

lemma modify_node_wf:
  assumes wf: "graph_wf g" and kp: "keeps_place f" and par: "\<And>n. pn_parent (f n) = pn_parent n"
  shows "graph_wf (modify_node k f g)"
proof (rule graph_wfI)
  fix c n assume n: "graph_get (modify_node k f g) c = Some n"
  then obtain m where m: "graph_get g c = Some m" "n = m \<or> n = f m \<and> c = k"
    by (auto split: if_splits)
  have "node_ok g c m" using wf_node [OF wf m(1)] .
  moreover have "\<exists>q'. graph_get (modify_node k f g) p = Some q' \<and> c \<in> set (pn_children q')"
    if "graph_get g p = Some q" "c \<in> set (pn_children q)" for p q
    using that kp by (cases "p = k") (auto simp: keeps_place_def)
  ultimately show "node_ok (modify_node k f g) c n"
    using m(2) kp par unfolding node_ok_def keeps_place_def by fastforce
next
  fix p j assume "hm_get (g_by_pid (modify_node k f g)) p = Some j"
  then show "pk_pid j = p \<and> graph_get (modify_node k f g) j \<noteq> None"
    using wf_pid [OF wf] by fastforce
qed (use wf_ok [OF wf] in \<open>simp_all add: modify_node_def\<close>)

text \<open>The child's parent link and the parent's child list change together.\<close>

lemma link_wf:
  assumes wf: "graph_wf g" and pc: "p \<noteq> c" and p: "graph_get g p \<noteq> None"
    and f: "keeps_place f" "\<And>n. pn_parent (f n) = Some p"
    and h: "keeps_place h" "\<And>n. pn_parent (h n) = pn_parent n" "\<And>n. c \<in> set (pn_children (h n))"
  shows "graph_wf (modify_node p h (modify_node c f g))"
proof (rule graph_wfI)
  let ?g = "modify_node p h (modify_node c f g)"
  fix d n assume n: "graph_get ?g d = Some n"
  obtain m where m: "graph_get g d = Some m"
    and nm: "n = (if d = p then h m else if d = c then f m else m)"
    using n pc by (auto split: if_splits)
  have old: "node_ok g d m" using wf_node [OF wf m] .
  have up: "\<exists>q'. graph_get ?g r = Some q' \<and> d \<in> set (pn_children q')"
    if "graph_get g r = Some q" "d \<in> set (pn_children q)" for r q
    using that f(1) h(1) pc by (cases "r = p"; cases "r = c") (auto simp: keeps_place_def)
  have new: "\<exists>q'. graph_get ?g p = Some q' \<and> c \<in> set (pn_children q')"
    using p pc h(3) by auto
  have place: "pn_key n = d" "length (pn_cred_history n) \<le> 64"
    using old nm f(1) h(1) by (auto simp: node_ok_def keeps_place_def)
  have "r \<noteq> d \<and> (\<exists>q'. graph_get ?g r = Some q' \<and> d \<in> set (pn_children q'))"
    if "pn_parent n = Some r" for r
  proof (cases "d = c")
    case True
    then have "r = p" using that nm f(2) pc by simp
    then show ?thesis using True new pc by blast
  next
    case False
    then have "pn_parent m = Some r" using that nm h(2) by (simp split: if_splits)
    then show ?thesis using old up unfolding node_ok_def by blast
  qed
  then show "node_ok ?g d n" using place unfolding node_ok_def by blast
next
  fix q j assume "hm_get (g_by_pid (modify_node p h (modify_node c f g))) q = Some j"
  then show "pk_pid j = q \<and> graph_get (modify_node p h (modify_node c f g)) j \<noteq> None"
    using wf_pid [OF wf] by fastforce
qed (use wf_ok [OF wf] in \<open>simp_all add: modify_node_def\<close>)

lemma rekey_by_pid:
  "graph_get g from = Some node \<Longrightarrow> g_by_pid (rekey from to g) = hm_insert (pk_pid to) to (g_by_pid g)"
  by (simp add: rekey_def Let_def)

lemma rekey_wf:
  assumes wf: "graph_wf g" and frm: "graph_get g from = Some node" and to: "graph_get g to = None"
    and pid: "pk_pid to = pk_pid from"
  shows "graph_wf (rekey from to g)"
proof (rule graph_wfI)
  fix c n assume n: "graph_get (rekey from to g) c = Some n"
  have ne: "from \<noteq> to" using frm to by auto
  show "node_ok (rekey from to g) c n"
  proof (cases "c = to")
    case True
    then have nd: "n = node\<lparr>pn_key := to, pn_origin := Observed\<rparr>" using n get_rekey [OF frm] by simp
    have "p \<noteq> to \<and> (\<exists>m. graph_get (rekey from to g) p = Some m \<and> to \<in> set (pn_children m))"
      if par: "pn_parent node = Some p" for p
    proof -
      obtain m where "p \<noteq> from" "graph_get g p = Some m" "from \<in> set (pn_children m)"
        using wf_parent [OF wf frm par] by auto
      moreover from this(2) to have "p \<noteq> to" by auto
      ultimately show ?thesis using get_rekey [OF frm, of to p] par by force
    qed
    then show ?thesis using True wf_node [OF wf frm] nd by (auto simp: node_ok_def)
  next
    case False
    then obtain m where m: "graph_get g c = Some m" "c \<noteq> from"
      using n get_rekey [OF frm, of to c] by (auto split: if_splits)
    have nd: "pn_key n = c" "length (pn_cred_history n) \<le> 64"
      "pn_parent n = (if c \<in> set (pn_children node) then Some to else pn_parent m)"
      using False m n wf_node [OF wf m(1)] get_rekey [OF frm, of to c] by (auto simp: node_ok_def)
    have "p \<noteq> c \<and> (\<exists>q. graph_get (rekey from to g) p = Some q \<and> c \<in> set (pn_children q))"
      if par: "pn_parent n = Some p" for p
    proof (cases "c \<in> set (pn_children node)")
      case True
      then show ?thesis using nd(3) par get_rekey [OF frm, of to to] False by auto
    next
      case other: False
      then have mp: "pn_parent m = Some p" using nd(3) par by simp
      obtain q where q: "p \<noteq> c" "graph_get g p = Some q" "c \<in> set (pn_children q)"
        using wf_parent [OF wf m(1) mp] by auto
      then have "p \<noteq> from" "p \<noteq> to" using other frm to by auto
      then show ?thesis using q m(2) get_rekey [OF frm, of to p] by force
    qed
    then show ?thesis using nd(1,2) by (auto simp: node_ok_def)
  qed
next
  fix p k assume "hm_get (g_by_pid (rekey from to g)) p = Some k"
  then show "pk_pid k = p \<and> graph_get (rekey from to g) k \<noteq> None"
    using wf_pid [OF wf, of p k] pid get_rekey [OF frm, of to k]
    by (cases "p = pk_pid to") (auto simp: rekey_by_pid [OF frm])
qed (use wf_ok [OF wf] frm in \<open>auto simp: rekey_def Let_def ok_fold_modify split: option.splits\<close>)

lemma resolve_key [simp]: "fst (resolve pid st g) = ProcKey pid st"
  by (simp add: resolve_def Let_def split: option.splits)

text \<open>Either the graph is left alone or a live, scanned node of this PID moves to the exact key.\<close>

definition adoptable :: "u32 \<Rightarrow> u64 \<Rightarrow> graph \<Rightarrow> proc_key \<Rightarrow> bool" where
  "adoptable pid st g k \<longleftrightarrow> graph_get g (ProcKey pid st) = None \<and> hm_get (g_by_pid g) pid = Some k
     \<and> (\<exists>n. graph_get g k = Some n \<and> alive n \<and> pn_origin n = Scanned)
     \<and> abs_diff st (pk_start k) \<le> SCAN_START_TOLERANCE_NS"

lemma resolve_cases:
  obtains "\<forall>k. \<not> adoptable pid st g k" "resolve pid st g = (ProcKey pid st, g)"
  | k where "adoptable pid st g k" "resolve pid st g =
      (ProcKey pid st, (rekey k (ProcKey pid st) g)\<lparr>g_adopted := g_adopted (rekey k (ProcKey pid st) g) + 1\<rparr>)"
proof (cases "\<exists>k. adoptable pid st g k")
  case True
  then obtain k where k: "adoptable pid st g k" ..
  then have "k \<noteq> ProcKey pid st" by (auto simp: adoptable_def)
  with k show ?thesis by (intro that(2) [OF k]) (auto simp: resolve_def adoptable_def Let_def)
next
  case False
  then have "resolve pid st g = (ProcKey pid st, g)"
    by (auto simp: resolve_def adoptable_def Let_def split: option.splits)
  with False show ?thesis using that(1) by blast
qed

lemma resolve_wf:
  assumes "graph_wf g" shows "graph_wf (snd (resolve pid st g))"
proof (cases rule: resolve_cases [of pid st g])
  case (2 k)
  then obtain n where "graph_get g k = Some n" "graph_get g (ProcKey pid st) = None"
    by (auto simp: adoptable_def)
  moreover have "pk_pid k = pid" using 2 wf_pid [OF assms] by (auto simp: adoptable_def)
  ultimately show ?thesis using rekey_wf [OF assms] 2 by simp
qed (use assms in simp)

lemma keeps_place_updates [simp]:
  "keeps_place (set_comm_if_empty c)" "keeps_place (fork_child ev p)" "keeps_place (add_child k)"
  "keeps_place (exec_node ev)" "keeps_place (cred_node ev)" "keeps_place (\<lambda>n. n\<lparr>pn_exited := e\<rparr>)"
  "keeps_place (\<lambda>n. n\<lparr>pn_parent := q\<rparr>)" "keeps_place (\<lambda>n. n\<lparr>pn_children := pn_children n @ ks\<rparr>)"
  by (auto simp: keeps_place_def set_comm_if_empty_def fork_child_def set_container_def add_child_def
      exec_node_def cred_node_def Let_def)

lemma parent_updates [simp]:
  "pn_parent (set_comm_if_empty c n) = pn_parent n" "pn_parent (fork_child ev p n) = Some p"
  "pn_parent (add_child k n) = pn_parent n" "pn_parent (exec_node ev n) = pn_parent n"
  "pn_parent (cred_node ev n) = pn_parent n"
  by (auto simp: set_comm_if_empty_def fork_child_def set_container_def add_child_def
      exec_node_def cred_node_def Let_def)

lemma add_child_in [simp]: "k \<in> set (pn_children (add_child k n))"
  by (simp add: add_child_def)

lemma forget_pid_wf: "graph_wf g \<Longrightarrow> graph_wf (g\<lparr>g_by_pid := hm_remove p (g_by_pid g)\<rparr>)"
  by (auto simp: graph_wf_def node_ok_def)

text \<open>The kernel never reports a process as its own child.\<close>

definition fork_ok :: "event \<Rightarrow> bool" where
  "fork_ok ev \<longleftrightarrow> (event_type ev = Fork \<longrightarrow> ev_child_key ev \<noteq> ev_key ev)"

lemma resolve_split: "(case resolve (ev_tgid ev) (ev_start_boottime ev) g of (k, g') \<Rightarrow> F k g')
    = F (ev_key ev) (snd (resolve (ev_tgid ev) (ev_start_boottime ev) g))"
  by (simp add: case_prod_beta ev_key_def)

lemma fork_parent_present: "graph_get (modify_node k f (ensure k o' g)) k \<noteq> None"
  by auto

lemma ensure_keeps: "graph_get g k \<noteq> None \<Longrightarrow> graph_get (ensure k' o' g) k \<noteq> None"
  by auto

lemma apply_event_wf:
  assumes wf: "graph_wf g" and ok: "fork_ok ev"
  shows "graph_wf (apply_event ev g)"
proof -
  let ?r = "snd (resolve (ev_tgid ev) (ev_start_boottime ev) g)"
  have r: "graph_wf ?r" using wf by (rule resolve_wf)
  note ens = ensure_wf [OF r]
  note up = modify_node_wf [OF ens]
  show ?thesis
  proof (cases "event_type ev")
    case Fork
    let ?g = "modify_node (ev_key ev) (set_comm_if_empty (ev_comm ev)) (ensure (ev_key ev) Observed ?r)"
    have "graph_wf (modify_node (ev_key ev) (add_child (ev_child_key ev))
        (modify_node (ev_child_key ev) (fork_child ev (ev_key ev)) (ensure (ev_child_key ev) Observed ?g)))"
    proof (rule link_wf)
      show "graph_wf (ensure (ev_child_key ev) Observed ?g)" by (intro ensure_wf up) simp_all
      show "ev_key ev \<noteq> ev_child_key ev" using ok Fork by (auto simp: fork_ok_def)
      show "graph_get (ensure (ev_child_key ev) Observed ?g) (ev_key ev) \<noteq> None"
        by (intro ensure_keeps fork_parent_present)
    qed simp_all
    then show ?thesis by (simp add: apply_event_def Fork on_fork_def resolve_split Let_def)
  next
    case Exit
    have "graph_wf (modify_node (ev_key ev) (\<lambda>n. n\<lparr>pn_exited := Some (ev_ts_ns ev)\<rparr>) ?r)"
      by (rule modify_node_wf [OF r]) simp_all
    from forget_pid_wf [OF this] show ?thesis
      by (simp add: apply_event_def Exit on_exit_def Let_def resolve_split)
  next
    case Exec
    then show ?thesis using up [of "exec_node ev"]
      by (simp add: apply_event_def on_exec_def resolve_split)
  next
    case CredChange
    then show ?thesis using up [of "cred_node ev"]
      by (simp add: apply_event_def on_cred_def resolve_split)
  qed (simp_all add: apply_event_def wf)
qed

lemma remove_node_wf:
  assumes wf: "graph_wf g" shows "graph_wf (remove_node k g)"
proof (cases "graph_get g k")
  case None
  then show ?thesis using wf by (simp add: remove_node_def)
next
  case (Some node)
  note get = get_remove_node [OF Some]
  show ?thesis
  proof (rule graph_wfI)
    fix c n assume n: "graph_get (remove_node k g) c = Some n"
    then obtain m where m: "c \<noteq> k" "graph_get g c = Some m"
      by (cases "graph_get g c") (auto simp: get split: if_splits)
    have nm: "pn_key n = pn_key m" "pn_cred_history n = pn_cred_history m"
        "pn_parent n = (if c \<in> set (pn_children node) then None else pn_parent m)"
      using n m by (auto simp: get)
    have "\<exists>q. graph_get (remove_node k g) p = Some q \<and> c \<in> set (pn_children q)" if p: "pn_parent n = Some p" for p
    proof -
      have "pn_parent m = Some p" using p nm(3) by (simp split: if_splits)
      then obtain q where q: "graph_get g p = Some q" "c \<in> set (pn_children q)"
        using wf_parent [OF wf m(2)] by auto
      moreover have "p \<noteq> k" using q Some nm(3) p by (auto split: if_splits)
      ultimately show ?thesis using m(1) by (simp add: get)
    qed
    then show "node_ok (remove_node k g) c n"
      using nm wf_node [OF wf m(2)] by (auto simp: node_ok_def split: if_splits)
  next
    fix p j assume j: "hm_get (g_by_pid (remove_node k g)) p = Some j"
    then have "hm_get (g_by_pid g) p = Some j \<and> j \<noteq> k"
      using Some wf_pid [OF wf, of p j] by (auto simp: remove_node_def Let_def split: if_splits)
    then show "pk_pid j = p \<and> graph_get (remove_node k g) j \<noteq> None"
      using wf_pid [OF wf, of p j] by (auto simp: get)
  qed (use wf_ok [OF wf] Some in \<open>auto simp: remove_node_def Let_def ok_fold_modify split: option.splits\<close>)
qed

lemma link_edge_wf: "graph_wf g \<Longrightarrow> graph_wf (link_edge e g)"
proof (cases e)
  case (Pair child ppid)
  assume wf: "graph_wf g"
  show ?thesis
  proof (cases "hm_get (g_by_pid g) ppid")
    case (Some p)
    then have "graph_get g p \<noteq> None" using wf_pid [OF wf] by auto
    then show ?thesis using wf Some Pair
      by (auto simp: link_edge_def intro!: link_wf)
  qed (use wf Pair in \<open>simp add: link_edge_def\<close>)
qed

lemma link_scanned_wf: "graph_wf g \<Longrightarrow> graph_wf (link_scanned edges g)"
  unfolding link_scanned_def by (induction edges arbitrary: g) (auto simp: link_edge_wf)

text \<open>The scanner runs once, before any sensor is attached, and reports each process once.\<close>

definition scan_ok :: "proc_node \<Rightarrow> graph \<Rightarrow> bool" where
  "scan_ok n g \<longleftrightarrow> graph_get g (pn_key n) = None \<and> pn_parent n = None \<and> pn_children n = []
     \<and> pn_cred_history n = []"

lemma insert_scanned_wf:
  assumes wf: "graph_wf g" and ok: "scan_ok n g" shows "graph_wf (insert_scanned n g)"
proof -
  have get: "graph_get (insert_scanned n g) c = (if c = pn_key n then Some n else graph_get g c)" for c
    by (simp add: graph_get_def insert_scanned_def)
  show ?thesis
  proof (rule graph_wfI)
    fix c m assume "graph_get (insert_scanned n g) c = Some m"
    then show "node_ok (insert_scanned n g) c m"
      using ok wf_node [OF wf, of c m] unfolding node_ok_def scan_ok_def get
      by (auto split: if_splits)
  next
    fix p k assume "hm_get (g_by_pid (insert_scanned n g)) p = Some k"
    then show "pk_pid k = p \<and> graph_get (insert_scanned n g) k \<noteq> None"
      using wf_pid [OF wf, of p k] unfolding get by (auto simp: insert_scanned_def split: if_splits)
  qed (use wf_ok [OF wf] in \<open>simp_all add: insert_scanned_def\<close>)
qed

section \<open>What a process is, apart from its edges\<close>

definition node_facts :: "proc_node \<Rightarrow> proc_node" where
  "node_facts n = n\<lparr>pn_parent := None, pn_children := []\<rparr>"

definition life :: "graph \<Rightarrow> proc_key \<Rightarrow> proc_node option" where
  "life g k = map_option node_facts (graph_get g k)"

lemma node_facts_edges [simp]: "node_facts (n\<lparr>pn_children := cs, pn_parent := p\<rparr>) = node_facts n"
  by (simp add: node_facts_def)

lemma node_facts_eq:
  "node_facts n = node_facts m \<Longrightarrow> pn_exited n = pn_exited m \<and> pn_started n = pn_started m
     \<and> alive n = alive m \<and> pn_key n = pn_key m"
  by (cases n; cases m) (simp add: node_facts_def alive_def)

lemma life_update_other [simp]:
  "life (g\<lparr>g_by_pid := b\<rparr>) = life g" "life (g\<lparr>g_adopted := a\<rparr>) = life g"
  "life (g\<lparr>g_reaped := a\<rparr>) = life g" "life (g\<lparr>g_evicted := a\<rparr>) = life g"
  by (simp_all add: life_def fun_eq_iff)

lemma life_None [simp]: "life g k = None \<longleftrightarrow> graph_get g k = None"
  by (simp add: life_def)

lemma life_modify_other: "k \<noteq> j \<Longrightarrow> life (modify_node j f g) k = life g k"
  by (simp add: life_def)

lemma life_modify_edges: "(\<And>n. node_facts (f n) = node_facts n) \<Longrightarrow> life (modify_node j f g) = life g"
  by (auto simp: life_def option.map_comp o_def fun_eq_iff)

lemma facts_add_child [simp]: "node_facts (add_child c n) = node_facts n"
  by (simp add: add_child_def node_facts_def)

lemma life_ensure: "k \<noteq> j \<Longrightarrow> life (ensure j o' g) k = life g k"
  by (simp add: life_def)

lemma life_remove_node: "life (remove_node v g) k = (if k = v then None else life g k)"
proof (cases "graph_get g v")
  case None
  then show ?thesis by (auto simp: remove_node_def life_def)
next
  case (Some node)
  then show ?thesis
    by (auto simp: life_def get_remove_node [OF Some] option.map_comp o_def)
qed

lemma life_rekey:
  "graph_get g from = Some node \<Longrightarrow> k \<noteq> from \<Longrightarrow> k \<noteq> to \<Longrightarrow> life (rekey from to g) k = life g k"
  by (auto simp: life_def get_rekey option.map_comp o_def)

lemma life_resolve:
  assumes "k \<noteq> ProcKey pid st" and "\<not> adoptable pid st g k"
  shows "life (snd (resolve pid st g)) k = life g k"
proof (cases rule: resolve_cases [of pid st g])
  case (2 j)
  then obtain n where "graph_get g j = Some n" by (auto simp: adoptable_def)
  moreover have "k \<noteq> j" using 2 assms by auto
  ultimately show ?thesis using 2 assms(1) by (simp add: life_rekey)
qed simp

lemma life_apply_event:
  assumes "k \<noteq> ev_key ev" and "event_type ev = Fork \<longrightarrow> k \<noteq> ev_child_key ev"
    and "\<not> adoptable (ev_tgid ev) (ev_start_boottime ev) g k"
  shows "life (apply_event ev g) k = life g k"
proof -
  have r: "life (snd (resolve (ev_tgid ev) (ev_start_boottime ev) g)) k = life g k"
    using assms(1,3) by (intro life_resolve) (simp_all add: ev_key_def)
  show ?thesis
    using assms(1,2) r
    by (cases "event_type ev")
       (simp_all add: apply_event_def on_fork_def on_exec_def on_exit_def on_cred_def Let_def
          resolve_split life_modify_other life_ensure life_modify_edges)
qed

section \<open>Reaping\<close>

lemma remove_frame [simp]:
  "g_max_processes (remove_node v g) = g_max_processes g" "g_retain_ns (remove_node v g) = g_retain_ns g"
  by (simp_all add: remove_node_def Let_def split: option.splits)

lemma len_remove_node:
  assumes "graph_wf g" and "graph_get g v \<noteq> None"
  shows "Suc (graph_len (remove_node v g)) = graph_len g"
proof -
  have ok: "hm_ok (hm_remove v (g_nodes g))" using wf_ok(1) [OF assms(1)] by simp
  have "graph_len (remove_node v g) = hm_len (hm_remove v (g_nodes g))"
    using assms(2) ok_fold_modify [OF ok] ok_fold_modify [OF hm_ok_modify [OF ok]] ok
    by (auto simp: remove_node_def graph_len_def Let_def split: option.splits)
  then show ?thesis
    using hm_len_remove [OF wf_ok(1) [OF assms(1)], of v] assms(2)
    by (simp add: graph_len_def graph_get_def)
qed

lemma reap_expired_go:
  "graph_wf g \<Longrightarrow> graph_wf (fold reap_one ks g)
    \<and> g_max_processes (fold reap_one ks g) = g_max_processes g
    \<and> g_retain_ns (fold reap_one ks g) = g_retain_ns g
    \<and> (\<forall>k. life (fold reap_one ks g) k = (if k \<in> set ks then None else life g k))"
  by (induction ks arbitrary: g) (auto simp: reap_one_def remove_node_wf life_remove_node)

lemma expired_keys:
  assumes "graph_wf g"
  shows "k \<in> set (map pn_key (filter P (hm_values (g_nodes g)))) \<longleftrightarrow> (\<exists>n. graph_get g k = Some n \<and> P n)"
proof
  assume "k \<in> set (map pn_key (filter P (hm_values (g_nodes g))))"
  then obtain n where "n \<in> set (hm_values (g_nodes g))" "P n" "k = pn_key n" by auto
  then show "\<exists>n. graph_get g k = Some n \<and> P n" using wf_values [OF assms, of n] by blast
next
  assume "\<exists>n. graph_get g k = Some n \<and> P n"
  then obtain n where n: "graph_get g k = Some n" "P n" by blast
  then have "pn_key n = k" using wf_key [OF assms] by blast
  with n wf_values [OF assms, of n] show "k \<in> set (map pn_key (filter P (hm_values (g_nodes g))))"
    by force
qed

lemma reap_expired_spec:
  assumes "graph_wf g"
  shows "graph_wf (reap_expired now g)" "g_max_processes (reap_expired now g) = g_max_processes g"
    "g_retain_ns (reap_expired now g) = g_retain_ns g"
    "life (reap_expired now g) k = (case graph_get g k of None \<Rightarrow> None
       | Some n \<Rightarrow> if expired_node now (g_retain_ns g) n then None else Some (node_facts n))"
proof -
  let ?ks = "map pn_key (filter (expired_node now (g_retain_ns g)) (hm_values (g_nodes g)))"
  note go = reap_expired_go [OF assms, of ?ks]
  then show "graph_wf (reap_expired now g)" "g_max_processes (reap_expired now g) = g_max_processes g"
    "g_retain_ns (reap_expired now g) = g_retain_ns g" by (simp_all add: reap_expired_def)
  have "k \<in> set ?ks \<longleftrightarrow> (\<exists>n. graph_get g k = Some n \<and> expired_node now (g_retain_ns g) n)"
    using expired_keys [OF assms] .
  with go show "life (reap_expired now g) k = (case graph_get g k of None \<Rightarrow> None
       | Some n \<Rightarrow> if expired_node now (g_retain_ns g) n then None else Some (node_facts n))"
    by (auto simp: reap_expired_def life_def split: option.splits)
qed

text \<open>Whom to drop: the longest-dead process, else the one that started first.\<close>

definition drop_before :: "proc_node \<Rightarrow> proc_node \<Rightarrow> bool" where
  "drop_before n m \<longleftrightarrow> (case (pn_exited n, pn_exited m) of
       (Some a, Some b) \<Rightarrow> a \<le> b | (Some _, None) \<Rightarrow> True
     | (None, Some _) \<Rightarrow> False | (None, None) \<Rightarrow> pn_started n \<le> pn_started m)"

lemma victim_spec:
  assumes wf: "graph_wf g" and "g_nodes g \<noteq> []"
  shows "\<exists>v n. victim g = Some v \<and> graph_get g v = Some n
    \<and> (\<forall>k m. graph_get g k = Some m \<longrightarrow> drop_before n m)"
proof (cases "filter (\<lambda>n. \<not> alive n) (hm_values (g_nodes g))")
  case Nil
  then have live: "pn_exited m = None" if "graph_get g k = Some m" for k m
    using that wf_values [OF wf, of m] wf_key [OF wf that] by (auto simp: filter_empty_conv alive_def)
  obtain n where n: "min_by_key pn_started (hm_values (g_nodes g)) = Some n"
    using assms(2) by (cases "min_by_key pn_started (hm_values (g_nodes g))") (auto simp: hm_values_def)
  have get: "graph_get g (pn_key n) = Some n" using wf_values [OF wf] min_by_key_in [OF n] by blast
  have "drop_before n m" if m: "graph_get g k = Some m" for k m
    using min_by_key_least [OF n, of m] wf_values [OF wf, of m] wf_key [OF wf m] m live [OF m] live [OF get]
    by (simp add: drop_before_def)
  then show ?thesis using n get Nil by (auto simp: victim_def)
next
  case (Cons d ds)
  let ?f = "\<lambda>n. case pn_exited n of None \<Rightarrow> - 1 | Some e \<Rightarrow> e"
  let ?dead = "filter (\<lambda>n. \<not> alive n) (hm_values (g_nodes g))"
  obtain n where n: "min_by_key ?f ?dead = Some n"
    using Cons min_by_key_None [of ?f ?dead] by (cases "min_by_key ?f ?dead") (simp_all del: min_by_key.simps)
  then have nd: "n \<in> set (hm_values (g_nodes g))" "\<not> alive n" using min_by_key_in [OF n] by auto
  then have get: "graph_get g (pn_key n) = Some n" using wf_values [OF wf] by blast
  have "drop_before n m" if m: "graph_get g k = Some m" for k m
  proof (cases "alive m")
    case False
    then have "m \<in> set ?dead" using wf_values [OF wf, of m] wf_key [OF wf m] m by simp
    from min_by_key_least [OF n this] False nd(2) show ?thesis by (auto simp: drop_before_def alive_def)
  qed (use nd(2) in \<open>auto simp: drop_before_def alive_def\<close>)
  then show ?thesis using n get by (auto simp: victim_def)
qed

lemma drop_before_trans: "drop_before a b \<Longrightarrow> drop_before b c \<Longrightarrow> drop_before a c"
  by (auto simp: drop_before_def split: option.splits)

lemma drop_before_facts [simp]:
  "drop_before (node_facts n) m = drop_before n m" "drop_before n (node_facts m) = drop_before n m"
  by (cases "pn_exited n"; cases "pn_exited m"; simp add: drop_before_def node_facts_def)+

definition evict_post :: "graph \<Rightarrow> graph \<Rightarrow> bool" where
  "evict_post g g' \<longleftrightarrow> graph_wf g' \<and> g_max_processes g' = g_max_processes g
     \<and> g_retain_ns g' = g_retain_ns g
     \<and> graph_len g' = min (graph_len g) (g_max_processes g)
     \<and> (\<forall>k. life g' k = None \<or> life g' k = life g k)
     \<and> (\<forall>k j n m. life g k = Some n \<longrightarrow> life g' k = None \<longrightarrow> life g' j = Some m \<longrightarrow> drop_before n m)"

lemma evict_spec: "graph_wf g \<Longrightarrow> \<exists>g'. evict g = Some g' \<and> evict_post g g'"
proof (induction "graph_len g" arbitrary: g rule: less_induct)
  case less
  show ?case
  proof (cases "graph_len g > g_max_processes g")
    case False
    then have "evict g = Some g" by (simp add: evict.simps)
    then show ?thesis using less.prems False by (auto simp: evict_post_def simp del: life_None)
  next
    case True
    then have "g_nodes g \<noteq> []" by (auto simp: graph_len_def hm_len_def)
    then obtain v n where v: "victim g = Some v" "graph_get g v = Some n"
      and least: "\<And>k m. graph_get g k = Some m \<Longrightarrow> drop_before n m"
      using victim_spec [OF less.prems] by blast
    let ?h = "evict_one v g"
    have h: "graph_wf ?h" "Suc (graph_len ?h) = graph_len g" "g_max_processes ?h = g_max_processes g"
      "g_retain_ns ?h = g_retain_ns g" "\<And>k. life ?h k = (if k = v then None else life g k)"
      using len_remove_node [OF less.prems, of v] v(2) less.prems
      by (simp_all add: evict_one_def remove_node_wf life_remove_node) (simp_all add: graph_len_def)
    obtain g' where g': "evict ?h = Some g'" "evict_post ?h g'" using less.hyps [OF _ h(1)] h(2) by auto
    have "evict g = Some g'" using True v(1) g'(1) by (subst evict.simps) simp
    moreover have "evict_post g g'"
    proof -
      have "drop_before a m" if "life g k = Some a" "life g' k = None" "life g' j = Some m" for k j a m
      proof (cases "k = v")
        case True
        have "life ?h j = Some m" using g'(2) that(3) unfolding evict_post_def by (metis option.distinct(1))
        then have "life g j = Some m" using h(5) [of j] by (simp split: if_splits)
        then obtain m0 where "graph_get g j = Some m0" "m = node_facts m0" by (auto simp: life_def)
        then show ?thesis using least that(1) True v(2) by (auto simp: life_def)
      next
        case False
        then show ?thesis using g'(2) that h(5) unfolding evict_post_def by (metis (full_types))
      qed
      moreover have "life g' k = None \<or> life g' k = life g k" for k
        using g'(2) h(5) unfolding evict_post_def by metis
      ultimately show ?thesis using g'(2) h True unfolding evict_post_def by auto
    qed
    ultimately show ?thesis by blast
  qed
qed

section \<open>The graph as a state machine\<close>

text \<open>
  One operation on the graph. Between operations the tables may be reordered, because the iteration
  order of a \<^verbatim>\<open>HashMap\<close> is unspecified.
\<close>

inductive graph_step :: "graph \<Rightarrow> graph \<Rightarrow> bool" where
  step_apply: "fork_ok ev \<Longrightarrow> graph_step g (apply_event ev g)"
| step_scan: "scan_ok n g \<Longrightarrow> graph_step g (insert_scanned n g)"
| step_link: "graph_step g (link_scanned edges g)"
| step_mnt_ns: "graph_step g (set_host_mnt_ns inum g)"
| step_reap: "reap now g = Some g' \<Longrightarrow> graph_step g g'"
| step_reorder: "mset ns = mset (g_nodes g) \<Longrightarrow> mset ps = mset (g_by_pid g) \<Longrightarrow>
    graph_step g (g\<lparr>g_nodes := ns, g_by_pid := ps\<rparr>)"

inductive_cases graph_stepE: "graph_step g g'"

definition graph_init :: "graph \<Rightarrow> bool" where
  "graph_init g \<longleftrightarrow> (\<exists>mx retain. g = graph_new mx retain)"

lemma reorder_get: "mset xs = mset ys \<Longrightarrow> hm_ok ys \<Longrightarrow> hm_ok xs \<and> hm_get xs = hm_get ys"
proof -
  assume m: "mset xs = mset ys" and ok: "hm_ok ys"
  have "mset (map fst xs) = mset (map fst ys)" using m by simp
  then have "distinct (map fst xs)" using ok by (metis hm_ok_def mset_eq_imp_distinct_iff)
  moreover have "set xs = set ys" using m by (metis set_mset_mset)
  ultimately show ?thesis using ok map_of_inject_set [of xs ys] by (auto simp: hm_ok_def hm_get_def)
qed

lemma reap_spec:
  assumes "graph_wf g"
  shows "\<exists>g'. reap now g = Some g' \<and> evict_post (reap_expired now g) g'"
  using evict_spec [OF reap_expired_spec(1) [OF assms]] by (simp add: reap_def)

lemma graph_step_wf: "graph_wf g \<Longrightarrow> graph_step g g' \<Longrightarrow> graph_wf g'"
proof (erule graph_stepE)
  fix now assume wf: "graph_wf g" and "reap now g = Some g'"
  then show "graph_wf g'" using reap_spec [OF wf, of now] by (auto simp: evict_post_def)
next
  fix ns ps assume wf: "graph_wf g" and m: "mset ns = mset (g_nodes g)" "mset ps = mset (g_by_pid g)"
    and g': "g' = g\<lparr>g_nodes := ns, g_by_pid := ps\<rparr>"
  have "graph_get g' = graph_get g" "hm_get (g_by_pid g') = hm_get (g_by_pid g)"
    "hm_ok (g_nodes g')" "hm_ok (g_by_pid g')"
    using reorder_get [OF m(1)] reorder_get [OF m(2)] wf_ok [OF wf] by (simp_all add: g' graph_get_def fun_eq_iff)
  then show "graph_wf g'" using wf by (simp add: graph_wf_def node_ok_def)
qed (simp_all add: apply_event_wf insert_scanned_wf link_scanned_wf set_host_mnt_ns_def)

interpretation gr: bounded_store graph_init graph_step graph_wf graph_len g_max_processes reap
proof unfold_locales
  fix g now g' assume wf: "graph_wf g" and r: "reap now g = Some g'"
  note post = reap_spec [OF wf, of now]
  from post r show "graph_wf g'" by (auto simp: evict_post_def)
  from post r show "graph_len g' \<le> g_max_processes g'" by (auto simp: evict_post_def)
next
  fix g now assume "graph_wf g"
  then show "\<exists>g'. reap now g = Some g'" using reap_spec by blast
qed (use graph_new_wf graph_step_wf in \<open>auto simp: graph_init_def\<close>)

text \<open>
  C10 (invariant): Whatever events, scans and reaping a graph has gone through, in whatever hash
  order: every node is stored under its own key and its credential history has at most 64 entries;
  every parent link points to another node of the graph which lists the child; the PID index names
  nodes of that PID.
\<close>

theorem graph_reachable_wf: "graph_step\<^sup>*\<^sup>* (graph_new mx retain) g \<Longrightarrow> graph_wf g"
  by (rule gr.invar_reachable [rotated]) (auto simp: graph_init_def)

text \<open>A fork and an exit of the child, then a reap: events for the witnesses.\<close>

definition blank_event :: event where
  "blank_event = event_from_raw (example_raw 0 [])"

definition fork_event :: "u32 \<Rightarrow> u64 \<Rightarrow> u32 \<Rightarrow> u64 \<Rightarrow> u64 \<Rightarrow> event" where
  "fork_event p ps c cs ts = blank_event\<lparr>ev_type := 3, ev_tgid := p, ev_start_boottime := ps,
     ev_child_pid := c, ev_child_start_boottime := cs, ev_ts_ns := ts\<rparr>"

definition exit_event :: "u32 \<Rightarrow> u64 \<Rightarrow> u64 \<Rightarrow> event" where
  "exit_event p ps ts = blank_event\<lparr>ev_type := 2, ev_tgid := p, ev_start_boottime := ps, ev_ts_ns := ts\<rparr>"

lemmas event_evals = fork_event_def exit_event_def event_type_def event_type_from_def
  ev_key_def ev_child_key_def fork_ok_def

lemma example_step: "graph_step (graph_new 1 5) (apply_event (fork_event 1 0 2 1 10) (graph_new 1 5))"
  by (rule step_apply) (simp add: event_evals)

theorem graph_reachable_wf_witness: "graph_wf (apply_event (fork_event 1 0 2 1 10) (graph_new 1 5))"
  by (rule graph_reachable_wf [OF r_into_rtranclp, OF example_step])

text \<open>
  On a well-formed graph the reaper always returns. The result is well-formed; every
  node it keeps is unchanged but for its edges; no exited node past the retention window is left; the
  cap holds, and no more is evicted than the cap needs; and a node that was evicted although its
  retention had not run out had been dead at least as long as any dead node kept, or, when it was
  alive, then nothing dead is kept and nothing kept started earlier.
\<close>

theorem reap_correct:
  assumes "graph_wf g"
  shows "\<exists>g'. reap now g = Some g' \<and> graph_wf g' \<and> graph_len g' \<le> g_max_processes g
    \<and> graph_len g' = min (graph_len (reap_expired now g)) (g_max_processes g)
    \<and> (\<forall>k. life g' k = None \<or> life g' k = life g k)
    \<and> (\<forall>k n. graph_get g' k = Some n \<longrightarrow> \<not> expired_node now (g_retain_ns g) n)
    \<and> (\<forall>k j n m. graph_get g k = Some n \<longrightarrow> \<not> expired_node now (g_retain_ns g) n \<longrightarrow>
         graph_get g' k = None \<longrightarrow> graph_get g' j = Some m \<longrightarrow> drop_before n m)"
proof -
  note ex = reap_expired_spec [OF assms, of now]
  obtain g' where g': "reap now g = Some g'" and post: "evict_post (reap_expired now g) g'"
    using reap_spec [OF assms] by blast
  have keep: "life g' k = None \<or> life g' k = life (reap_expired now g) k" for k
    using post unfolding evict_post_def by blast
  have life: "life g' k = None \<or> life g' k = life g k \<and> \<not> expired_node now (g_retain_ns g) (the (graph_get g k))" for k
    using keep [of k] ex(4) [of k] unfolding life_def by (auto split: option.splits if_splits)
  have kept: "\<not> expired_node now (g_retain_ns g) n" if n: "graph_get g' k = Some n" for k n
  proof -
    have "life g' k = Some (node_facts n)" using n by (simp add: life_def)
    then obtain m where "graph_get g k = Some m" "node_facts m = node_facts n"
      "\<not> expired_node now (g_retain_ns g) m"
      using life [of k] by (cases "graph_get g k") (auto simp: life_def)
    then show ?thesis using node_facts_eq [of m n] by (simp add: expired_node_def)
  qed
  have order: "drop_before n m" if "graph_get g k = Some n" "\<not> expired_node now (g_retain_ns g) n"
    "graph_get g' k = None" "graph_get g' j = Some m" for k j n m
  proof -
    have "life (reap_expired now g) k = Some (node_facts n)" using that ex(4) by simp
    moreover have "life g' k = None" "life g' j = Some (node_facts m)" using that by (simp_all add: life_def)
    ultimately have "drop_before (node_facts n) (node_facts m)" using post unfolding evict_post_def by blast
    then show ?thesis by simp
  qed
  show ?thesis
    using g' post ex(2) life kept order unfolding evict_post_def by (intro exI [of _ g']) auto
qed

text \<open>
  An event changes only the process it names: any other process keeps all of its
  recorded facts (names, arguments, credentials, trust, exit), even one with the same PID, unless it
  is a live process found by the start-up scan, with the event's PID and a start time within two clock
  ticks, which is the very process the event is about.
\<close>

theorem apply_event_changes_only_subject:
  assumes "graph_wf g" and "graph_get g k = Some n"
    and "k \<noteq> ev_key ev" and "event_type ev = Fork \<longrightarrow> k \<noteq> ev_child_key ev"
  shows "(\<exists>n'. graph_get (apply_event ev g) k = Some n' \<and> node_facts n' = node_facts n)
    \<or> (alive n \<and> pn_origin n = Scanned \<and> pk_pid k = ev_tgid ev
       \<and> abs_diff (ev_start_boottime ev) (pk_start k) \<le> SCAN_START_TOLERANCE_NS
       \<and> graph_get g (ev_key ev) = None)"
proof (cases "adoptable (ev_tgid ev) (ev_start_boottime ev) g k")
  case True
  then show ?thesis using assms(2) wf_pid [OF assms(1)] by (auto simp: adoptable_def ev_key_def)
next
  case False
  from life_apply_event [OF assms(3,4) this] show ?thesis using assms(2) by (auto simp: life_def)
qed

lemmas graph_evals = event_evals apply_event_def on_fork_def on_exec_def on_exit_def on_cred_def
  resolve_def ensure_def modify_node_def graph_get_def hm_entry_def hm_modify_def hm_get_def
  hm_insert_def hm_remove_def hm_empty_def graph_new_def node_new_def graph_len_def hm_len_def

definition example_graph :: graph where
  "example_graph = apply_event (fork_event 1 0 200 100 10) (graph_new 1 5)"

lemma example_graph_wf: "graph_wf example_graph"
  unfolding example_graph_def by (rule apply_event_wf [OF graph_new_wf]) (simp add: event_evals)

lemma example_graph_facts: "graph_len example_graph = 2" "g_max_processes example_graph = 1"
  "\<exists>n. graph_get example_graph (ProcKey 200 100) = Some n" "graph_get example_graph (ProcKey 200 900) = None"
  by (simp_all add: example_graph_def graph_evals Let_def)

theorem reap_correct_witness:
  "graph_len example_graph = 2 \<and> (\<exists>g'. reap 7 example_graph = Some g' \<and> graph_len g' \<le> 1)"
  using reap_correct [OF example_graph_wf, of 7] example_graph_facts by auto

theorem apply_event_changes_only_subject_witness:
  "\<exists>n n'. graph_get example_graph (ProcKey 200 100) = Some n
     \<and> graph_get (apply_event (exit_event 200 900 50) example_graph) (ProcKey 200 100) = Some n'
     \<and> node_facts n' = node_facts n"
proof -
  obtain n where n: "graph_get example_graph (ProcKey 200 100) = Some n" using example_graph_facts(3) ..
  moreover have "pn_origin n = Observed"
    using n by (auto simp: example_graph_def graph_evals Let_def fork_child_def set_container_def
        set_comm_if_empty_def)
  ultimately show ?thesis
    using apply_event_changes_only_subject [OF example_graph_wf n, of "exit_event 200 900 50"]
    by (auto simp: event_evals)
qed

text \<open>
  A process the start-up scan found under a start time rounded to clock ticks is
  recognised when a sensor reports its exact start time. It moves to the exact key with everything
  recorded about it, the graph does not grow, and its children follow.
\<close>

theorem scanned_process_adopted:
  assumes wf: "graph_wf g" and ad: "adoptable pid st g k" and n: "graph_get g k = Some n"
    and g': "g' = snd (resolve pid st g)"
  shows "graph_get g' (ProcKey pid st) = Some (n\<lparr>pn_key := ProcKey pid st, pn_origin := Observed\<rparr>)
    \<and> graph_get g' k = None \<and> graph_len g' = graph_len g
    \<and> (\<forall>c m. graph_get g c = Some m \<longrightarrow> pn_parent m = Some k \<longrightarrow>
         (\<exists>m'. graph_get g' c = Some m' \<and> pn_parent m' = Some (ProcKey pid st)))"
proof -
  let ?x = "ProcKey pid st"
  have to: "graph_get g ?x = None" using ad by (simp add: adoptable_def)
  have ne: "k \<noteq> ?x" using to n by auto
  have "\<exists>j. adoptable pid st g j \<and> g' = (rekey j ?x g)\<lparr>g_adopted := g_adopted (rekey j ?x g) + 1\<rparr>"
    using ad g' by (cases rule: resolve_cases [of pid st g]) auto
  then have g'k: "g' = (rekey k ?x g)\<lparr>g_adopted := g_adopted (rekey k ?x g) + 1\<rparr>"
    using ad by (auto simp: adoptable_def)
  have ok: "hm_ok (hm_remove k (g_nodes g))" using wf_ok(1) [OF wf] by simp
  note nd = n [unfolded graph_get_def]
  have "graph_len g' = graph_len g"
    using hm_len_remove [OF wf_ok(1) [OF wf], of k] nd to ne ok_fold_modify [OF ok]
      ok_fold_modify [OF hm_ok_modify [OF ok]] ok
    by (auto simp: g'k rekey_def graph_len_def graph_get_def Let_def hm.len_insert get_fold_modify
        split: option.splits)
  moreover have "\<exists>m'. graph_get g' c = Some m' \<and> pn_parent m' = Some ?x"
    if c: "graph_get g c = Some m" "pn_parent m = Some k" for c m
  proof -
    have "c \<in> set (pn_children n)" "c \<noteq> k" "c \<noteq> ?x" using wf_parent [OF wf c] n c(1) to by auto
    then show ?thesis using c by (simp add: g'k get_rekey [OF n])
  qed
  ultimately show ?thesis using ne by (simp add: g'k get_rekey [OF n])
qed

definition scanned_graph :: graph where
  "scanned_graph = insert_scanned (node_new (ProcKey 500 10000000) Scanned) (graph_new 10 5)"

lemma scanned_graph_facts: "graph_wf scanned_graph" "graph_len scanned_graph = 1"
  "graph_get scanned_graph (ProcKey 500 10000000) = Some (node_new (ProcKey 500 10000000) Scanned)"
  "adoptable 500 10004321 scanned_graph (ProcKey 500 10000000)"
  unfolding scanned_graph_def
     apply (rule insert_scanned_wf [OF graph_new_wf])
     apply (simp_all add: scan_ok_def adoptable_def insert_scanned_def graph_evals alive_def
        abs_diff_def SCAN_START_TOLERANCE_NS_def)
  done

theorem scanned_process_adopted_witness:
  "graph_len (snd (resolve 500 10004321 scanned_graph)) = 1
   \<and> graph_get (snd (resolve 500 10004321 scanned_graph)) (ProcKey 500 10004321) \<noteq> None"
  using scanned_process_adopted [OF scanned_graph_facts(1,4,3) refl] scanned_graph_facts(2) by simp

section \<open>Walking the graph\<close>

fun parent_chain :: "proc_node list \<Rightarrow> bool" where
  "parent_chain [] = True"
| "parent_chain [n] = True"
| "parent_chain (n # m # ns) \<longleftrightarrow> pn_parent n = Some (pn_key m) \<and> parent_chain (m # ns)"

lemma ancestry_go_chain:
  assumes wf: "graph_wf g"
  shows "length (ancestry_go i g cur) \<le> i \<and> parent_chain (ancestry_go i g cur)
    \<and> (\<forall>n ns. ancestry_go i g cur = n # ns \<longrightarrow> cur = Some (pn_key n)
         \<and> (length (n # ns) < i \<longrightarrow> pn_parent (last (n # ns)) = None))"
proof (induction i arbitrary: cur)
  case (Suc i)
  show ?case
  proof (cases "cur = None \<or> graph_get g (the cur) = None")
    case False
    then obtain k n where k: "cur = Some k" "graph_get g k = Some n" by auto
    note IH = Suc [of "pn_parent n"]
    show ?thesis
    proof (cases "ancestry_go i g (pn_parent n)")
      case Nil
      have "pn_parent n = None" if "1 < Suc i"
      proof (rule ccontr)
        assume "pn_parent n \<noteq> None"
        then obtain p m where "pn_parent n = Some p" "graph_get g p = Some m"
          using wf_parent [OF wf k(2)] by auto
        then show False using Nil that by (cases i) auto
      qed
      then show ?thesis using k Nil wf_key [OF wf k(2)] by simp
    next
      case (Cons m ms)
      then show ?thesis using k IH wf_key [OF wf k(2)] by auto
    qed
  next
    case True
    then show ?thesis by (cases cur) auto
  qed
qed simp

text \<open>
  The ancestry of a process starts at that process and follows parent links; it has
  at most 64 entries, and one shorter than that ends at a process without a parent.
\<close>

theorem ancestry_correct:
  assumes "graph_wf g" and "graph_get g k = Some n"
  shows "hd (ancestry g k) = n \<and> ancestry g k \<noteq> [] \<and> length (ancestry g k) \<le> 64
    \<and> parent_chain (ancestry g k)
    \<and> (length (ancestry g k) < 64 \<longrightarrow> pn_parent (last (ancestry g k)) = None)"
proof -
  have "ancestry g k = n # ancestry_go 63 g (pn_parent n)"
    using assms(2) by (simp add: ancestry_def eval_nat_numeral)
  moreover note ancestry_go_chain [OF assms(1), of 64 "Some k"]
  ultimately show ?thesis by (simp add: ancestry_def)
qed

theorem ancestry_correct_witness:
  "ancestry example_graph (ProcKey 200 100) \<noteq> [] \<and> length (ancestry example_graph (ProcKey 200 100)) \<le> 64"
  using example_graph_facts(3) ancestry_correct [OF example_graph_wf] by auto

text \<open>
  The tree shown to the user is the graph. Exactly the processes without a parent
  are roots, and every other process appears among the children of its parent; both lists are sorted.
\<close>

theorem tree_display:
  assumes "graph_wf g" and "graph_get g k = Some n"
  shows "(k \<in> set (roots g) \<longleftrightarrow> pn_parent n = None)
    \<and> (\<forall>p. pn_parent n = Some p \<longrightarrow> k \<in> set (children_of g p))
    \<and> sorted (roots g) \<and> sorted (children_of g k)"
proof -
  have "k \<in> set (roots g) \<longleftrightarrow> (\<exists>m. graph_get g k = Some m \<and>
      (case pn_parent m of None \<Rightarrow> True | Some p \<Rightarrow> graph_get g p = None))"
    unfolding roots_def set_sort by (rule expired_keys [OF assms(1)])
  moreover have "graph_get g p \<noteq> None" if "pn_parent n = Some p" for p
    using wf_parent [OF assms that] by auto
  ultimately have "k \<in> set (roots g) \<longleftrightarrow> pn_parent n = None"
    using assms(2) by (auto split: option.splits)
  moreover have "k \<in> set (children_of g p)" if "pn_parent n = Some p" for p
    using wf_parent [OF assms that] assms(2) by (auto simp: children_of_def)
  ultimately show ?thesis by (simp add: roots_def children_of_def)
qed

theorem tree_display_witness: "ProcKey 200 100 \<in> set (children_of example_graph (ProcKey 1 0))"
proof -
  obtain n where n: "graph_get example_graph (ProcKey 200 100) = Some n" using example_graph_facts(3) ..
  moreover have "pn_parent n = Some (ProcKey 1 0)"
    using n by (auto simp: example_graph_def graph_evals Let_def fork_child_def set_container_def
        set_comm_if_empty_def)
  ultimately show ?thesis using tree_display [OF example_graph_wf n] by blast
qed

end
