(* ===== verification/Detectors.thy ===== *)
theory Detectors
  imports Score Graph_Inv
begin

text \<open>
  The built-in detections (\<^verbatim>\<open>src/detect/detectors.rs\<close>): each maps one event, with the graph
  as it is after the event, to zero or more signals.
\<close>

section \<open>The detections\<close>

definition DANGEROUS_CAPS :: u64 where
  "DANGEROUS_CAPS = or (push_bit 21 1) (or (push_bit 16 1) (or (push_bit 19 1) (or (push_bit 39 1) (push_bit 2 1))))"

definition suid_create :: "event \<Rightarrow> proc_key \<Rightarrow> signal list" where
  "suid_create ev k = [with_target (ev_filename ev)
     (signal_new ''suid_create'' 45 [''T1548.001''] k (ev_ts_ns ev)
        (''created a new '' @ gained_bits ev @ '' binary '' @ ev_filename ev))]"

definition fileless_exec :: "event \<Rightarrow> proc_key \<Rightarrow> signal list" where
  "fileless_exec ev k = [with_target (''/proc/'' @ show_word (pk_pid k) @ ''/exe'')
     (signal_new ''fileless_exec'' 45 [''T1620''] k (ev_ts_ns ev)
        (''executed from '' @ exec_source ev @ '' ('' @ ev_filename ev @ '')''))]"

definition privilege_escalation :: "event \<Rightarrow> proc_key \<Rightarrow> signal list" where
  "privilege_escalation ev k =
     (let already_root = ev_uid ev = 0;
          to_root = \<not> already_root \<and> ev_old_euid ev \<noteq> 0 \<and> ev_euid ev = 0;
          gained = (if already_root then 0
                    else and (and (ev_cap_effective ev) (not (ev_old_cap_effective ev))) DANGEROUS_CAPS)
      in if \<not> to_root \<and> gained = 0 then []
         else
           let detail = (if to_root then ''changed euid '' @ show_word (ev_old_euid ev) @ '' -> 0'' else []);
               detail = (if gained \<noteq> 0 then
                  (if detail \<noteq> [] then detail @ ''; '' else detail) @ ''gained '' @ join '','' (cap_names gained)
                  else detail)
           in [signal_new ''privilege_escalation'' 40 [''T1068''] k (ev_ts_ns ev) detail])"

definition setcap :: "event \<Rightarrow> proc_key \<Rightarrow> signal list" where
  "setcap ev k = [with_target (ev_filename ev)
     (signal_new ''setcap'' 40 [''T1548''] k (ev_ts_ns ev)
        (''set file capabilities on '' @ ev_filename ev))]"

definition ptrace :: "event \<Rightarrow> proc_key \<Rightarrow> graph \<Rightarrow> signal list" where
  "ptrace ev k g =
     (if ptrace_is_attach ev then
        [signal_new ''ptrace_attach'' 30 [''T1055.008''] k (ev_ts_ns ev)
           (''ptrace-attached to pid '' @ show_word (ev_target_pid ev))]
      else if list_ex (\<lambda>n. pk_pid (pn_key n) = ev_target_pid ev) (ancestry g k) then []
      else
        [signal_new ''cross_uid_proc_read'' 25 [''T1003'', ''T1552''] k (ev_ts_ns ev)
           (''read an unrelated process's memory (pid '' @ show_word (ev_target_pid ev) @ '')'')])"

definition node_trusted :: "graph \<Rightarrow> proc_key \<Rightarrow> string" where
  "node_trusted g k = (case graph_get g k of None \<Rightarrow> [] | Some n \<Rightarrow> pn_trusted n)"

definition credential_read :: "event \<Rightarrow> proc_key \<Rightarrow> graph \<Rightarrow> signal list" where
  "credential_read ev k g =
     (if has_role (node_trusted g k) CredentialReader then []
      else
        let (sc, i, what) =
          (if contains ''ssh_host_'' (ev_filename ev) \<or> contains ''/.ssh/id_'' (ev_filename ev)
           then (35, ''ssh_private_key_read'', ''an SSH private key'')
           else (30, ''credential_store_read'', ''the credential store''))
        in [with_target (ev_filename ev)
              (signal_new i sc [''T1003.008'', ''T1552.004''] k (ev_ts_ns ev)
                 (''read '' @ what @ '': '' @ ev_filename ev))])"

definition HATCHES :: "string list" where
  "HATCHES = [''/proc/sys/kernel/core_pattern'', ''/proc/sys/kernel/modprobe'',
     ''/proc/sys/kernel/poweroff_cmd'', ''/sys/kernel/uevent_helper'',
     ''/proc/sys/fs/binfmt_misc/register'', ''release_agent'']"

definition is_kernel_escape_hatch :: "string \<Rightarrow> bool" where
  "is_kernel_escape_hatch path = list_ex (\<lambda>h. contains h path) HATCHES"

definition AT_LOGIN :: "string list" where
  "AT_LOGIN = [''/etc/ld.so.conf'', ''/etc/profile'', ''/etc/bash.bashrc'', ''/etc/environment'',
     ''/etc/update-motd.d/'']"

definition runs_at_login :: "string \<Rightarrow> bool" where
  "runs_at_login path = list_ex (\<lambda>p. starts_with p path) AT_LOGIN"

definition sensitive_write :: "event \<Rightarrow> proc_key \<Rightarrow> signal list" where
  "sensitive_write ev k =
     (let f = ev_filename ev in
      if ev_escape_target ev \<or> is_kernel_escape_hatch f then
        let outcome = (if ev_denied ev then ''BLOCKED: ''
                       else if ev_would_deny ev then ''would be blocked: '' else []);
            (sc, detail) =
              (if ev_container ev = [] then
                 (45, ''wrote '' @ f @ '', which the kernel executes as root'')
               else
                 (75, outcome @ ''container '' @ ev_container ev @ '' wrote '' @ f
                      @ '', which the kernel executes as root on the host (escape)''))
        in [with_target f (signal_new ''kernel_escape_hatch_write'' sc [''T1611'', ''T1543''] k (ev_ts_ns ev) detail)]
      else
        let (sc, i) =
          (if contains ''ld.so.preload'' f then (40, ''ldso_preload_write'')
           else if contains ''authorized_keys'' f then (35, ''authorized_keys_write'')
           else if contains ''/etc/cron'' f \<or> contains ''systemd'' f \<or> runs_at_login f
             then (30, ''persistence_write'')
           else if contains ''sudoers'' f \<or> contains ''/etc/shadow'' f \<or> contains ''/etc/pam.'' f
             then (35, ''cred_config_write'')
           else (20, ''sensitive_write''))
        in [signal_new i sc [''T1543'', ''T1098''] k (ev_ts_ns ev) (''wrote to '' @ f)])"

definition kernel_initiated :: "graph \<Rightarrow> proc_key \<Rightarrow> bool" where
  "kernel_initiated g k =
     list_ex (\<lambda>n. pn_comm n = ''kthreadd'' \<or> starts_with ''kworker/'' (pn_comm n)) (ancestry g k)"

definition module_load :: "event \<Rightarrow> proc_key \<Rightarrow> graph \<Rightarrow> signal list" where
  "module_load ev k g =
     (if kernel_initiated g k then
        [with_target (ev_filename ev)
           (signal_new ''module_autoload'' 10 [''T1547.006''] k (ev_ts_ns ev)
              (''kernel autoloaded module '' @ ev_filename ev @ '' on demand (request_module)''))]
      else
        [with_target (ev_filename ev)
           (signal_new ''module_load'' 50 [''T1547.006''] k (ev_ts_ns ev)
              (''loaded kernel module '' @ ev_filename ev))])"

definition namespace_escape :: "event \<Rightarrow> proc_key \<Rightarrow> graph \<Rightarrow> signal list" where
  "namespace_escape ev k g =
     (let host = g_host_mnt_ns g in
      if host = 0 \<or> ev_mnt_ns ev = 0 \<or> ev_container ev = [] then []
      else if ev_mnt_ns ev \<noteq> host then []
      else [with_target (ev_filename ev)
              (signal_new ''namespace_escape'' 70 [''T1611''] k (ev_ts_ns ev)
                 (''container '' @ ev_container ev
                  @ '' is executing in the host mount namespace (mnt_ns '' @ show_word host @ '')''))])"

definition exec_from_suspicious_dir :: "event \<Rightarrow> proc_key \<Rightarrow> graph \<Rightarrow> signal list" where
  "exec_from_suspicious_dir ev k g =
     (let f = ev_filename ev in
      if starts_with ''/tmp/'' f \<or> starts_with ''/dev/shm/'' f \<or> starts_with ''/var/tmp/'' f then
        [with_target f
           (signal_new ''exec_from_tmp'' 20 [''T1036''] k (ev_ts_ns ev)
              (''executed from a volatile directory: '' @ f))]
      else [])"

definition shell_name :: "string \<Rightarrow> string" where
  "shell_name path = rsplit_last (CHR ''/'') path"

definition is_shell :: "string \<Rightarrow> bool" where
  "is_shell path \<longleftrightarrow> shell_name path \<in> set
     [''sh'', ''bash'', ''dash'', ''zsh'', ''ash'', ''ksh'', ''fish'', ''csh'', ''tcsh'']"

definition is_interpreter :: "string \<Rightarrow> bool" where
  "is_interpreter path =
     (let name = shell_name path in
      if name \<in> set [''node'', ''nodejs'', ''lua'', ''tclsh'', ''awk'', ''gawk'', ''mawk''] then True
      else list_ex (\<lambda>stem. case strip_prefix stem name of None \<Rightarrow> False
             | Some rest \<Rightarrow> list_all (\<lambda>c. is_ascii_digit c \<or> c = CHR ''.'') rest)
           [''python'', ''perl'', ''ruby'', ''php''])"

definition daemon_ancestor :: "graph \<Rightarrow> proc_key \<Rightarrow> proc_node option" where
  "daemon_ancestor g k =
     find (\<lambda>n. has_role (pn_trusted n) NetworkDaemon \<or> name_looks_like_daemon (pn_comm n)) (ancestry g k)"

definition shell_from_network_daemon :: "event \<Rightarrow> proc_key \<Rightarrow> graph \<Rightarrow> signal list" where
  "shell_from_network_daemon ev k g =
     (case (if is_shell (ev_filename ev)
            then Some (''shell_from_network_daemon'', 50, ''a shell'', [''T1059.004''])
            else if is_interpreter (ev_filename ev)
            then Some (''interpreter_from_network_daemon'', 25, ''an interpreter'', [''T1059''])
            else None) of
        None \<Rightarrow> []
      | Some (i, sc, what, att) \<Rightarrow>
          (case daemon_ancestor g k of
             None \<Rightarrow> []
           | Some n \<Rightarrow>
               let who = (if pn_trusted n = [] then pn_comm n else pn_trusted n);
                   d = who @ ''('' @ show_word (pk_pid (pn_key n)) @ '')''
               in [signal_new i sc att k (ev_ts_ns ev)
                     (d @ '' spawned '' @ what @ '' ('' @ shell_name (ev_filename ev) @ '')'')]))"

definition socket_backed_shell :: "event \<Rightarrow> proc_key \<Rightarrow> signal list" where
  "socket_backed_shell ev k =
     (if \<not> ev_socket_stdio ev \<or> \<not> is_shell (ev_filename ev) then []
      else [signal_new ''socket_backed_shell'' 70 [''T1059.004'', ''T1571''] k (ev_ts_ns ev)
              (shell_name (ev_filename ev)
               @ '' was exec'd with a network socket on its standard descriptors (reverse shell)'')])"

definition unexpected_listener :: "event \<Rightarrow> proc_key \<Rightarrow> graph \<Rightarrow> signal list" where
  "unexpected_listener ev k g =
     (if has_role (node_trusted g k) NetworkDaemon then []
      else
        let who = (case graph_get g k of None \<Rightarrow> ev_comm ev
                   | Some n \<Rightarrow> if pn_exe n \<noteq> [] then pn_exe n else ev_comm ev)
        in [signal_new ''unexpected_listener'' 25 [''T1571''] k (ev_ts_ns ev)
              (shell_name who @ '' opened a listening port ('' @ show_word (ev_aux ev) @ '')'')])"

definition privileged_socket :: "event \<Rightarrow> proc_key \<Rightarrow> signal list" where
  "privileged_socket ev k =
     (let (sc, detail) =
        (if ev_container ev = [] then
           (25, ''connected to the container runtime socket '' @ ev_filename ev)
         else
           (60, ''container '' @ ev_container ev @ '' connected to the host runtime socket ''
                @ ev_filename ev @ '' (escape primitive)''))
      in [signal_new ''runtime_socket_access'' sc [''T1611''] k (ev_ts_ns ev) detail])"

definition detect :: "event \<Rightarrow> graph \<Rightarrow> signal list" where
  "detect ev g =
     (let k = ev_key ev in
      case event_type ev of
        FileMode \<Rightarrow> suid_create ev k
      | ExecAnon \<Rightarrow> fileless_exec ev k
      | CredChange \<Rightarrow> privilege_escalation ev k
      | Setcap \<Rightarrow> setcap ev k
      | Ptrace \<Rightarrow> ptrace ev k g
      | FileOpen \<Rightarrow> if opened_for_write ev then sensitive_write ev k else credential_read ev k g
      | Module \<Rightarrow> module_load ev k g
      | SockConnect \<Rightarrow> privileged_socket ev k
      | SockListen \<Rightarrow> unexpected_listener ev k g
      | Exec \<Rightarrow> namespace_escape ev k g @ exec_from_suspicious_dir ev k g
          @ shell_from_network_daemon ev k g @ socket_backed_shell ev k
      | _ \<Rightarrow> [])"

section \<open>Signals of one event\<close>

lemma signal_new_sel [simp]:
  "s_id (signal_new i sc att k ts d) = i" "s_score (signal_new i sc att k ts d) = sc"
  "s_key (signal_new i sc att k ts d) = k" "s_ts_ns (signal_new i sc att k ts d) = ts"
  "s_attack (signal_new i sc att k ts d) = att" "s_detail (signal_new i sc att k ts d) = d"
  by (simp_all add: signal_new_def)

lemma with_target_sel [simp]:
  "s_id (with_target p s) = s_id s" "s_score (with_target p s) = s_score s"
  "s_key (with_target p s) = s_key s" "s_ts_ns (with_target p s) = s_ts_ns s"
  "s_attack (with_target p s) = s_attack s" "s_detail (with_target p s) = s_detail s"
  by (simp_all add: with_target_def)

lemmas detector_defs = suid_create_def fileless_exec_def privilege_escalation_def setcap_def ptrace_def
  credential_read_def sensitive_write_def module_load_def namespace_escape_def
  exec_from_suspicious_dir_def shell_from_network_daemon_def socket_backed_shell_def
  unexpected_listener_def privileged_socket_def

text \<open>What every detection promises about each of its signals.\<close>

definition about :: "proc_key \<Rightarrow> u64 \<Rightarrow> signal list \<Rightarrow> bool" where
  "about k ts ss \<longleftrightarrow> list_all (\<lambda>s. s_key s = k \<and> s_ts_ns s = ts \<and> s_attack s \<noteq> []
     \<and> 10 \<le> s_score s \<and> s_score s \<le> 75) ss \<and> length ss \<le> 1"

lemma about_detectors:
  "about k (ev_ts_ns ev) (suid_create ev k)" "about k (ev_ts_ns ev) (fileless_exec ev k)"
  "about k (ev_ts_ns ev) (privilege_escalation ev k)" "about k (ev_ts_ns ev) (setcap ev k)"
  "about k (ev_ts_ns ev) (ptrace ev k g)" "about k (ev_ts_ns ev) (credential_read ev k g)"
  "about k (ev_ts_ns ev) (sensitive_write ev k)" "about k (ev_ts_ns ev) (module_load ev k g)"
  "about k (ev_ts_ns ev) (namespace_escape ev k g)" "about k (ev_ts_ns ev) (exec_from_suspicious_dir ev k g)"
  "about k (ev_ts_ns ev) (socket_backed_shell ev k)" "about k (ev_ts_ns ev) (unexpected_listener ev k g)"
  "about k (ev_ts_ns ev) (privileged_socket ev k)"
  by (simp_all add: about_def detector_defs Let_def)

lemma about_shell: "about k (ev_ts_ns ev) (shell_from_network_daemon ev k g)"
  by (simp add: about_def shell_from_network_daemon_def Let_def split: option.split)

lemma about_le1: "about k ts ss \<Longrightarrow> length ss \<le> 1 \<and> (\<forall>s \<in> set ss. s_key s = k \<and> s_ts_ns s = ts
    \<and> s_attack s \<noteq> [] \<and> 10 \<le> s_score s \<and> s_score s \<le> 75)"
  by (auto simp: about_def list_all_iff)

lemmas about_len = about_detectors [THEN about_le1, THEN conjunct1] about_shell [THEN about_le1, THEN conjunct1]
lemmas about_each = about_detectors [THEN about_le1, THEN conjunct2] about_shell [THEN about_le1, THEN conjunct2]

lemma exec_ids:
  "set (map s_id (namespace_escape ev k g)) \<subseteq> {''namespace_escape''}"
  "set (map s_id (exec_from_suspicious_dir ev k g)) \<subseteq> {''exec_from_tmp''}"
  "set (map s_id (shell_from_network_daemon ev k g)) \<subseteq> {''shell_from_network_daemon'', ''interpreter_from_network_daemon''}"
  "set (map s_id (socket_backed_shell ev k)) \<subseteq> {''socket_backed_shell''}"
  by (auto simp: detector_defs Let_def split: option.splits if_splits)

lemma exec_distinct:
  "distinct (map s_id (namespace_escape ev k g))" "distinct (map s_id (exec_from_suspicious_dir ev k g))"
  "distinct (map s_id (shell_from_network_daemon ev k g))" "distinct (map s_id (socket_backed_shell ev k))"
  by (simp_all add: detector_defs Let_def split: option.split)

lemma distinct_short: "length xs \<le> 1 \<Longrightarrow> distinct xs"
  by (cases xs) auto

lemma distinct_ids_append:
  "distinct xs \<Longrightarrow> distinct ys \<Longrightarrow> set xs \<subseteq> A \<Longrightarrow> set ys \<subseteq> B \<Longrightarrow> A \<inter> B = {} \<Longrightarrow>
   distinct (xs @ ys) \<and> set (xs @ ys) \<subseteq> A \<union> B"
  by auto

lemma exec_signals:
  fixes ev :: event and k :: proc_key and g :: graph
  defines "ss \<equiv> namespace_escape ev k g @ exec_from_suspicious_dir ev k g
     @ shell_from_network_daemon ev k g @ socket_backed_shell ev k"
  shows "length ss \<le> 4 \<and> distinct (map s_id ss)"
proof -
  have 1: "distinct (map s_id (shell_from_network_daemon ev k g @ socket_backed_shell ev k))
    \<and> set (map s_id (shell_from_network_daemon ev k g @ socket_backed_shell ev k)) \<subseteq>
       {''shell_from_network_daemon'', ''interpreter_from_network_daemon''} \<union> {''socket_backed_shell''}"
    unfolding map_append
    by (rule distinct_ids_append [OF exec_distinct(3,4) exec_ids(3,4)]) simp
  have 2: "distinct (map s_id (exec_from_suspicious_dir ev k g @ shell_from_network_daemon ev k g @ socket_backed_shell ev k))
    \<and> set (map s_id (exec_from_suspicious_dir ev k g @ shell_from_network_daemon ev k g @ socket_backed_shell ev k)) \<subseteq>
       {''exec_from_tmp''} \<union> ({''shell_from_network_daemon'', ''interpreter_from_network_daemon''} \<union> {''socket_backed_shell''})"
    unfolding map_append [of _ "exec_from_suspicious_dir ev k g"]
    by (rule distinct_ids_append [OF exec_distinct(2) conjunct1 [OF 1] exec_ids(2) conjunct2 [OF 1]]) simp
  have 3: "distinct (map s_id ss)"
    unfolding ss_def map_append [of _ "namespace_escape ev k g"]
    by (rule conjunct1, rule distinct_ids_append [OF exec_distinct(1) conjunct1 [OF 2] exec_ids(1) conjunct2 [OF 2]]) simp
  have "length (namespace_escape ev k g) \<le> 1" "length (exec_from_suspicious_dir ev k g) \<le> 1"
    "length (shell_from_network_daemon ev k g) \<le> 1" "length (socket_backed_shell ev k) \<le> 1"
    by (rule about_len)+
  then show ?thesis using 3 by (simp add: ss_def)
qed

lemma detect_subject: "s \<in> set (detect ev g) \<Longrightarrow> s_key s = ev_key ev \<and> s_ts_ns s = ev_ts_ns ev
    \<and> s_attack s \<noteq> [] \<and> 10 \<le> s_score s \<and> s_score s \<le> 75"
  by (cases "event_type ev") (auto simp: detect_def Let_def dest: about_each [rule_format] split: if_splits)

text \<open>
  Whatever the event, the built-in detections report at most four signals, with
  distinct ids, all on the process the event names and at the event's time, each with a technique and
  a score between 10 and 75, so that no single built-in signal is ever critical before context.
\<close>

theorem detect_signals:
  "length (detect ev g) \<le> 4 \<and> distinct (map s_id (detect ev g))
   \<and> (\<forall>s \<in> set (detect ev g). s_key s = ev_key ev \<and> s_ts_ns s = ev_ts_ns ev \<and> s_attack s \<noteq> []
        \<and> 10 \<le> s_score s \<and> s_score s \<le> 75 \<and> from_score (s_score s) < Critical)"
proof -
  have one: "length ss \<le> 1 \<Longrightarrow> length ss \<le> 4 \<and> distinct (map s_id ss)" for ss :: "signal list"
    using distinct_short [of "map s_id ss"] by simp
  have "length (detect ev g) \<le> 4 \<and> distinct (map s_id (detect ev g))"
  proof (cases "event_type ev")
    case Exec
    then show ?thesis using exec_signals by (simp add: detect_def Let_def)
  next
    case FileOpen
    then show ?thesis using one [OF about_len(7)] one [OF about_len(6)] by (simp add: detect_def Let_def)
  qed (simp_all add: detect_def Let_def one [OF about_len(1)] one [OF about_len(2)] one [OF about_len(3)]
      one [OF about_len(4)] one [OF about_len(5)] one [OF about_len(8)] one [OF about_len(12)]
      one [OF about_len(13)])
  moreover have "from_score sc < Critical" if "sc \<le> 75" for sc
  proof -
    have "sc \<le> 89" by (rule order_trans [OF that]) simp
    then show ?thesis by (auto simp: from_score_def less_severity_def rank_def)
  qed
  ultimately show ?thesis using detect_subject by blast
qed

definition open_event :: "u32 \<Rightarrow> u64 \<Rightarrow> string \<Rightarrow> u32 \<Rightarrow> event" where
  "open_event p ps path mode = blank_event\<lparr>ev_type := 5, ev_tgid := p, ev_start_boottime := ps,
     ev_filename := path, ev_file_mode := mode\<rparr>"

theorem detect_signals_witness:
  "\<exists>s. detect (open_event 9 9 ''/etc/shadow'' 1) (graph_new 1 5) = [s] \<and> s_key s = ProcKey 9 9 \<and> s_score s \<le> 75"
proof -
  have "length (detect (open_event 9 9 ''/etc/shadow'' 1) (graph_new 1 5)) = Suc 0"
    by (simp add: detect_def credential_read_def node_trusted_def Let_def has_role_def open_event_def event_evals
        opened_for_write_def graph_evals)
  then obtain s where "detect (open_event 9 9 ''/etc/shadow'' 1) (graph_new 1 5) = [s]"
    by (auto simp: length_Suc_conv)
  then show ?thesis using detect_signals [of "open_event 9 9 ''/etc/shadow'' 1" "graph_new 1 5"]
    by (simp add: open_event_def event_evals)
qed



text \<open>
  A write to a file the kernel executes is always reported, whatever path it was
  reached by, with 75 from inside a container and 45 otherwise.
\<close>

theorem escape_hatch_reported:
  assumes "event_type ev = FileOpen" and "opened_for_write ev" and "ev_escape_target ev"
  shows "\<exists>s. detect ev g = [s] \<and> s_id s = ''kernel_escape_hatch_write''
    \<and> s_score s = (if ev_container ev = [] then 45 else 75)
    \<and> (ev_denied ev \<and> ev_container ev \<noteq> [] \<longrightarrow> starts_with ''BLOCKED: '' (s_detail s))"
  using assms by (simp add: detect_def sensitive_write_def Let_def starts_with_def)

theorem escape_hatch_reported_witness:
  "\<exists>s. detect ((open_event 9 9 ''/hostproc/sys/kernel/core_pattern'' 2)\<lparr>ev_escape_target := True,
      ev_container := ''docker:0123456789ab''\<rparr>) (graph_new 1 5) = [s] \<and> s_score s = 75"
  using escape_hatch_reported [of "(open_event 9 9 ''/hostproc/sys/kernel/core_pattern'' 2)\<lparr>ev_escape_target := True,
      ev_container := ''docker:0123456789ab''\<rparr>" "graph_new 1 5"]
  by (auto simp: open_event_def event_evals opened_for_write_def)

text \<open>
  A blocked write to an escape hatch from a process outside any recognised container is
  reported without saying that it was blocked: the outcome is dropped from the detail.
\<close>

theorem blocked_write_not_said:
  assumes "event_type ev = FileOpen" and "opened_for_write ev" and "ev_escape_target ev"
    and "ev_container ev = []"
  shows "map s_detail (detect ev g) = map s_detail (detect (ev\<lparr>ev_denied := \<not> ev_denied ev\<rparr>) g)"
  using assms
  by (simp add: detect_def sensitive_write_def Let_def event_type_def opened_for_write_def)

theorem blocked_write_not_said_witness:
  "map s_detail (detect ((open_event 9 9 ''/x'' 2)\<lparr>ev_escape_target := True, ev_container := [],
      ev_denied := True\<rparr>) (graph_new 1 5)) = [''wrote /x, which the kernel executes as root'']"
proof -
  let ?e = "(open_event 9 9 ''/x'' 2)\<lparr>ev_escape_target := True, ev_container := [], ev_denied := True\<rparr>"
  have e: "event_type ?e = FileOpen" "opened_for_write ?e" "ev_escape_target ?e" "ev_container ?e = []"
    by (simp_all add: open_event_def event_evals opened_for_write_def)
  have "map s_detail (detect (?e\<lparr>ev_denied := \<not> ev_denied ?e\<rparr>) (graph_new 1 5)) = [''wrote /x, which the kernel executes as root'']"
    using e by (simp add: detect_def sensitive_write_def Let_def event_type_def open_event_def opened_for_write_def)
  then show ?thesis using blocked_write_not_said [OF e, of "graph_new 1 5"] by simp
qed

text \<open>
  A credential change is an escalation exactly when the process was not already
  root by its real uid and either its effective uid becomes 0 or it gains a dangerous capability; it is
  then one signal, not two.
\<close>

theorem privilege_escalation_exact:
  assumes "event_type ev = CredChange"
  shows "length (detect ev g) \<le> 1 \<and> (detect ev g \<noteq> [] \<longleftrightarrow> ev_uid ev \<noteq> 0 \<and>
    (ev_old_euid ev \<noteq> 0 \<and> ev_euid ev = 0
     \<or> (\<exists>b \<in> {2, 16, 19, 21, 39}. bit (ev_cap_effective ev) b \<and> \<not> bit (ev_old_cap_effective ev) b)))"
proof -
  have bits: "bit DANGEROUS_CAPS n \<longleftrightarrow> n \<in> {2, 16, 19, 21, 39}" for n
  proof -
    have "bit (push_bit k (1 :: u64)) n \<longleftrightarrow> k < 64 \<and> n = k" for k
      by (auto simp: bit_exp_iff)
    then show ?thesis by (simp only: DANGEROUS_CAPS_def bit_or_iff) auto
  qed
  have "and (and (ev_cap_effective ev) (not (ev_old_cap_effective ev))) DANGEROUS_CAPS = 0 \<longleftrightarrow>
      \<not> (\<exists>b \<in> {2, 16, 19, 21, 39}. bit (ev_cap_effective ev) b \<and> \<not> bit (ev_old_cap_effective ev) b)"
  proof -
    have zero: "w = 0 \<longleftrightarrow> (\<forall>n. \<not> bit w n)" for w :: u64 by (auto intro: bit_eqI)
    have "bit (and (and a (not b)) DANGEROUS_CAPS) n \<longleftrightarrow> bit a n \<and> \<not> bit b n \<and> n \<in> {2, 16, 19, 21, 39}"
      for a b :: u64 and n
      using bit_imp_le_length [of a n] by (auto simp: bit_and_iff bit_not_iff bits)
    then show ?thesis unfolding zero by blast
  qed
  then show ?thesis
    using assms by (simp add: detect_def privilege_escalation_def Let_def)
qed

theorem privilege_escalation_exact_witness:
  "detect (blank_event\<lparr>ev_type := 4, ev_uid := 1000, ev_old_euid := 1000, ev_euid := 0\<rparr>) (graph_new 1 5) \<noteq> []"
  using privilege_escalation_exact [of "blank_event\<lparr>ev_type := 4, ev_uid := 1000, ev_old_euid := 1000, ev_euid := 0\<rparr>" "graph_new 1 5"]
  by (simp add: event_evals)

end
