(* ===== verification/Text.thy ===== *)
theory Text
  imports Prelude
begin

text \<open>
  Trimming and tokenising of text: \<^verbatim>\<open>str::trim\<close> and \<^verbatim>\<open>split_whitespace\<close> over UTF-8 bytes.
\<close>

text \<open>The code points with the property White\_Space, encoded.\<close>

definition WHITESPACE :: "string list" where
  "WHITESPACE = map (\<lambda>n. [char_of (n::nat)]) [9, 10, 11, 12, 13, 32]
     @ map (map (\<lambda>n. char_of (n::nat)))
         ([[0xC2, 0x85], [0xC2, 0xA0], [0xE1, 0x9A, 0x80]]
          @ map (\<lambda>b. [0xE2, 0x80, b]) [0x80, 0x81, 0x82, 0x83, 0x84, 0x85, 0x86, 0x87, 0x88, 0x89, 0x8A, 0xA8, 0xA9, 0xAF]
          @ [[0xE2, 0x81, 0x9F], [0xE3, 0x80, 0x80]])"

lemma whitespace_nonempty: "w \<in> set WHITESPACE \<Longrightarrow> w \<noteq> []"
  by (auto simp: WHITESPACE_def)

function trim_start :: "string \<Rightarrow> string" where
  "trim_start s = (case find (\<lambda>w. starts_with w s) WHITESPACE of
     None \<Rightarrow> s | Some w \<Rightarrow> trim_start (drop (length w) s))"
  by pat_completeness auto
termination
proof (relation "measure length")
  fix s w assume "find (\<lambda>w. starts_with w s) WHITESPACE = Some w"
  from find_SomeD [OF this] have w: "w \<in> set WHITESPACE" and s: "starts_with w s" by simp_all
  from s obtain r where "s = w @ r" by (auto simp: starts_with_iff)
  with whitespace_nonempty [OF w] show "(drop (length w) s, s) \<in> measure length" by simp
qed simp

function trim_end :: "string \<Rightarrow> string" where
  "trim_end s = (case find (\<lambda>w. ends_with w s) WHITESPACE of
     None \<Rightarrow> s | Some w \<Rightarrow> trim_end (take (length s - length w) s))"
  by pat_completeness auto
termination
proof (relation "measure length")
  fix s w assume "find (\<lambda>w. ends_with w s) WHITESPACE = Some w"
  from find_SomeD [OF this] have w: "w \<in> set WHITESPACE" and s: "ends_with w s" by simp_all
  from s obtain r where "s = r @ w" by (auto simp: ends_with_iff)
  with whitespace_nonempty [OF w] show "(take (length s - length w) s, s) \<in> measure length" by simp
qed simp

declare trim_start.simps [simp del] trim_end.simps [simp del]

definition trim :: "string \<Rightarrow> string" where
  "trim s = trim_end (trim_start s)"

definition plain_char :: "char \<Rightarrow> bool" where
  \<comment> \<open>a printable ASCII character\<close>
  "plain_char c \<longleftrightarrow> 33 \<le> (of_char c :: nat) \<and> (of_char c :: nat) < 128"

lemma whitespace_edges: "w \<in> set WHITESPACE \<Longrightarrow> \<not> plain_char (hd w) \<and> \<not> plain_char (last w)"
  by (auto simp: WHITESPACE_def plain_char_def)

lemma trim_start_plain: "plain_char c \<Longrightarrow> trim_start (c # s) = c # s"
proof -
  assume c: "plain_char c"
  have "find (\<lambda>w. starts_with w (c # s)) WHITESPACE = None"
    using c whitespace_edges whitespace_nonempty by (fastforce simp: find_None_iff_all starts_with_iff Cons_eq_append_conv)
  then show ?thesis by (simp add: trim_start.simps)
qed

lemma trim_end_plain: "plain_char c \<Longrightarrow> trim_end (s @ [c]) = s @ [c]"
proof -
  assume c: "plain_char c"
  have "\<not> ends_with w (s @ [c])" if "w \<in> set WHITESPACE" for w
  proof
    assume "ends_with w (s @ [c])"
    then obtain r where "s @ [c] = r @ w" by (auto simp: ends_with_iff)
    then have "last w = c" using whitespace_nonempty [OF that] by (metis last_appendR last_snoc)
    then show False using c whitespace_edges [OF that] by simp
  qed
  then have "find (\<lambda>w. ends_with w (s @ [c])) WHITESPACE = None" by (simp add: find_None_iff_all)
  then show ?thesis by (simp add: trim_end.simps)
qed

lemma trim_plain: "s \<noteq> [] \<Longrightarrow> plain_char (hd s) \<Longrightarrow> plain_char (last s) \<Longrightarrow> trim s = s"
proof -
  assume a: "s \<noteq> []" "plain_char (hd s)" "plain_char (last s)"
  then have "trim_start s = s" using trim_start_plain [of "hd s" "tl s"] by simp
  moreover have "trim_end s = s" using a trim_end_plain [of "last s" "butlast s"] by simp
  ultimately show ?thesis by (simp add: trim_def)
qed

lemma digit_plain: "is_ascii_digit c \<Longrightarrow> plain_char c"
  by (simp add: is_ascii_digit_def plain_char_def Let_def)

lemma trim_digits: "list_all is_ascii_digit s \<Longrightarrow> s \<noteq> [] \<Longrightarrow> trim s = s"
  by (rule trim_plain) (auto simp: list_all_iff digit_plain)

section \<open>Words\<close>

text \<open>
  \<^verbatim>\<open>split_whitespace\<close>: the non-empty runs between white space. In UTF-8 no encoded white space starts
  inside another character, so scanning byte by byte finds the same boundaries.
\<close>

function words_go :: "string \<Rightarrow> string \<Rightarrow> string list" where
  "words_go cur s =
     (case s of [] \<Rightarrow> (if cur = [] then [] else [cur])
      | c # cs \<Rightarrow>
          (case find (\<lambda>w. starts_with w s) WHITESPACE of
             None \<Rightarrow> words_go (cur @ [c]) cs
           | Some w \<Rightarrow> (if cur = [] then [] else [cur]) @ words_go [] (drop (length w) s)))"
  by pat_completeness auto
termination
proof (relation "measure (length \<circ> snd)")
  fix cur s :: string and c cs w
  assume s: "s = c # cs" and "find (\<lambda>w. starts_with w s) WHITESPACE = Some w"
  from find_SomeD [OF this(2)] have "w \<in> set WHITESPACE" by simp
  then have "w \<noteq> []" by (rule whitespace_nonempty)
  then show "(([], drop (length w) s), (cur, s)) \<in> measure (length \<circ> snd)" using s by (cases w) auto
qed simp_all

declare words_go.simps [simp del]

definition split_whitespace :: "string \<Rightarrow> string list" where
  "split_whitespace s = words_go [] s"

lemma words_go_plain:
  "list_all plain_char w \<Longrightarrow> words_go cur (w @ s) = words_go (cur @ w) s"
proof (induction w arbitrary: cur)
  case (Cons c w)
  have "find (\<lambda>x. starts_with x (c # w @ s)) WHITESPACE = None"
    using Cons.prems whitespace_edges whitespace_nonempty
    by (fastforce simp: find_None_iff_all starts_with_iff Cons_eq_append_conv)
  then show ?case using Cons by (simp add: words_go.simps [of cur "c # w @ s"])
qed simp

lemma words_go_space: "words_go cur (CHR '' '' # s) = (if cur = [] then [] else [cur]) @ words_go [] s"
proof -
  have "find (\<lambda>w. starts_with w (CHR '' '' # s)) WHITESPACE = Some '' ''"
    by (simp add: WHITESPACE_def starts_with_def char_of_eq_iff eq_commute [of "CHR '' ''"])
  then show ?thesis by (simp add: words_go.simps [of cur "CHR '' '' # s"])
qed

lemma split_whitespace_join:
  "list_all (\<lambda>w. w \<noteq> [] \<and> list_all plain_char w) ws \<Longrightarrow> split_whitespace (join '' '' ws) = ws"
proof (induction ws)
  case step: (Cons x ws)
  show ?case
  proof (cases ws)
    case Nil
    then show ?thesis using step.prems words_go_plain [of x "[]" "[]"]
      by (simp add: split_whitespace_def words_go.simps [where s = "[]"])
  next
    case (Cons y ys)
    then show ?thesis using step words_go_plain [of x "[]" "CHR '' '' # join '' '' (y # ys)"]
      by (simp add: split_whitespace_def words_go_space)
  qed
qed (simp add: split_whitespace_def words_go.simps)

end
