(* ===== verification/Rule.thy ===== *)
theory Rule
  imports Detectors Text
begin

text \<open>
  User-defined detection rules (\<^verbatim>\<open>src/detect/rule.rs\<close>): conditions on one event, sequences of
  conditions within a time window, their validation, and the engine that matches them against the
  event stream. Reading the YAML files is left to the deserialiser.
\<close>

section \<open>Rules\<close>

record condition =
  c_event :: string
  c_filename_equals :: "string option"
  c_filename_prefix :: "string option"
  c_filename_contains :: "string option"
  c_comm_equals :: "string option"
  c_uid :: "u32 option"
  c_euid :: "u32 option"
  c_to_root :: "bool option"
  c_gained_suid :: "bool option"
  c_exec_source :: "string option"
  c_in_container :: "bool option"

definition parse_event_type :: "string \<Rightarrow> event_type option" where
  "parse_event_type name =
     (if name = ''exec'' then Some Exec else if name = ''exit'' then Some Exit
      else if name = ''fork'' then Some Fork else if name = ''cred_change'' then Some CredChange
      else if name = ''file_open'' then Some FileOpen else if name = ''file_mode'' then Some FileMode
      else if name = ''setcap'' then Some Setcap else if name = ''ptrace'' then Some Ptrace
      else if name = ''exec_anon'' then Some ExecAnon else if name = ''module'' then Some Module
      else if name = ''sock_connect'' then Some SockConnect else None)"

text \<open>\<^verbatim>\<open>if let Some(v) = ...\<close>: an absent condition always holds.\<close>

definition holds :: "'a option \<Rightarrow> ('a \<Rightarrow> bool) \<Rightarrow> bool" where
  "holds c P = (case c of None \<Rightarrow> True | Some v \<Rightarrow> P v)"

definition matches :: "condition \<Rightarrow> event \<Rightarrow> bool" where
  "matches c ev \<longleftrightarrow>
     parse_event_type (c_event c) = Some (event_type ev)
     \<and> holds (c_filename_equals c) (\<lambda>v. ev_filename ev = v)
     \<and> holds (c_filename_prefix c) (\<lambda>v. starts_with v (ev_filename ev))
     \<and> holds (c_filename_contains c) (\<lambda>v. contains v (ev_filename ev))
     \<and> holds (c_comm_equals c) (\<lambda>v. ev_comm ev = v)
     \<and> holds (c_uid c) (\<lambda>v. ev_uid ev = v)
     \<and> holds (c_euid c) (\<lambda>v. ev_euid ev = v)
     \<and> (c_to_root c = Some True \<longrightarrow> ev_old_euid ev \<noteq> 0 \<and> ev_euid ev = 0)
     \<and> (c_gained_suid c = Some True \<longrightarrow> gained_bits ev \<noteq> ''none'')
     \<and> holds (c_exec_source c) (\<lambda>v. exec_source ev = v)
     \<and> holds (c_in_container c) (\<lambda>want. (ev_container ev = []) \<noteq> want)"

datatype scope = SameProcess | SameLineage

record rule =
  r_name :: string
  r_id :: string
  r_score :: u32
  r_attack :: "string list"
  r_description :: string
  r_match :: "condition option"
  r_sequence :: "condition list"
  r_scope :: scope
  r_within :: "string option"

definition is_sequence :: "rule \<Rightarrow> bool" where
  "is_sequence r \<longleftrightarrow> r_sequence r \<noteq> []"

text \<open>The product wraps: the release profile does not check for overflow.\<close>

definition parse_duration_ns :: "string \<Rightarrow> u64 option" where
  "parse_duration_ns s0 =
     (let s = trim s0 in
      case (case strip_suffix ''ms'' s of
              Some n \<Rightarrow> Some (n, 1000000)
            | None \<Rightarrow> (case strip_suffix ''s'' s of
                Some n \<Rightarrow> Some (n, 1000000000)
              | None \<Rightarrow> map_option (\<lambda>n. (n, 60000000000)) (strip_suffix ''m'' s))) of
        None \<Rightarrow> None
      | Some (num, unit_ns) \<Rightarrow> map_option (\<lambda>v. v * unit_ns) (parse_u64 (trim num)))"

definition within_ns :: "rule \<Rightarrow> u64" where
  "within_ns r = (case r_within r of None \<Rightarrow> 60000000000
     | Some w \<Rightarrow> (case parse_duration_ns w of None \<Rightarrow> 60000000000 | Some ns \<Rightarrow> ns))"

definition quoted :: "string \<Rightarrow> string" where
  "quoted s = [CHR 0x27] @ s @ [CHR 0x27]"

definition validate :: "rule \<Rightarrow> string + unit" where
  "validate r =
     (let here = ''rule '' @ quoted (r_name r) in
      if r_match r = None \<and> r_sequence r = [] then
        Inl (here @ '': needs a `match` or a `sequence`'')
      else if r_match r \<noteq> None \<and> r_sequence r \<noteq> [] then
        Inl (here @ '': has both `match` and `sequence` (pick one)'')
      else
        case find (\<lambda>c. parse_event_type (c_event c) = None)
               ((case r_match r of None \<Rightarrow> [] | Some c \<Rightarrow> [c]) @ r_sequence r) of
          Some c \<Rightarrow> Inl (here @ '': unknown event type '' @ quoted (c_event c))
        | None \<Rightarrow>
            (case r_within r of
               Some w \<Rightarrow> if parse_duration_ns w = None
                 then Inl (here @ '': bad duration '' @ quoted w) else Inr ()
             | None \<Rightarrow> Inr ()))"

section \<open>The rule engine\<close>

record partial =
  p_step :: nat
  p_first_ts :: u64
  p_last_ts :: u64

record rule_set =
  rs_rules :: "rule list"
  rs_partials :: "(nat \<times> proc_key, partial) hm"

definition rule_set_new :: "rule list \<Rightarrow> rule_set" where
  "rule_set_new rules = \<lparr>rs_rules = rules, rs_partials = hm_empty\<rparr>"

definition rule_signal_id :: "rule \<Rightarrow> string" where
  "rule_signal_id r = (if r_id r = [] then r_name r else r_id r)"

definition scope_key :: "event \<Rightarrow> scope \<Rightarrow> graph \<Rightarrow> proc_key" where
  "scope_key ev sc g = (case sc of SameProcess \<Rightarrow> ev_key ev
     | SameLineage \<Rightarrow> (case rev (ancestry g (ev_key ev)) of [] \<Rightarrow> ev_key ev | n # _ \<Rightarrow> pn_key n))"

definition make_signal :: "rule \<Rightarrow> proc_key \<Rightarrow> u64 \<Rightarrow> signal" where
  "make_signal r k ts = signal_new (rule_signal_id r) (r_score r) (r_attack r) k ts
     (if r_description r = [] then r_name r else r_description r)"

text \<open>The partial matches, after those of this key that have outlived the window are dropped.\<close>

definition expire_partial :: "u64 \<Rightarrow> u64 \<Rightarrow> nat \<times> proc_key \<Rightarrow> (nat \<times> proc_key, partial) hm \<Rightarrow> (nat \<times> proc_key, partial) hm" where
  "expire_partial now window pkey ps =
     (case hm_get ps pkey of
        None \<Rightarrow> ps
      | Some p \<Rightarrow> if saturating_sub now (p_first_ts p) > window then hm_remove pkey ps else ps)"

definition start_sequence :: "rule \<Rightarrow> proc_key \<Rightarrow> nat \<times> proc_key \<Rightarrow> event \<Rightarrow> (nat \<times> proc_key, partial) hm
    \<Rightarrow> signal option \<times> (nat \<times> proc_key, partial) hm" where
  "start_sequence r sk pkey ev ps =
     (if matches (r_sequence r ! 0) ev then
        if length (r_sequence r) = 1 then (Some (make_signal r sk (ev_ts_ns ev)), ps)
        else (None, hm_insert pkey \<lparr>p_step = 1, p_first_ts = ev_ts_ns ev, p_last_ts = ev_ts_ns ev\<rparr> ps)
      else (None, ps))"

definition advance_sequence :: "nat \<Rightarrow> rule \<Rightarrow> event \<Rightarrow> graph \<Rightarrow> (nat \<times> proc_key, partial) hm
    \<Rightarrow> signal option \<times> (nat \<times> proc_key, partial) hm" where
  "advance_sequence idx r ev g ps0 =
     (let sk = scope_key ev (r_scope r) g; pkey = (idx, sk);
          ps = expire_partial (ev_ts_ns ev) (within_ns r) pkey ps0
      in case hm_get ps pkey of
           None \<Rightarrow> start_sequence r sk pkey ev ps
         | Some p \<Rightarrow>
             if matches (r_sequence r ! p_step p) ev then
               if Suc (p_step p) = length (r_sequence r)
               then (Some (make_signal r sk (ev_ts_ns ev)), hm_remove pkey ps)
               else (None, hm_insert pkey (p\<lparr>p_step := Suc (p_step p), p_last_ts := ev_ts_ns ev\<rparr>) ps)
             else start_sequence r sk pkey ev ps)"

definition on_rule :: "event \<Rightarrow> graph \<Rightarrow> nat \<times> rule \<Rightarrow> signal list \<times> (nat \<times> proc_key, partial) hm
    \<Rightarrow> signal list \<times> (nat \<times> proc_key, partial) hm" where
  "on_rule ev g ir st = (case (ir, st) of ((idx, r), (out, ps)) \<Rightarrow>
     (case r_match r of
        Some cond \<Rightarrow> (if matches cond ev then out @ [make_signal r (ev_key ev) (ev_ts_ns ev)] else out, ps)
      | None \<Rightarrow>
          if is_sequence r then
            (case advance_sequence idx r ev g ps of (sig, ps') \<Rightarrow>
               (case sig of None \<Rightarrow> (out, ps') | Some s \<Rightarrow> (out @ [s], ps')))
          else (out, ps)))"

definition rules_on_event :: "event \<Rightarrow> graph \<Rightarrow> rule_set \<Rightarrow> signal list \<times> rule_set" where
  "rules_on_event ev g rs =
     (case fold (on_rule ev g) (enumerate 0 (rs_rules rs)) ([], rs_partials rs) of
        (out, ps) \<Rightarrow> (out, rs\<lparr>rs_partials := ps\<rparr>))"

definition rules_reap :: "graph \<Rightarrow> rule_set \<Rightarrow> rule_set" where
  "rules_reap g rs = rs\<lparr>rs_partials := hm_retain (\<lambda>(_, k) _. graph_get g k \<noteq> None) (rs_partials rs)\<rparr>"

section \<open>Durations\<close>

lemma parse_u64_show_nat: "n < 2 ^ 64 \<Longrightarrow> parse_u64 (show_nat n) = Some (of_nat n)"
  by (simp add: parse_u64_def parse_unsigned_show_nat)

lemma trim_number: "trim (show_nat n) = show_nat n"
  by (rule trim_digits) (auto simp: list_all_iff show_nat_digits)

lemma show_nat_unit_trim: "u \<noteq> [] \<Longrightarrow> plain_char (last u) \<Longrightarrow> trim (show_nat n @ u) = show_nat n @ u"
proof (rule trim_plain)
  have "hd (show_nat n) \<in> set (show_nat n)" by simp
  from digit_plain [OF show_nat_digits [OF this]] show "plain_char (hd (show_nat n @ u))" by simp
qed simp_all

lemma strip_suffix_other: "u \<noteq> [] \<Longrightarrow> v \<noteq> [] \<Longrightarrow> last u \<noteq> last v \<Longrightarrow> strip_suffix v (s @ u) = None"
proof (rule ccontr)
  assume a: "u \<noteq> []" "v \<noteq> []" "last u \<noteq> last v" and "strip_suffix v (s @ u) \<noteq> None"
  then obtain r where "s @ u = r @ v" by (auto simp: strip_suffix_Some)
  then have "last u = last v" using a(1,2) by (metis last_appendR)
  then show False using a(3) by simp
qed

lemma strip_suffix_same [simp]: "strip_suffix u (s @ u) = Some s"
  by (simp add: strip_suffix_Some)

lemma no_ms: "strip_suffix ''ms'' (show_nat n @ ''s'') = None"
proof (rule ccontr)
  assume "strip_suffix ''ms'' (show_nat n @ ''s'') \<noteq> None"
  then obtain r where "show_nat n @ ''s'' = r @ ''ms''" by (auto simp: strip_suffix_Some)
  then have "show_nat n = r @ ''m''" by simp
  then have "is_ascii_digit (CHR ''m'')" using show_nat_digits [of "CHR ''m''" n] by simp
  then show False by (simp add: is_ascii_digit_def)
qed

lemma duration_units:
  assumes "n < 2 ^ 64"
  shows duration_ms: "parse_duration_ns (show_nat n @ ''ms'') = Some (of_nat (n * 1000000))"
    and duration_s: "parse_duration_ns (show_nat n @ ''s'') = Some (of_nat (n * 1000000000))"
    and duration_m: "parse_duration_ns (show_nat n @ ''m'') = Some (of_nat (n * 60000000000))"
proof -
  have t: "trim (show_nat n @ ''ms'') = show_nat n @ ''ms''" "trim (show_nat n @ ''s'') = show_nat n @ ''s''"
    "trim (show_nat n @ ''m'') = show_nat n @ ''m''"
    by (rule show_nat_unit_trim; simp add: plain_char_def)+
  have m: "strip_suffix ''ms'' (show_nat n @ ''m'') = None" "strip_suffix ''s'' (show_nat n @ ''m'') = None"
    by (rule strip_suffix_other; simp)+
  show "parse_duration_ns (show_nat n @ ''ms'') = Some (of_nat (n * 1000000))"
    "parse_duration_ns (show_nat n @ ''s'') = Some (of_nat (n * 1000000000))"
    "parse_duration_ns (show_nat n @ ''m'') = Some (of_nat (n * 60000000000))"
    by (simp_all add: parse_duration_ns_def t m no_ms trim_number parse_u64_show_nat [OF assms])
qed

text \<open>
  A duration written as a number and a unit is read as that many milliseconds,
  seconds or minutes in nanoseconds, modulo \<open>2^64\<close>.
\<close>

theorem parse_duration_units:
  assumes "n < 2 ^ 64"
  shows "parse_duration_ns (show_nat n @ ''ms'') = Some (of_nat (n * 1000000))
    \<and> parse_duration_ns (show_nat n @ ''s'') = Some (of_nat (n * 1000000000))
    \<and> parse_duration_ns (show_nat n @ ''m'') = Some (of_nat (n * 60000000000))"
  by (intro conjI duration_units [OF assms])

theorem parse_duration_units_witness: "parse_duration_ns ''30s'' = Some 30000000000"
proof -
  have "show_nat 30 = ''30''" by (simp add: show_nat.simps digit_char_def char_of_def bit_Suc_0_iff)
  then show ?thesis using parse_duration_units [of 30] by simp
qed

text \<open>
  The product is not checked, so a window of about 585 years, written in minutes, is
  accepted and becomes one of 26 seconds.
\<close>

theorem parse_duration_wraps: "parse_duration_ns ''307445735m'' = Some 26290448384"
proof -
  have "show_nat 307445735 = ''307445735''" by (simp add: show_nat.simps digit_char_def char_of_def bit_Suc_0_iff)
  moreover have "(of_nat (307445735 * 60000000000) :: u64) = 26290448384" by simp
  ultimately show ?thesis using duration_m [of 307445735] by simp
qed

section \<open>Sequences\<close>

text \<open>
  A trace: the events of the stream, each with the graph after it. A sequence of steps has happened
  for a scope key when the trace has events, in order, that match the steps one by one and all resolve
  to that key.
\<close>

type_synonym trace = "(event \<times> graph) list"

definition step_at :: "scope \<Rightarrow> proc_key \<Rightarrow> condition \<Rightarrow> event \<times> graph \<Rightarrow> bool" where
  "step_at sc k c eg \<longleftrightarrow> matches c (fst eg) \<and> scope_key (fst eg) sc (snd eg) = k"

definition happened :: "scope \<Rightarrow> proc_key \<Rightarrow> condition list \<Rightarrow> trace \<Rightarrow> trace \<Rightarrow> bool" where
  "happened sc k steps tr picked \<longleftrightarrow> subseq picked tr \<and> list_all2 (step_at sc k) steps picked"

definition entry_sound :: "rule \<Rightarrow> trace \<Rightarrow> proc_key \<Rightarrow> partial \<Rightarrow> bool" where
  "entry_sound r tr k p \<longleftrightarrow> 1 \<le> p_step p \<and> p_step p < length (r_sequence r)
     \<and> (\<exists>picked. happened (r_scope r) k (take (p_step p) (r_sequence r)) tr picked
          \<and> ev_ts_ns (fst (hd picked)) = p_first_ts p)"

text \<open>What a completed sequence is evidence of.\<close>

definition completed :: "rule \<Rightarrow> trace \<Rightarrow> event \<times> graph \<Rightarrow> proc_key \<Rightarrow> bool" where
  "completed r tr eg k \<longleftrightarrow> (\<exists>picked. happened (r_scope r) k (r_sequence r) (tr @ [eg]) picked
     \<and> last picked = eg
     \<and> saturating_sub (ev_ts_ns (fst eg)) (ev_ts_ns (fst (hd picked))) \<le> within_ns r)"

lemma happened_mono: "happened sc k steps tr picked \<Longrightarrow> happened sc k steps (tr @ us) picked"
  unfolding happened_def by (meson list_emb_append_mono list_emb_Nil subseq_order.order_trans subseq_rev_drop_many)

lemma happened_snoc:
  "happened sc k steps tr picked \<Longrightarrow> step_at sc k c eg \<Longrightarrow> happened sc k (steps @ [c]) (tr @ [eg]) (picked @ [eg])"
  unfolding happened_def by (auto simp: subseq_append' intro: list_all2_appendI)

lemma happened_one: "step_at sc k c eg \<Longrightarrow> happened sc k [c] (tr @ [eg]) [eg]"
  unfolding happened_def by (auto simp: subseq_append')

lemma entry_sound_mono: "entry_sound r tr k p \<Longrightarrow> entry_sound r (tr @ us) k p"
  unfolding entry_sound_def using happened_mono by blast

lemma expire_get: "hm_get (expire_partial now w pk ps) pk' = Some p \<Longrightarrow>
    hm_get ps pk' = Some p \<and> (pk' = pk \<longrightarrow> saturating_sub now (p_first_ts p) \<le> w)"
  by (auto simp: expire_partial_def split: option.splits if_splits)

lemma expire_frame: "pk' \<noteq> pk \<Longrightarrow> hm_get (expire_partial now w pk ps) pk' = hm_get ps pk'"
  by (auto simp: expire_partial_def split: option.splits)

lemma expire_ok [simp]: "hm_ok ps \<Longrightarrow> hm_ok (expire_partial now w pk ps)"
  by (simp add: expire_partial_def split: option.split)

text \<open>What the treatment of one rule guarantees about its partial matches and its signal.\<close>

definition rule_step_ok :: "nat \<Rightarrow> rule \<Rightarrow> trace \<Rightarrow> event \<times> graph \<Rightarrow> (nat \<times> proc_key, partial) hm
    \<Rightarrow> signal option \<times> (nat \<times> proc_key, partial) hm \<Rightarrow> bool" where
  "rule_step_ok idx r tr eg ps res \<longleftrightarrow>
     (\<forall>k p. hm_get (snd res) (idx, k) = Some p \<longrightarrow> entry_sound r (tr @ [eg]) k p)
     \<and> (\<forall>j k. j \<noteq> idx \<longrightarrow> hm_get (snd res) (j, k) = hm_get ps (j, k))
     \<and> (hm_ok ps \<longrightarrow> hm_ok (snd res))
     \<and> (\<forall>s. fst res = Some s \<longrightarrow> s = make_signal r (s_key s) (ev_ts_ns (fst eg)) \<and> completed r tr eg (s_key s))"

lemma make_signal_key [simp]: "s_key (make_signal r k ts) = k"
  by (simp add: make_signal_def)

lemma start_sequence_ok:
  assumes seq: "is_sequence r" and sk: "sk = scope_key ev (r_scope r) g"
    and sound: "\<And>k p. hm_get ps (idx, k) = Some p \<Longrightarrow> entry_sound r tr k p"
  shows "rule_step_ok idx r tr (ev, g) ps (start_sequence r sk (idx, sk) ev ps)"
proof (cases "matches (r_sequence r ! 0) ev")
  case False
  then show ?thesis using sound entry_sound_mono by (auto simp: rule_step_ok_def start_sequence_def)
next
  case True
  obtain c cs where cs: "r_sequence r = c # cs" using seq by (cases "r_sequence r") (auto simp: is_sequence_def)
  have "step_at (r_scope r) sk c (ev, g)" using True sk cs by (simp add: step_at_def)
  from happened_one [OF this] have h: "happened (r_scope r) sk [c] (tr @ [(ev, g)]) [(ev, g)]" .
  show ?thesis
  proof (cases "cs = []")
    case one: True
    have "completed r tr (ev, g) sk"
      unfolding completed_def using h cs one by (intro exI [of _ "[(ev, g)]"]) simp
    then show ?thesis using True cs one sound entry_sound_mono
      by (auto simp: rule_step_ok_def start_sequence_def)
  next
    case more: False
    have "entry_sound r (tr @ [(ev, g)]) sk \<lparr>p_step = 1, p_first_ts = ev_ts_ns ev, p_last_ts = ev_ts_ns ev\<rparr>"
      unfolding entry_sound_def using h cs more by (auto intro!: exI [of _ "[(ev, g)]"])
    then show ?thesis using True cs more sound entry_sound_mono
      by (auto simp: rule_step_ok_def start_sequence_def split: if_splits)
  qed
qed

lemma advance_sequence_ok:
  assumes seq: "is_sequence r"
    and sound: "\<And>k p. hm_get ps (idx, k) = Some p \<Longrightarrow> entry_sound r tr k p"
  shows "rule_step_ok idx r tr (ev, g) ps (advance_sequence idx r ev g ps)"
proof -
  define sk where "sk = scope_key ev (r_scope r) g"
  define ps1 where "ps1 = expire_partial (ev_ts_ns ev) (within_ns r) (idx, sk) ps"
  have s1: "entry_sound r tr k p" if "hm_get ps1 (idx, k) = Some p" for k p
    using that sound expire_get unfolding ps1_def by blast
  have fr: "hm_get ps1 (j, k) = hm_get ps (j, k)" if "j \<noteq> idx" for j k
    using that expire_frame unfolding ps1_def by simp
  have ok: "hm_ok ps \<Longrightarrow> hm_ok ps1" unfolding ps1_def by simp
  have lift: "rule_step_ok idx r tr (ev, g) ps1 res \<Longrightarrow> rule_step_ok idx r tr (ev, g) ps res" for res
    using fr ok by (auto simp: rule_step_ok_def)
  note start = lift [OF start_sequence_ok [OF seq sk_def s1]]
  show ?thesis
  proof (cases "hm_get ps1 (idx, sk)")
    case None
    then show ?thesis using start by (simp add: advance_sequence_def Let_def flip: sk_def ps1_def)
  next
    case (Some p)
    show ?thesis
    proof (cases "matches (r_sequence r ! p_step p) ev")
      case False
      then show ?thesis using start Some by (simp add: advance_sequence_def Let_def flip: sk_def ps1_def)
    next
      case True
      obtain picked where pk: "happened (r_scope r) sk (take (p_step p) (r_sequence r)) tr picked"
        "ev_ts_ns (fst (hd picked)) = p_first_ts p" and st: "1 \<le> p_step p" "p_step p < length (r_sequence r)"
        using s1 [OF Some] by (auto simp: entry_sound_def)
      have win: "saturating_sub (ev_ts_ns ev) (p_first_ts p) \<le> within_ns r"
        using Some expire_get unfolding ps1_def by blast
      have "picked \<noteq> []" using pk(1) st by (auto simp: happened_def dest: list_all2_lengthD)
      then have hd: "hd (picked @ [(ev, g)]) = hd picked" by simp
      have "step_at (r_scope r) sk (r_sequence r ! p_step p) (ev, g)" using True by (simp add: step_at_def sk_def)
      from happened_snoc [OF pk(1) this] st(2)
      have h: "happened (r_scope r) sk (take (Suc (p_step p)) (r_sequence r)) (tr @ [(ev, g)]) (picked @ [(ev, g)])"
        by (simp add: take_Suc_conv_app_nth)
      show ?thesis
      proof (cases "Suc (p_step p) = length (r_sequence r)")
        case fin: True
        have "completed r tr (ev, g) sk"
          unfolding completed_def using h fin hd pk(2) win by (intro exI [of _ "picked @ [(ev, g)]"]) simp
        then have "rule_step_ok idx r tr (ev, g) ps1 (Some (make_signal r sk (ev_ts_ns ev)), hm_remove (idx, sk) ps1)"
          using s1 entry_sound_mono by (auto simp: rule_step_ok_def split: if_splits)
        then show ?thesis using lift Some True fin
          by (simp add: advance_sequence_def Let_def flip: sk_def ps1_def)
      next
        case more: False
        have "entry_sound r (tr @ [(ev, g)]) sk (p\<lparr>p_step := Suc (p_step p), p_last_ts := ev_ts_ns ev\<rparr>)"
          unfolding entry_sound_def using h hd pk(2) st more
          by (auto intro!: exI [of _ "picked @ [(ev, g)]"])
        then have "rule_step_ok idx r tr (ev, g) ps1 (None, hm_insert (idx, sk) (p\<lparr>p_step := Suc (p_step p), p_last_ts := ev_ts_ns ev\<rparr>) ps1)"
          using s1 entry_sound_mono by (auto simp: rule_step_ok_def split: if_splits)
        then show ?thesis using lift Some True more
          by (simp add: advance_sequence_def Let_def flip: sk_def ps1_def)
      qed
    qed
  qed
qed

section \<open>The whole rule set\<close>

definition rules_sound :: "trace \<Rightarrow> rule_set \<Rightarrow> bool" where
  "rules_sound tr rs \<longleftrightarrow> hm_ok (rs_partials rs) \<and> (\<forall>idx k p. hm_get (rs_partials rs) (idx, k) = Some p \<longrightarrow>
     idx < length (rs_rules rs) \<and> entry_sound (rs_rules rs ! idx) tr k p)"

text \<open>The reason for a signal: a rule whose condition the event meets, or whose sequence it completes.\<close>

definition justified :: "trace \<Rightarrow> event \<times> graph \<Rightarrow> rule \<Rightarrow> signal \<Rightarrow> bool" where
  "justified tr eg r s \<longleftrightarrow> s = make_signal r (s_key s) (ev_ts_ns (fst eg)) \<and>
     (case r_match r of Some c \<Rightarrow> matches c (fst eg) \<and> s_key s = ev_key (fst eg)
      | None \<Rightarrow> is_sequence r \<and> completed r tr eg (s_key s))"

text \<open>After the first \<open>i\<close> rules: their partial matches account for the event, the others' do not yet.\<close>

definition rules_upto :: "rule list \<Rightarrow> trace \<Rightarrow> event \<times> graph \<Rightarrow> nat
    \<Rightarrow> signal list \<times> (nat \<times> proc_key, partial) hm \<Rightarrow> bool" where
  "rules_upto rules tr eg i st \<longleftrightarrow> hm_ok (snd st)
     \<and> (\<forall>idx k p. hm_get (snd st) (idx, k) = Some p \<longrightarrow> idx < length rules
          \<and> entry_sound (rules ! idx) (if idx < i then tr @ [eg] else tr) k p)
     \<and> (\<forall>s \<in> set (fst st). \<exists>r \<in> set rules. justified tr eg r s)
     \<and> (\<forall>r c. r \<in> set (take i rules) \<longrightarrow> r_match r = Some c \<longrightarrow> matches c (fst eg) \<longrightarrow>
          make_signal r (ev_key (fst eg)) (ev_ts_ns (fst eg)) \<in> set (fst st))"

lemma rules_upto_entry:
  "rules_upto rules tr eg i st \<Longrightarrow> hm_get (snd st) (idx, k) = Some p \<Longrightarrow>
   idx < length rules \<and> entry_sound (rules ! idx) (if idx < i then tr @ [eg] else tr) k p"
  by (simp add: rules_upto_def)

lemma rules_upto_Suc:
  assumes i: "i < length rules" and up: "rules_upto rules tr (ev, g) i st"
  shows "rules_upto rules tr (ev, g) (Suc i) (on_rule ev g (i, rules ! i) st)"
proof -
  obtain out ps where st: "st = (out, ps)" by (cases st)
  let ?r = "rules ! i"
  have r: "?r \<in> set rules" using i by simp
  have tk: "set (take (Suc i) rules) = insert ?r (set (take i rules))" using i by (simp add: take_Suc_conv_app_nth)
  have old: "entry_sound (rules ! idx) (if idx < Suc i then tr @ [(ev, g)] else tr) k p"
    if "idx \<noteq> i" "entry_sound (rules ! idx) (if idx < i then tr @ [(ev, g)] else tr) k p" for idx k p
    using that by (simp add: less_Suc_eq split: if_splits)
  have grow: "entry_sound ?r tr k p \<Longrightarrow> entry_sound ?r (tr @ [(ev, g)]) k p" for k p
    by (rule entry_sound_mono)
  have idle: "entry_sound (rules ! idx) (if idx < Suc i then tr @ [(ev, g)] else tr) k p"
    if "entry_sound (rules ! idx) (if idx < i then tr @ [(ev, g)] else tr) k p" for idx k p
    using that old grow by (cases "idx = i") auto
  show ?thesis
  proof (cases "r_match ?r")
    case (Some c)
    have "justified tr (ev, g) ?r (make_signal ?r (ev_key ev) (ev_ts_ns ev))" if "matches c ev"
      using that Some by (simp add: justified_def)
    then show ?thesis using up r Some idle unfolding rules_upto_def tk st on_rule_def by auto
  next
    case None
    show ?thesis
    proof (cases "is_sequence ?r")
      case False
      then show ?thesis using up None idle unfolding rules_upto_def tk st on_rule_def by auto
    next
      case True
      obtain sig ps' where adv: "advance_sequence i ?r ev g ps = (sig, ps')" by (cases "advance_sequence i ?r ev g ps")
      have ent: "entry_sound ?r tr k p" if "hm_get ps (i, k) = Some p" for k p
        using rules_upto_entry [OF up, of i k p] that by (simp add: st)
      have ok: "rule_step_ok i ?r tr (ev, g) ps (sig, ps')"
        unfolding adv [symmetric] by (rule advance_sequence_ok [OF True ent])
      have snd': "snd (on_rule ev g (i, ?r) st) = ps'" and
        fst': "fst (on_rule ev g (i, ?r) st) = out @ (case sig of None \<Rightarrow> [] | Some s \<Rightarrow> [s])"
        using None True adv by (auto simp: on_rule_def st split: option.splits)
      have entries: "idx < length rules \<and> entry_sound (rules ! idx) (if idx < Suc i then tr @ [(ev, g)] else tr) k p"
        if "hm_get ps' (idx, k) = Some p" for idx k p
      proof (cases "idx = i")
        case True
        then show ?thesis using ok that i by (simp add: rule_step_ok_def)
      next
        case False
        then have "hm_get ps (idx, k) = Some p" using ok that by (simp add: rule_step_ok_def)
        then show ?thesis using up old [OF False] unfolding rules_upto_def st by auto
      qed
      have "justified tr (ev, g) ?r s" if "sig = Some s" for s
        using ok that None True by (auto simp: rule_step_ok_def justified_def)
      note just = this
      show ?thesis
        unfolding rules_upto_def tk snd' fst'
        using up [unfolded rules_upto_def st] r None ok entries just
        by (auto simp: rule_step_ok_def split: option.splits)
    qed
  qed
qed

lemma rules_upto_all:
  assumes "rules_upto rules tr (ev, g) 0 st" and "i \<le> length rules"
  shows "rules_upto rules tr (ev, g) i (fold (on_rule ev g) (enumerate 0 (take i rules)) st)"
  using assms(2)
proof (induction i)
  case (Suc i)
  have "enumerate 0 (take (Suc i) rules) = enumerate 0 (take i rules) @ [(i, rules ! i)]"
    using Suc.prems by (simp add: take_Suc_conv_app_nth enumerate_append_eq)
  then show ?case using Suc rules_upto_Suc [of i rules tr ev g] by simp
qed (simp add: assms(1))

lemma rules_on_event_ok:
  assumes "rules_sound tr rs" and "rules_on_event ev g rs = (out, rs')"
  shows "rules_sound (tr @ [(ev, g)]) rs' \<and> rs_rules rs' = rs_rules rs
    \<and> (\<forall>s \<in> set out. \<exists>r \<in> set (rs_rules rs). justified tr (ev, g) r s)
    \<and> (\<forall>r \<in> set (rs_rules rs). \<forall>c. r_match r = Some c \<longrightarrow> matches c ev \<longrightarrow>
         make_signal r (ev_key ev) (ev_ts_ns ev) \<in> set out)"
proof -
  let ?st = "fold (on_rule ev g) (enumerate 0 (rs_rules rs)) ([], rs_partials rs)"
  have "rules_upto (rs_rules rs) tr (ev, g) 0 ([], rs_partials rs)"
    using assms(1) by (auto simp: rules_upto_def rules_sound_def)
  from rules_upto_all [OF this, of "length (rs_rules rs)"]
  have up: "rules_upto (rs_rules rs) tr (ev, g) (length (rs_rules rs)) ?st" by simp
  have "out = fst ?st" "rs' = rs\<lparr>rs_partials := snd ?st\<rparr>"
    using assms(2) by (simp_all add: rules_on_event_def split: prod.splits)
  moreover have "idx < length (rs_rules rs) \<and> entry_sound (rs_rules rs ! idx) (tr @ [(ev, g)]) k p"
    if "hm_get (snd ?st) (idx, k) = Some p" for idx k p
    using rules_upto_entry [OF up that] by (simp split: if_splits)
  ultimately show ?thesis using up unfolding rules_upto_def rules_sound_def by auto
qed

lemma rules_reap_ok: "rules_sound tr rs \<Longrightarrow> rules_sound tr (rules_reap g rs)"
  by (auto simp: rules_sound_def rules_reap_def hm_get_retain split: option.splits if_splits)

text \<open>The stream and the rule set together.\<close>

inductive rules_step :: "trace \<times> rule_set \<Rightarrow> trace \<times> rule_set \<Rightarrow> bool" where
  rules_event: "rules_on_event ev g rs = (out, rs') \<Longrightarrow> rules_step (tr, rs) (tr @ [(ev, g)], rs')"
| rules_clean: "rules_step (tr, rs) (tr, rules_reap g rs)"

definition rules_init :: "trace \<times> rule_set \<Rightarrow> bool" where
  "rules_init st \<longleftrightarrow> (\<exists>rules. st = ([], rule_set_new rules))"

interpretation rl: transition_system rules_init rules_step "\<lambda>(tr, rs). rules_sound tr rs"
proof
  fix s s' assume "case s of (tr, rs) \<Rightarrow> rules_sound tr rs" and "rules_step s s'"
  then show "case s' of (tr, rs) \<Rightarrow> rules_sound tr rs"
    by (cases s; cases s') (auto elim!: rules_step.cases simp: rules_reap_ok dest: rules_on_event_ok)
qed (auto simp: rules_init_def rule_set_new_def rules_sound_def)

text \<open>
  C12 (safety): Rules only report what the event stream shows. After any stream of events and
  clean-ups, every signal raised for the next event comes from a rule whose condition that event
  meets, or from a sequence rule for which the stream, ending in that event, has events that match
  all steps in order, all in one scope and within the rule's window. A single-event rule fires on every
  event that meets its condition.
\<close>

theorem rules_sound_on_stream:
  assumes "rules_step\<^sup>*\<^sup>* ([], rule_set_new rules) (tr, rs)" and "rules_on_event ev g rs = (out, rs')"
  shows "(\<forall>s \<in> set out. \<exists>r \<in> set (rs_rules rs). justified tr (ev, g) r s)
    \<and> (\<forall>r \<in> set (rs_rules rs). \<forall>c. r_match r = Some c \<longrightarrow> matches c ev \<longrightarrow>
         make_signal r (ev_key ev) (ev_ts_ns ev) \<in> set out)"
proof -
  have "rules_sound tr rs"
    using rl.invar_reachable [OF _ assms(1)] by (auto simp: rules_init_def)
  from rules_on_event_ok [OF this assms(2)] show ?thesis by blast
qed

section \<open>A sequence that is missed\<close>

definition on_exec_of :: "string \<Rightarrow> condition" where
  "on_exec_of path = \<lparr>c_event = ''exec'', c_filename_equals = Some path, c_filename_prefix = None,
     c_filename_contains = None, c_comm_equals = None, c_uid = None, c_euid = None, c_to_root = None,
     c_gained_suid = None, c_exec_source = None, c_in_container = None\<rparr>"

definition abc_rule :: rule where
  "abc_rule = \<lparr>r_name = ''abc'', r_id = [], r_score = 30, r_attack = [], r_description = [],
     r_match = None, r_sequence = [on_exec_of ''a'', on_exec_of ''b'', on_exec_of ''c''],
     r_scope = SameProcess, r_within = None\<rparr>"

definition exec_of :: "string \<Rightarrow> u64 \<Rightarrow> event" where
  "exec_of path ts = blank_event\<lparr>ev_type := 1, ev_filename := path, ev_tgid := 7,
     ev_start_boottime := 7, ev_ts_ns := ts\<rparr>"

fun rules_run :: "event list \<Rightarrow> graph \<Rightarrow> rule_set \<Rightarrow> signal list list \<times> rule_set" where
  "rules_run [] g rs = ([], rs)"
| "rules_run (ev # evs) g rs =
     (case rules_on_event ev g rs of (out, rs1) \<Rightarrow>
        (case rules_run evs g rs1 of (outs, rs2) \<Rightarrow> (out # outs, rs2)))"

lemma exec_of_matches: "matches (on_exec_of p) (exec_of q ts) \<longleftrightarrow> p = q"
  by (auto simp: matches_def on_exec_of_def exec_of_def holds_def event_type_def event_type_from_def
      parse_event_type_def)

lemma abc_evals:
  "r_match abc_rule = None" "is_sequence abc_rule" "within_ns abc_rule = 60000000000"
  "r_sequence abc_rule = [on_exec_of ''a'', on_exec_of ''b'', on_exec_of ''c'']" "r_scope abc_rule = SameProcess"
  by (simp_all add: abc_rule_def is_sequence_def within_ns_def)

lemma exec_of_key: "scope_key (exec_of p ts) SameProcess g = ProcKey 7 7" "ev_ts_ns (exec_of p ts) = ts"
  by (simp_all add: scope_key_def exec_of_def ev_key_def)

lemmas abc_run = rules_on_event_def rule_set_new_def on_rule_def abc_evals advance_sequence_def
  start_sequence_def expire_partial_def exec_of_matches exec_of_key Let_def hm_get_def hm_insert_def
  hm_remove_def hm_empty_def saturating_sub_def AList.delete_eq

text \<open>
  The engine keeps one partial match per rule and scope and lets a repeated first step
  replace it. For the rule a, b, c the stream a, b, c fires, but a, b, a, c, which also has a, b and c
  in order within the window, does not.
\<close>

theorem sequence_missed_after_restart:
  "map length (fst (rules_run [exec_of ''a'' 1, exec_of ''b'' 2, exec_of ''c'' 3] g (rule_set_new [abc_rule]))) = [0, 0, 1]
   \<and> map length (fst (rules_run [exec_of ''a'' 1, exec_of ''b'' 2, exec_of ''a'' 3, exec_of ''c'' 4] g (rule_set_new [abc_rule]))) = [0, 0, 0, 0]"
  by (simp add: abc_run)

definition a_rule :: rule where
  "a_rule = abc_rule\<lparr>r_match := Some (on_exec_of ''a''), r_sequence := []\<rparr>"

theorem rules_sound_on_stream_witness:
  "make_signal a_rule (ProcKey 7 7) 1 \<in> set (fst (rules_on_event (exec_of ''a'' 1) (graph_new 1 5) (rule_set_new [a_rule])))"
proof -
  obtain out rs' where r: "rules_on_event (exec_of ''a'' 1) (graph_new 1 5) (rule_set_new [a_rule]) = (out, rs')"
    by (cases "rules_on_event (exec_of ''a'' 1) (graph_new 1 5) (rule_set_new [a_rule])")
  have "rs_rules (rule_set_new [a_rule]) = [a_rule]" "r_match a_rule = Some (on_exec_of ''a'')"
    "ev_key (exec_of ''a'' 1) = ProcKey 7 7"
    by (simp_all add: rule_set_new_def a_rule_def exec_of_def ev_key_def)
  then show ?thesis
    using rules_sound_on_stream [OF rtranclp.rtrancl_refl r] r exec_of_matches exec_of_key(2) by simp
qed

end
