(* ===== verification/Baseline.thy ===== *)
theory Baseline
  imports Hash_Map Float64
begin

text \<open>
  Per-host baselining (\<^verbatim>\<open>src/detect/baseline.rs\<close>): which pairs of signal and executable are
  routine on this host, with the evidence for it, and how far a signal of such a pair is discounted.

  \<^verbatim>\<open>f64::ln_1p\<close> has unspecified precision and is the parameter \<open>ln1p\<close>; the wall clock is the
  parameter \<open>now\<close>, in milliseconds. Reading and writing the JSON file is left to the serialiser; what
  a saved and reloaded baseline holds is \<open>baseline_saved\<close> and \<open>baseline_loaded\<close>.
\<close>

section \<open>Data\<close>

definition FORMAT_VERSION :: u32 where "FORMAT_VERSION = 2"
definition KNOWN_FACTOR :: rat where "KNOWN_FACTOR = rnd (1 / 10)"
definition SUPPORT_FULL :: rat where "SUPPORT_FULL = 8"
definition BURST_RECURRENCE :: rat where "BURST_RECURRENCE = 1 / 2"
definition FRESH_DAYS :: rat where "FRESH_DAYS = 14"
definition STALE_DAYS :: rat where "STALE_DAYS = 90"
definition STRONG_CONFIDENCE :: rat where "STRONG_CONFIDENCE = 3 / 4"
definition MS_PER_DAY :: rat where "MS_PER_DAY = 86400000"

record entry =
  e_signal :: string
  e_exe :: string
  e_count :: u64
  e_first_ns :: u64
  e_last_ns :: u64

record stat =
  st_count :: u64
  st_first_ns :: u64
  st_last_ns :: u64

record baseline =
  b_version :: u32
  b_events_observed :: u64
  b_learned_at_ms :: u64
  b_window_ns :: u64
  b_entries :: "entry list"
  b_index :: "(string \<times> string, stat) hm"
  b_window_lo :: u64
  b_window_hi :: u64
  b_evaluated_at_ms :: u64

definition span_ns :: "stat \<Rightarrow> u64" where
  "span_ns s = saturating_sub (st_last_ns s) (st_first_ns s)"

section \<open>Learning\<close>

definition baseline_new :: "u64 \<Rightarrow> baseline" where
  "baseline_new now = \<lparr>b_version = FORMAT_VERSION, b_events_observed = 0, b_learned_at_ms = now,
     b_window_ns = 0, b_entries = [], b_index = hm_empty, b_window_lo = 0, b_window_hi = 0,
     b_evaluated_at_ms = now\<rparr>"

definition note_event :: "u64 \<Rightarrow> baseline \<Rightarrow> baseline" where
  "note_event ts b =
     (if ts = 0 then b
      else
        let lo = (if b_window_lo b = 0 then ts else min (b_window_lo b) ts);
            hi = max (b_window_hi b) ts
        in b\<lparr>b_window_lo := lo, b_window_hi := hi, b_window_ns := saturating_sub hi lo\<rparr>)"

definition observe_stat :: "u64 \<Rightarrow> stat \<Rightarrow> stat" where
  "observe_stat ts s =
     (let s = (if st_count s = 0 then s\<lparr>st_first_ns := ts, st_last_ns := ts\<rparr>
               else s\<lparr>st_first_ns := min (st_first_ns s) ts, st_last_ns := max (st_last_ns s) ts\<rparr>)
      in s\<lparr>st_count := st_count s + 1\<rparr>)"

definition observe :: "string \<Rightarrow> string \<Rightarrow> u64 \<Rightarrow> baseline \<Rightarrow> baseline" where
  "observe sig exe ts b0 =
     (if exe = [] then b0
      else
        let b = note_event ts b0
        in b\<lparr>b_index := hm_entry (sig, exe) \<lparr>st_count = 0, st_first_ns = 0, st_last_ns = 0\<rparr>
               (observe_stat ts) (b_index b)\<rparr>)"

section \<open>Evidence\<close>

definition stat_of :: "baseline \<Rightarrow> string \<Rightarrow> string \<Rightarrow> stat option" where
  "stat_of b sig exe = hm_get (b_index b) (sig, exe)"

definition known :: "baseline \<Rightarrow> string \<Rightarrow> string \<Rightarrow> bool" where
  "known b sig exe \<longleftrightarrow> stat_of b sig exe \<noteq> None"

definition evidence :: "(rat \<Rightarrow> rat) \<Rightarrow> baseline \<Rightarrow> stat \<Rightarrow> rat" where
  "evidence ln1p b s =
     (let support = clamp 0 1 (f64_div (ln1p (u64_f64 (st_count s))) (ln1p SUPPORT_FULL));
          spread = (if b_window_ns b = 0 then 0
                    else clamp 0 1 (f64_div (u64_f64 (span_ns s)) (u64_f64 (b_window_ns b))));
          recurrence = f64_add BURST_RECURRENCE (f64_mul (f64_sub 1 BURST_RECURRENCE) spread)
      in f64_mul support recurrence)"

definition age_days :: "u64 \<Rightarrow> baseline \<Rightarrow> rat option" where
  "age_days now_ms b =
     (if b_learned_at_ms b = 0 then None
      else
        let now = (if b_evaluated_at_ms b = 0 then now_ms else b_evaluated_at_ms b)
        in Some (f64_div (u64_f64 (saturating_sub now (b_learned_at_ms b))) MS_PER_DAY))"

definition freshness :: "u64 \<Rightarrow> baseline \<Rightarrow> rat" where
  "freshness now_ms b =
     (case age_days now_ms b of
        None \<Rightarrow> 1
      | Some days \<Rightarrow>
          if days \<le> FRESH_DAYS then 1
          else if days \<ge> STALE_DAYS then 0
          else f64_sub 1 (f64_div (f64_sub days FRESH_DAYS) (f64_sub STALE_DAYS FRESH_DAYS)))"

definition is_expired :: "u64 \<Rightarrow> baseline \<Rightarrow> bool" where
  "is_expired now_ms b = (case age_days now_ms b of None \<Rightarrow> False | Some d \<Rightarrow> d \<ge> STALE_DAYS)"

definition evaluate_at :: "u64 \<Rightarrow> baseline \<Rightarrow> baseline" where
  "evaluate_at now_ms b = b\<lparr>b_evaluated_at_ms := now_ms\<rparr>"

definition confidence :: "(rat \<Rightarrow> rat) \<Rightarrow> u64 \<Rightarrow> baseline \<Rightarrow> string \<Rightarrow> string \<Rightarrow> rat" where
  "confidence ln1p now_ms b sig exe =
     (case stat_of b sig exe of None \<Rightarrow> 0
      | Some s \<Rightarrow> f64_mul (evidence ln1p b s) (freshness now_ms b))"

definition factor :: "(rat \<Rightarrow> rat) \<Rightarrow> u64 \<Rightarrow> baseline \<Rightarrow> string \<Rightarrow> string \<Rightarrow> rat" where
  "factor ln1p now_ms b sig exe =
     f64_sub 1 (f64_mul (confidence ln1p now_ms b sig exe) (f64_sub 1 KNOWN_FACTOR))"

definition seen_count :: "baseline \<Rightarrow> string \<Rightarrow> string \<Rightarrow> u64" where
  "seen_count b sig exe = (case stat_of b sig exe of None \<Rightarrow> 0 | Some s \<Rightarrow> st_count s)"

definition strong :: "(rat \<Rightarrow> rat) \<Rightarrow> u64 \<Rightarrow> baseline \<Rightarrow> nat" where
  "strong ln1p now_ms b = length (filter (\<lambda>s. f64_mul (evidence ln1p b s) (freshness now_ms b) \<ge> STRONG_CONFIDENCE)
     (hm_values (b_index b)))"

definition baseline_len :: "baseline \<Rightarrow> nat" where
  "baseline_len b = hm_len (b_index b)"

section \<open>Storage\<close>

definition entry_of :: "(string \<times> string) \<times> stat \<Rightarrow> entry" where
  "entry_of kv = (case kv of ((sig, exe), s) \<Rightarrow>
     \<lparr>e_signal = sig, e_exe = exe, e_count = st_count s, e_first_ns = st_first_ns s, e_last_ns = st_last_ns s\<rparr>)"

text \<open>
  Sorting by signal, then by executable: a stable sort by the second key followed by a stable sort by
  the first. Strings compare byte by byte.
\<close>

definition flatten :: "baseline \<Rightarrow> baseline" where
  "flatten b = b\<lparr>b_entries := sort_key e_signal (sort_key e_exe (map entry_of (b_index b)))\<rparr>"

definition reindex :: "baseline \<Rightarrow> baseline" where
  "reindex b = b\<lparr>b_index := fold (\<lambda>e. hm_insert (e_signal e, e_exe e)
     \<lparr>st_count = e_count e, st_first_ns = e_first_ns e, st_last_ns = e_last_ns e\<rparr>) (b_entries b) hm_empty\<rparr>"

text \<open>What the file holds, and what loading it at time \<open>now\<close> gives; skipped fields come back empty.\<close>

definition baseline_saved :: "baseline \<Rightarrow> baseline" where
  "baseline_saved b = (flatten b)\<lparr>b_version := FORMAT_VERSION\<rparr>"

definition baseline_loaded :: "u64 \<Rightarrow> baseline \<Rightarrow> baseline" where
  "baseline_loaded now_ms file =
     (reindex (file\<lparr>b_index := hm_empty, b_window_lo := 0, b_window_hi := 0, b_evaluated_at_ms := 0\<rparr>))
       \<lparr>b_evaluated_at_ms := now_ms\<rparr>"

section \<open>Discounts are bounded\<close>

lemma clamp_unit: "0 \<le> clamp 0 1 x \<and> clamp 0 1 x \<le> (1 :: rat)"
  by (simp add: clamp_def)

lemma f64_sub_half: "f64_sub 1 BURST_RECURRENCE = 1 / 2"
  by (simp add: f64_sub_def BURST_RECURRENCE_def f64.r_half)

lemma recurrence_bounds:
  assumes "0 \<le> x" "x \<le> 1"
  shows "1 / 2 \<le> f64_add BURST_RECURRENCE (f64_mul (f64_sub 1 BURST_RECURRENCE) x)
    \<and> f64_add BURST_RECURRENCE (f64_mul (f64_sub 1 BURST_RECURRENCE) x) \<le> 1"
proof -
  have "rnd (1 / 2 * x) \<le> rnd (1 / 2)" "rnd 0 \<le> rnd (1 / 2 * x)" using assms by (auto intro: f64.r_mono)
  then have p: "0 \<le> rnd (1 / 2 * x)" "rnd (1 / 2 * x) \<le> 1 / 2" by (simp_all add: f64.r_half f64.r_0)
  then have "rnd (1 / 2) \<le> rnd (1 / 2 + rnd (1 / 2 * x))" "rnd (1 / 2 + rnd (1 / 2 * x)) \<le> rnd 1"
    by (auto intro: f64.r_mono)
  then show ?thesis
    unfolding f64_sub_half by (simp add: f64_add_def f64_mul_def BURST_RECURRENCE_def f64.r_half f64.r_1)
qed

lemma evidence_unit: "0 \<le> evidence ln1p b s \<and> evidence ln1p b s \<le> 1"
proof -
  let ?sp = "if b_window_ns b = 0 then 0 else clamp 0 1 (f64_div (u64_f64 (span_ns s)) (u64_f64 (b_window_ns b)))"
  have "0 \<le> ?sp" "?sp \<le> 1" using clamp_unit by auto
  note recurrence_bounds [OF this]
  then show ?thesis
    unfolding evidence_def Let_def f64_mul_def [of "clamp _ _ _"]
    using clamp_unit by (intro f64.r_product_unit) auto
qed

lemma freshness_unit: "0 \<le> freshness now_ms b \<and> freshness now_ms b \<le> 1"
proof (cases "age_days now_ms b")
  case (Some d)
  have n: "f64_sub STALE_DAYS FRESH_DAYS = 76" using f64.r_int [of 76] by (simp add: f64_sub_def STALE_DAYS_def FRESH_DAYS_def)
  show ?thesis
  proof (cases "d \<le> 14 \<or> 90 \<le> d")
    case False
    then have "rnd 0 \<le> rnd (d - 14)" "rnd (d - 14) \<le> rnd (of_int 76)" by (auto intro!: f64.r_mono)
    then have "0 \<le> rnd (d - 14)" "rnd (d - 14) \<le> 76" using f64.r_int [of 76] by (simp_all add: f64.r_0)
    then have "0 \<le> rnd (d - 14) / 76" "rnd (d - 14) / 76 \<le> 1" by simp_all
    from f64.r_unit [OF this] have "0 \<le> 1 - rnd (rnd (d - 14) / 76)" "1 - rnd (rnd (d - 14) / 76) \<le> 1" by simp_all
    from f64.r_unit [OF this] show ?thesis
      using Some False n by (simp add: freshness_def f64_sub_def f64_div_def FRESH_DAYS_def STALE_DAYS_def)
  qed (use Some in \<open>auto simp: freshness_def FRESH_DAYS_def STALE_DAYS_def\<close>)
qed (simp add: freshness_def)

lemma confidence_unit: "0 \<le> confidence ln1p now_ms b sig exe \<and> confidence ln1p now_ms b sig exe \<le> 1"
  using evidence_unit freshness_unit
  by (auto simp: confidence_def f64_mul_def split: option.splits intro: f64.r_product_unit [THEN conjunct1]
      f64.r_product_unit [THEN conjunct2])

lemma known_weight: "f64_sub 1 KNOWN_FACTOR = 8106479329266893 / 2 ^ 53"
  unfolding f64_sub_def KNOWN_FACTOR_def by code_simp

lemma floor_factor: "rnd (1 - 8106479329266893 / 2 ^ 53) = 900719925474099 / 2 ^ 53"
  by code_simp

lemma rnd_weight: "rnd (8106479329266893 / 2 ^ 53) = 8106479329266893 / 2 ^ 53"
  by code_simp

lemma factor_bounds:
  "900719925474099 / 2 ^ 53 \<le> factor ln1p now_ms b sig exe \<and> factor ln1p now_ms b sig exe \<le> 1"
proof -
  define c where "c = confidence ln1p now_ms b sig exe"
  define w :: rat where "w = 8106479329266893 / 2 ^ 53"
  have c: "0 \<le> c" "c \<le> 1" using confidence_unit by (simp_all add: c_def)
  have w0: "0 \<le> w" by (simp add: w_def)
  have "c * w \<le> 1 * w" by (rule mult_right_mono [OF c(2) w0])
  then have "rnd (c * w) \<le> rnd w" by (intro f64.r_mono) simp
  then have up: "rnd (c * w) \<le> w" using rnd_weight by (simp add: w_def)
  have "0 \<le> rnd (c * w)" using c w0 by (intro f64.r_nonneg) simp
  then have "rnd (1 - rnd (c * w)) \<le> rnd 1" by (intro f64.r_mono) simp
  moreover have "rnd (1 - w) \<le> rnd (1 - rnd (c * w))" using up by (intro f64.r_mono) simp
  moreover have "factor ln1p now_ms b sig exe = rnd (1 - rnd (c * w))"
    unfolding factor_def f64_mul_def known_weight c_def [symmetric] w_def [symmetric]
    by (rule f64_sub_def)
  moreover have "rnd (1 - w) = 900719925474099 / 2 ^ 53" unfolding w_def by (rule floor_factor)
  ultimately show ?thesis using f64.r_1 by (simp only:)
qed

lemma factor_zero_confidence: "confidence ln1p now_ms b sig exe = 0 \<Longrightarrow> factor ln1p now_ms b sig exe = 1"
  by (simp add: factor_def f64_mul_def f64_sub_def f64.r_0 f64.r_1)

text \<open>
  Whatever was learned, confidence is between 0 and 1, a discount never raises a score
  and always leaves more than 9/100 of it; a pair that was never learned is not discounted at all.
\<close>

theorem baseline_bounds:
  "0 \<le> confidence ln1p now_ms b sig exe \<and> confidence ln1p now_ms b sig exe \<le> 1
   \<and> 9 / 100 < factor ln1p now_ms b sig exe \<and> factor ln1p now_ms b sig exe \<le> 1
   \<and> (\<not> known b sig exe \<longrightarrow> factor ln1p now_ms b sig exe = 1)"
proof -
  have "9 / 100 < factor ln1p now_ms b sig exe"
    using factor_bounds [of ln1p now_ms b sig exe] by simp
  moreover have "\<not> known b sig exe \<Longrightarrow> confidence ln1p now_ms b sig exe = 0"
    by (simp add: known_def confidence_def)
  ultimately show ?thesis using confidence_unit factor_bounds factor_zero_confidence by blast
qed

theorem baseline_bounds_witness:
  "factor (\<lambda>x. x) 0 (baseline_new 5) ''suid_create'' ''/tmp/x'' = 1"
  using baseline_bounds [where b = "baseline_new 5" and sig = "''suid_create''" and exe = "''/tmp/x''"
      and ln1p = "\<lambda>x. x" and now_ms = 0]
  by (simp add: known_def stat_of_def baseline_new_def)

lemma freshness_antimono:
  assumes "age_days n1 b1 = Some d1" and "age_days n2 b2 = Some d2" and "d1 \<le> d2"
  shows "freshness n2 b2 \<le> freshness n1 b1"
proof (cases "d1 \<le> 14 \<or> 90 \<le> d2")
  case True
  then show ?thesis
    using freshness_unit [of n1 b1] freshness_unit [of n2 b2] assms
    by (auto simp: freshness_def FRESH_DAYS_def STALE_DAYS_def)
next
  case False
  have n: "f64_sub STALE_DAYS FRESH_DAYS = 76" using f64.r_int [of 76] by (simp add: f64_sub_def STALE_DAYS_def FRESH_DAYS_def)
  have "rnd (d1 - 14) \<le> rnd (d2 - 14)" using assms(3) by (intro f64.r_mono) simp
  then have "rnd (rnd (d1 - 14) / 76) \<le> rnd (rnd (d2 - 14) / 76)" by (intro f64.r_mono) simp
  then have "rnd (1 - rnd (rnd (d2 - 14) / 76)) \<le> rnd (1 - rnd (rnd (d1 - 14) / 76))"
    by (intro f64.r_mono) simp
  then show ?thesis using False assms n
    by (simp add: freshness_def f64_sub_def f64_div_def FRESH_DAYS_def STALE_DAYS_def)
qed

text \<open>
  A baseline that is 90 days old or more discounts nothing, and between two moments
  the older baseline never counts for more.
\<close>

theorem stale_baseline_suppresses_nothing:
  "(is_expired now_ms b \<longrightarrow> factor ln1p now_ms b sig exe = 1)
   \<and> (t1 \<le> t2 \<longrightarrow> t1 \<noteq> 0 \<longrightarrow> freshness now_ms (evaluate_at t2 b) \<le> freshness now_ms (evaluate_at t1 b))"
proof (intro conjI impI)
  assume "is_expired now_ms b"
  then have "freshness now_ms b = 0"
    by (auto simp: is_expired_def freshness_def STALE_DAYS_def FRESH_DAYS_def split: option.splits)
  then have "confidence ln1p now_ms b sig exe = 0"
    by (simp add: confidence_def f64_mul_def f64.r_0 split: option.split)
  then show "factor ln1p now_ms b sig exe = 1" by (rule factor_zero_confidence)
next
  assume t: "t1 \<le> t2" "t1 \<noteq> 0"
  show "freshness now_ms (evaluate_at t2 b) \<le> freshness now_ms (evaluate_at t1 b)"
  proof (cases "b_learned_at_ms b = 0")
    case True
    then show ?thesis by (simp add: freshness_def age_days_def evaluate_at_def)
  next
    case False
    have t2: "t2 \<noteq> 0" using t by (auto simp: word_le_nat_alt unat_eq_0)
    have "saturating_sub t1 (b_learned_at_ms b) \<le> saturating_sub t2 (b_learned_at_ms b)"
      using t(1) by (simp add: word_le_nat_alt unat_saturating_sub diff_le_mono)
    then have "uint (saturating_sub t1 (b_learned_at_ms b)) \<le> uint (saturating_sub t2 (b_learned_at_ms b))"
      by (simp add: word_le_def)
    then have "(of_int (uint (saturating_sub t1 (b_learned_at_ms b))) :: rat)
        \<le> of_int (uint (saturating_sub t2 (b_learned_at_ms b)))" by (simp only: of_int_le_iff)
    then have "rnd (u64_f64 (saturating_sub t1 (b_learned_at_ms b)) / 86400000)
        \<le> rnd (u64_f64 (saturating_sub t2 (b_learned_at_ms b)) / 86400000)"
      unfolding u64_f64_def by (intro f64.r_mono divide_right_mono) simp_all
    then show ?thesis
      using False t(2) t2
      by (intro freshness_antimono [of _ _ "rnd (u64_f64 (saturating_sub t1 (b_learned_at_ms b)) / 86400000)"
            _ _ "rnd (u64_f64 (saturating_sub t2 (b_learned_at_ms b)) / 86400000)"])
         (simp_all add: age_days_def evaluate_at_def f64_div_def MS_PER_DAY_def Let_def)
  qed
qed

theorem stale_baseline_suppresses_nothing_witness:
  "factor (\<lambda>x. x) 0 (evaluate_at 7776000001 (baseline_new 1)) ''setcap'' ''/bin/x'' = 1"
proof -
  have "f64_div (u64_f64 7776000000) MS_PER_DAY = 90"
    using f64.r_int [of 7776000000] f64.r_int [of 90] by (simp add: f64_div_def u64_f64_def MS_PER_DAY_def)
  then have "is_expired 0 (evaluate_at 7776000001 (baseline_new 1))"
    by (simp add: is_expired_def age_days_def evaluate_at_def baseline_new_def saturating_sub_def STALE_DAYS_def)
  then show ?thesis using stale_baseline_suppresses_nothing by blast
qed

section \<open>Evidence needs recurrence\<close>

lemma evidence_burst:
  assumes "span_ns s = 0 \<or> b_window_ns b = 0" shows "evidence ln1p b s \<le> 1 / 2"
proof -
  have "(if b_window_ns b = 0 then 0 else clamp 0 1 (f64_div (u64_f64 (span_ns s)) (u64_f64 (b_window_ns b)))) = 0"
    using assms by (auto simp: clamp_def f64_div_def u64_f64_def f64.r_0)
  then have "evidence ln1p b s = rnd (clamp 0 1 (f64_div (ln1p (u64_f64 (st_count s))) (ln1p SUPPORT_FULL)) * (1 / 2))"
    by (simp add: evidence_def Let_def f64_mul_def f64_add_def BURST_RECURRENCE_def f64.r_0 f64.r_half)
  also have "\<dots> \<le> rnd (1 / 2)" using clamp_unit by (intro f64.r_mono) simp
  finally show ?thesis by (simp add: f64.r_half)
qed

text \<open>
  A pair that was only ever seen at one instant, however often, or in a learning window
  of no length, keeps at least half of its confidence withheld, so more than half of the score stays.
\<close>

theorem burst_is_not_a_habit:
  assumes "stat_of b sig exe = Some s" and "st_first_ns s = st_last_ns s \<or> b_window_ns b = 0"
  shows "confidence ln1p now_ms b sig exe \<le> 1 / 2 \<and> 1 / 2 < factor ln1p now_ms b sig exe"
proof -
  have "span_ns s = 0 \<or> b_window_ns b = 0" using assms(2) by (auto simp: span_ns_def)
  from evidence_burst [OF this] have e: "evidence ln1p b s \<le> 1 / 2" .
  have "evidence ln1p b s * freshness now_ms b \<le> 1 / 2 * 1"
    using e freshness_unit evidence_unit by (intro mult_mono) auto
  then have "rnd (evidence ln1p b s * freshness now_ms b) \<le> rnd (1 / 2)" by (intro f64.r_mono) simp
  then have c: "confidence ln1p now_ms b sig exe \<le> 1 / 2"
    using assms(1) by (simp add: confidence_def f64_mul_def f64.r_half)
  have "rnd (confidence ln1p now_ms b sig exe * (8106479329266893 / 2 ^ 53)) \<le> rnd (8106479329266893 / 2 ^ 54)"
    using c by (intro f64.r_mono) simp
  also have "rnd (8106479329266893 / 2 ^ 54) = 8106479329266893 / 2 ^ 54" by code_simp
  finally have "rnd (1 - 8106479329266893 / 2 ^ 54) \<le> factor ln1p now_ms b sig exe"
    unfolding factor_def f64_mul_def known_weight f64_sub_def [of 1 "rnd _"] by (intro f64.r_mono) simp
  moreover have "1 / 2 < rnd (1 - 8106479329266893 / 2 ^ 54)" by code_simp
  ultimately show ?thesis using c by simp
qed

definition burst_baseline :: baseline where
  "burst_baseline = observe ''suid_create'' ''/tmp/x'' 9 (observe ''suid_create'' ''/tmp/x'' 9 (baseline_new 5))"

theorem burst_is_not_a_habit_witness:
  "seen_count burst_baseline ''suid_create'' ''/tmp/x'' = 2
   \<and> 1 / 2 < factor (\<lambda>x. x) 0 burst_baseline ''suid_create'' ''/tmp/x''"
proof -
  have s: "stat_of burst_baseline ''suid_create'' ''/tmp/x'' = Some \<lparr>st_count = 2, st_first_ns = 9, st_last_ns = 9\<rparr>"
    by (simp add: burst_baseline_def observe_def note_event_def baseline_new_def stat_of_def observe_stat_def Let_def)
  then show ?thesis using burst_is_not_a_habit [OF s, of "\<lambda>x. x" 0] by (simp add: seen_count_def)
qed

section \<open>Saving and loading\<close>

lemma fold_reindex_get:
  "hm_get (fold (\<lambda>e. hm_insert (key e) (val e)) es m) k =
     (case find (\<lambda>e. key e = k) (rev es) of None \<Rightarrow> hm_get m k | Some e \<Rightarrow> Some (val e))"
proof (induction es arbitrary: m)
  case (Cons e es)
  then show ?case by (simp add: find_append split: option.splits)
qed simp

lemma find_unique:
  assumes "x \<in> set xs" "P x" "\<And>y. y \<in> set xs \<Longrightarrow> P y \<Longrightarrow> y = x" shows "find P xs = Some x"
proof (cases "find P xs")
  case None
  then show ?thesis using assms(1,2) by (auto simp: find_None_iff_all)
next
  case (Some y)
  then show ?thesis using find_SomeD [OF Some] assms(3) by simp
qed

lemma reindex_flatten:
  assumes "hm_ok (b_index b)"
  shows "hm_get (b_index (reindex (flatten b))) = hm_get (b_index b)"
proof
  fix k :: "string \<times> string"
  let ?es = "sort_key e_signal (sort_key e_exe (map entry_of (b_index b)))"
  let ?key = "\<lambda>e. (e_signal e, e_exe e)"
  let ?val = "\<lambda>e. \<lparr>st_count = e_count e, st_first_ns = e_first_ns e, st_last_ns = e_last_ns e\<rparr>"
  have set: "set (rev ?es) = entry_of ` set (b_index b)" by simp
  have kv: "?key (entry_of p) = fst p" "?val (entry_of p) = snd p" for p
    by (cases p; auto simp: entry_of_def)+
  show "hm_get (b_index (reindex (flatten b))) k = hm_get (b_index b) k"
  proof (cases "hm_get (b_index b) k")
    case None
    then have "k \<notin> fst ` set (b_index b)" by (simp add: hm_get_def map_of_eq_None_iff)
    then have "find (\<lambda>e. ?key e = k) (rev ?es) = None"
      unfolding find_None_iff_all set using kv(1) by force
    then show ?thesis using None fold_reindex_get [of ?key ?val ?es hm_empty k]
      by (simp add: reindex_def flatten_def)
  next
    case (Some s)
    then have in_b: "(k, s) \<in> set (b_index b)" by (simp add: hm_get_def map_of_SomeD)
    have "find (\<lambda>e. ?key e = k) (rev ?es) = Some (entry_of (k, s))"
    proof (rule find_unique)
      fix e assume "e \<in> set (rev ?es)" and e: "?key e = k"
      then obtain p where p: "p \<in> set (b_index b)" "e = entry_of p" unfolding set by blast
      then have "fst p = k" using e kv(1) by simp
      then have "p = (k, s)" using p(1) in_b assms unfolding hm_ok_def
        by (metis eq_key_imp_eq_value prod.collapse)
      then show "e = entry_of (k, s)" using p(2) by simp
    qed (use in_b kv(1) [of "(k, s)"] set in auto)
    then show ?thesis using Some kv(2) [of "(k, s)"] fold_reindex_get [of ?key ?val ?es hm_empty k]
      by (simp add: reindex_def flatten_def)
  qed
qed

text \<open>
  Saving a baseline and loading it again gives the same evidence for every pair, the
  same learning window and learning time; only the moment its age is measured against is new.
\<close>

theorem baseline_roundtrip:
  assumes "hm_ok (b_index b)"
  shows "stat_of (baseline_loaded now (baseline_saved b)) = stat_of b
    \<and> b_window_ns (baseline_loaded now (baseline_saved b)) = b_window_ns b
    \<and> b_learned_at_ms (baseline_loaded now (baseline_saved b)) = b_learned_at_ms b
    \<and> evidence ln1p (baseline_loaded now (baseline_saved b)) = evidence ln1p b
    \<and> b_evaluated_at_ms (baseline_loaded now (baseline_saved b)) = now"
proof -
  have idx: "b_index (baseline_loaded now (baseline_saved b)) = b_index (reindex (flatten b))"
    by (simp add: baseline_loaded_def baseline_saved_def reindex_def flatten_def)
  have w: "b_window_ns (baseline_loaded now (baseline_saved b)) = b_window_ns b"
    by (simp add: baseline_loaded_def baseline_saved_def reindex_def flatten_def)
  have "stat_of (baseline_loaded now (baseline_saved b)) = stat_of b"
    using reindex_flatten [OF assms] by (simp add: stat_of_def fun_eq_iff idx)
  moreover have "evidence ln1p (baseline_loaded now (baseline_saved b)) = evidence ln1p b"
    by (simp add: evidence_def fun_eq_iff w)
  moreover have "b_learned_at_ms (baseline_loaded now (baseline_saved b)) = b_learned_at_ms b"
    "b_evaluated_at_ms (baseline_loaded now (baseline_saved b)) = now"
    by (simp_all add: baseline_loaded_def baseline_saved_def reindex_def flatten_def)
  ultimately show ?thesis using w by blast
qed

lemma observe_ok: "hm_ok (b_index b) \<Longrightarrow> hm_ok (b_index (observe sig exe ts b))"
  by (simp add: observe_def note_event_def Let_def)

theorem baseline_roundtrip_witness:
  "stat_of (baseline_loaded 7 (baseline_saved burst_baseline)) ''suid_create'' ''/tmp/x''
     = stat_of burst_baseline ''suid_create'' ''/tmp/x''"
proof -
  have "hm_ok (b_index burst_baseline)"
    unfolding burst_baseline_def by (intro observe_ok) (simp add: baseline_new_def)
  then show ?thesis using baseline_roundtrip [of burst_baseline 7 "\<lambda>x. x"] by (simp add: fun_eq_iff)
qed

end
