(* ===== verification/Engine.thy ===== *)
theory Engine
  imports Rule Baseline
begin

text \<open>
  The detection engine (\<^verbatim>\<open>src/detect/mod.rs\<close>): it stores the signals of each process, scores the
  lineage of the process an event is about, and reports an incident when that lineage reaches a higher
  severity than was reported before.
\<close>

section \<open>State\<close>

record incident =
  inc_subject :: proc_key
  inc_signals :: "signal list"
  inc_score :: score_t
  inc_attack :: "string list"

record engine =
  en_signals :: "(proc_key, signal list) hm"
  en_reported :: "(proc_key, severity) hm"
  en_min_severity :: severity
  en_baseline :: "baseline option"
  en_rules :: "rule_set option"

text \<open>What the engine takes from outside the process: the logarithm and the wall clock.\<close>

record env =
  env_ln1p :: "rat \<Rightarrow> rat"
  env_now_ms :: u64

definition engine_new :: "severity \<Rightarrow> engine" where
  "engine_new min_sev = \<lparr>en_signals = hm_empty, en_reported = hm_empty, en_min_severity = min_sev,
     en_baseline = None, en_rules = None\<rparr>"

definition with_rules :: "rule_set \<Rightarrow> engine \<Rightarrow> engine" where
  "with_rules rs e = e\<lparr>en_rules := Some rs\<rparr>"

definition with_baseline :: "baseline \<Rightarrow> engine \<Rightarrow> engine" where
  "with_baseline b e = e\<lparr>en_baseline := Some b\<rparr>"

section \<open>Scoring a lineage\<close>

text \<open>\<^verbatim>\<open>{:.0}\<close> prints the nearest integer, ties to even.\<close>

definition fmt0 :: "rat \<Rightarrow> string" where
  "fmt0 x = show_nat (nat (round_even x))"

definition adjust_signal :: "env \<Rightarrow> baseline \<Rightarrow> graph \<Rightarrow> signal \<Rightarrow> signal" where
  "adjust_signal env b g sig =
     (let exe = (case graph_get g (s_key sig) of None \<Rightarrow> [] | Some n \<Rightarrow> pn_exe n);
          fac = factor (env_ln1p env) (env_now_ms env) b (s_id sig) exe
      in if fac \<ge> 1 then sig
         else
           let conf = confidence (env_ln1p env) (env_now_ms env) b (s_id sig) exe
           in sig\<lparr>s_detail := s_detail sig @ '' [baseline: seen '' @ show_word (seen_count b (s_id sig) exe)
                    @ ''x, confidence '' @ fmt0 (f64_mul conf 100) @ ''%]'',
                  s_score := as_u32 (f64_round (f64_mul (u32_f64 (s_score sig)) fac))\<rparr>)"

definition adjust_for_baseline :: "env \<Rightarrow> engine \<Rightarrow> graph \<Rightarrow> signal list \<Rightarrow> signal list" where
  "adjust_for_baseline env e g signals =
     (case en_baseline e of None \<Rightarrow> signals | Some b \<Rightarrow> map (adjust_signal env b g) signals)"

definition is_network_daemon :: "string \<Rightarrow> bool" where
  "is_network_daemon comm \<longleftrightarrow> comm \<in> set [''nginx'', ''apache2'', ''httpd'', ''sshd'', ''postgres'',
     ''mysqld'', ''redis-server'', ''node'']"

definition lineage :: "graph \<Rightarrow> proc_key \<Rightarrow> proc_key list" where
  "lineage g subject =
     (let l = map pn_key (ancestry g subject) in if l = [] then [subject] else l)"

definition context_of :: "proc_key list \<Rightarrow> graph \<Rightarrow> context_t" where
  "context_of lin g =
     (let in_cont = list_ex (\<lambda>k. case graph_get g k of None \<Rightarrow> False | Some n \<Rightarrow> pn_container n \<noteq> []) lin;
          net = (if lin = [] then False
                 else (case graph_get g (last lin) of None \<Rightarrow> False | Some n \<Rightarrow> is_network_daemon (pn_comm n)))
      in \<lparr>network_rooted = net, in_container = in_cont\<rparr>)"

definition gather :: "engine \<Rightarrow> proc_key list \<Rightarrow> signal list" where
  "gather e lin = concat (map (\<lambda>k. case hm_get (en_signals e) k of None \<Rightarrow> [] | Some ss \<Rightarrow> ss) lin)"

definition evaluate :: "env \<Rightarrow> proc_key \<Rightarrow> graph \<Rightarrow> engine \<Rightarrow> incident option \<times> engine" where
  "evaluate env subject g e =
     (let lin = lineage g subject; signals0 = gather e lin in
      if signals0 = [] then (None, e)
      else
        let signals = adjust_for_baseline env e g signals0;
            sc = score signals (context_of lin g)
        in if sc_severity sc < en_min_severity e then (None, e)
           else if (case hm_get (en_reported e) subject of None \<Rightarrow> False | Some p \<Rightarrow> sc_severity sc \<le> p) then (None, e)
           else
             (Some \<lparr>inc_subject = subject, inc_signals = sort_key s_ts_ns signals, inc_score = sc,
                    inc_attack = remdups_adj (sort (concat (map s_attack signals)))\<rparr>,
              e\<lparr>en_reported := hm_insert subject (sc_severity sc) (en_reported e)\<rparr>))"

section \<open>Events\<close>

fun put_signal :: "signal \<Rightarrow> signal list \<Rightarrow> signal list" where
  "put_signal sig [] = [sig]"
| "put_signal sig (x # xs) =
     (if s_id x = s_id sig then if s_score x \<ge> s_score sig then x # xs else sig # xs
      else x # put_signal sig xs)"

definition engine_on_event :: "env \<Rightarrow> event \<Rightarrow> graph \<Rightarrow> engine \<Rightarrow> incident option \<times> engine" where
  "engine_on_event env ev g e0 =
     (let (rule_sigs, e) = (case en_rules e0 of None \<Rightarrow> ([], e0)
            | Some rs \<Rightarrow> (case rules_on_event ev g rs of (out, rs') \<Rightarrow> (out, e0\<lparr>en_rules := Some rs'\<rparr>)));
          new_signals = detect ev g @ rule_sigs
      in if new_signals = [] then (None, e)
         else
           let subject = s_key (hd new_signals)
           in evaluate env subject g
                (e\<lparr>en_signals := hm_entry subject [] (fold put_signal new_signals) (en_signals e)\<rparr>))"

definition engine_reap :: "graph \<Rightarrow> engine \<Rightarrow> engine" where
  "engine_reap g e =
     e\<lparr>en_signals := hm_retain (\<lambda>k _. graph_get g k \<noteq> None) (en_signals e),
       en_reported := hm_retain (\<lambda>k _. graph_get g k \<noteq> None) (en_reported e),
       en_rules := map_option (rules_reap g) (en_rules e)\<rparr>"

definition assess :: "env \<Rightarrow> proc_key \<Rightarrow> graph \<Rightarrow> engine \<Rightarrow> signal list \<times> score_t" where
  "assess env subject g e =
     (let lin = lineage g subject;
          signals = adjust_for_baseline env e g (sort_key s_ts_ns (gather e lin))
      in (signals, score signals (context_of lin g)))"

section \<open>The view of the graph the engine relies on\<close>

locale process_view =
  fixes get :: "'g \<Rightarrow> proc_key \<Rightarrow> proc_node option"
    and anc :: "'g \<Rightarrow> proc_key \<Rightarrow> proc_node list"
    and wf :: "'g \<Rightarrow> bool"
  assumes anc_self: "get g k = Some n \<Longrightarrow> \<exists>ns. anc g k = n # ns"
    and anc_unknown: "get g k = None \<Longrightarrow> anc g k = []"
    and anc_known: "wf g \<Longrightarrow> n \<in> set (anc g k) \<Longrightarrow> get g (pn_key n) = Some n"
    and get_key: "wf g \<Longrightarrow> get g k = Some n \<Longrightarrow> pn_key n = k"
    and anc_bound: "length (anc g k) \<le> 64"
begin

definition lin :: "'g \<Rightarrow> proc_key \<Rightarrow> proc_key list" where
  "lin g k = (let l = map pn_key (anc g k) in if l = [] then [k] else l)"

text \<open>A lineage starts at its subject, is short, and apart from the subject names only known processes.\<close>

lemma lin_self: "wf g \<Longrightarrow> \<exists>ks. lin g k = k # ks"
proof (cases "get g k")
  case None
  then show ?thesis using anc_unknown by (simp add: lin_def)
next
  case (Some n)
  assume "wf g"
  then have "pn_key n = k" using get_key Some by blast
  moreover obtain ns where "anc g k = n # ns" using anc_self [OF Some] by blast
  ultimately show ?thesis by (simp add: lin_def)
qed

lemma lin_bound: "1 \<le> length (lin g k) \<and> length (lin g k) \<le> 64"
  using anc_bound [of g k] by (auto simp: lin_def Let_def Suc_le_eq)

lemma lin_known: "wf g \<Longrightarrow> j \<in> set (lin g k) \<Longrightarrow> j = k \<or> get g j \<noteq> None"
  using anc_known [of g _ k] by (auto simp: lin_def Let_def split: if_splits)

end

lemma ancestry_go_known: "graph_wf g \<Longrightarrow> n \<in> set (ancestry_go i g cur) \<Longrightarrow> graph_get g (pn_key n) = Some n"
proof (induction i arbitrary: cur)
  case (Suc i)
  then show ?case using wf_key [OF Suc.prems(1)] by (auto split: option.splits)
qed simp

lemma ancestry_go_length: "length (ancestry_go i g cur) \<le> i"
  by (induction i arbitrary: cur) (auto split: option.splits)

interpretation pv: process_view graph_get ancestry graph_wf
proof
  fix g :: graph and k n
  show "\<exists>ns. ancestry g k = n # ns" if "graph_get g k = Some n"
    using that by (simp add: ancestry_def eval_nat_numeral)
  show "ancestry g k = []" if "graph_get g k = None"
    using that by (simp add: ancestry_def eval_nat_numeral)
  show "graph_get g (pn_key n) = Some n" if "graph_wf g" "n \<in> set (ancestry g k)"
    using that ancestry_go_known by (auto simp: ancestry_def)
  show "pn_key n = k" if "graph_wf g" "graph_get g k = Some n" using that by (rule wf_key)
  show "length (ancestry g k) \<le> 64" by (simp add: ancestry_def ancestry_go_length)
qed

lemma lineage_eq: "lineage = pv.lin"
  by (simp add: fun_eq_iff lineage_def pv.lin_def)

section \<open>The invariant\<close>

definition engine_ok :: "engine \<Rightarrow> bool" where
  "engine_ok e \<longleftrightarrow> hm_ok (en_signals e) \<and> hm_ok (en_reported e)
     \<and> (\<forall>k ss. hm_get (en_signals e) k = Some ss \<longrightarrow> distinct (map s_id ss))"

lemma put_signal_ids: "set (map s_id (put_signal s xs)) = insert (s_id s) (set (map s_id xs))"
  by (induction xs) auto

lemma put_signal_distinct: "distinct (map s_id xs) \<Longrightarrow> distinct (map s_id (put_signal s xs))"
proof (induction xs)
  case (Cons x xs)
  have "s_id x \<notin> set (map s_id (put_signal s xs))" if "s_id x \<noteq> s_id s"
    using Cons.prems that put_signal_ids [of s xs] by auto
  then show ?case using Cons by auto
qed simp

lemma put_signal_highest:
  "(\<exists>x \<in> set (put_signal s xs). s_id x = s_id s \<and> s_score s \<le> s_score x)
   \<and> (\<forall>y \<in> set xs. \<exists>x \<in> set (put_signal s xs). s_id x = s_id y \<and> s_score y \<le> s_score x)"
  by (induction xs) auto

lemma fold_put_distinct: "distinct (map s_id xs) \<Longrightarrow> distinct (map s_id (fold put_signal ns xs))"
  by (induction ns arbitrary: xs) (simp_all add: put_signal_distinct)

lemma fold_put_keeps: "y \<in> set xs \<Longrightarrow> \<exists>x \<in> set (fold put_signal ns xs). s_id x = s_id y \<and> s_score y \<le> s_score x"
proof (induction ns arbitrary: xs y)
  case (Cons n ns)
  obtain z where z: "z \<in> set (put_signal n xs)" "s_id z = s_id y" "s_score y \<le> s_score z"
    using put_signal_highest [of n xs] Cons.prems by blast
  obtain x where "x \<in> set (fold put_signal ns (put_signal n xs))" "s_id x = s_id z" "s_score z \<le> s_score x"
    using Cons.IH [OF z(1)] by blast
  then show ?case using z by force
qed auto

lemma fold_put_highest:
  "n \<in> set ns \<Longrightarrow> \<exists>x \<in> set (fold put_signal ns xs). s_id x = s_id n \<and> s_score n \<le> s_score x"
proof (induction ns arbitrary: xs)
  case (Cons m ns)
  show ?case
  proof (cases "n = m")
    case True
    obtain z where z: "z \<in> set (put_signal m xs)" "s_id z = s_id n" "s_score n \<le> s_score z"
      using put_signal_highest [of m xs] True by blast
    obtain x where "x \<in> set (fold put_signal ns (put_signal m xs))" "s_id x = s_id z" "s_score z \<le> s_score x"
      using fold_put_keeps [OF z(1)] by blast
    then show ?thesis using z by force
  qed (use Cons in simp)
qed simp

text \<open>The cases of an evaluation.\<close>

lemma evaluate_None: "evaluate env k g e = (None, e') \<Longrightarrow> e' = e"
  by (auto simp: evaluate_def Let_def split: if_splits)

lemma evaluate_Some:
  assumes "evaluate env k g e = (Some inc, e')"
  shows "gather e (lineage g k) \<noteq> []"
    and "inc_subject inc = k"
    and "inc_score inc = score (adjust_for_baseline env e g (gather e (lineage g k))) (context_of (lineage g k) g)"
    and "inc_signals inc = sort_key s_ts_ns (adjust_for_baseline env e g (gather e (lineage g k)))"
    and "inc_attack inc = remdups_adj (sort (concat (map s_attack (adjust_for_baseline env e g (gather e (lineage g k))))))"
    and "en_min_severity e \<le> sc_severity (inc_score inc)"
    and "\<And>p. hm_get (en_reported e) k = Some p \<Longrightarrow> p < sc_severity (inc_score inc)"
    and "e' = e\<lparr>en_reported := hm_insert k (sc_severity (inc_score inc)) (en_reported e)\<rparr>"
  using assms by (auto simp: evaluate_def Let_def not_less not_le split: if_splits option.splits)

lemma evaluate_ok: "engine_ok e \<Longrightarrow> engine_ok (snd (evaluate env k g e))"
proof (cases "evaluate env k g e")
  case (Pair r e')
  assume ok: "engine_ok e"
  show ?thesis
  proof (cases r)
    case None
    then have "e' = e" using Pair evaluate_None by blast
    then show ?thesis using Pair ok by simp
  next
    case (Some inc)
    then have "e' = e\<lparr>en_reported := hm_insert k (sc_severity (inc_score inc)) (en_reported e)\<rparr>"
      using Pair evaluate_Some(8) by blast
    then show ?thesis using Pair ok by (simp add: engine_ok_def)
  qed
qed

text \<open>The engine with the new signals of an event stored, before the lineage is evaluated.\<close>

definition new_signals_of :: "event \<Rightarrow> graph \<Rightarrow> engine \<Rightarrow> signal list" where
  "new_signals_of ev g e = detect ev g @ (case en_rules e of None \<Rightarrow> [] | Some rs \<Rightarrow> fst (rules_on_event ev g rs))"

definition stored :: "event \<Rightarrow> graph \<Rightarrow> engine \<Rightarrow> engine" where
  "stored ev g e =
     (let e1 = e\<lparr>en_rules := map_option (\<lambda>rs. snd (rules_on_event ev g rs)) (en_rules e)\<rparr>; ns = new_signals_of ev g e
      in if ns = [] then e1
         else e1\<lparr>en_signals := hm_entry (s_key (hd ns)) [] (fold put_signal ns) (en_signals e1)\<rparr>)"

lemma engine_on_event_eq:
  "engine_on_event env ev g e =
     (if new_signals_of ev g e = [] then (None, stored ev g e)
      else evaluate env (s_key (hd (new_signals_of ev g e))) g (stored ev g e))"
proof -
  have none: "en_rules e = None \<Longrightarrow> e\<lparr>en_rules := None\<rparr> = e" by (cases e) simp
  show ?thesis
    by (cases "en_rules e")
       (auto simp: engine_on_event_def stored_def new_signals_of_def Let_def none case_prod_beta)
qed

lemma stored_ok: "engine_ok e \<Longrightarrow> engine_ok (stored ev g e)"
  by (auto simp: engine_ok_def stored_def Let_def intro!: fold_put_distinct split: option.splits if_splits)

lemma stored_reported [simp]: "en_reported (stored ev g e) = en_reported e"
  "en_min_severity (stored ev g e) = en_min_severity e" "en_baseline (stored ev g e) = en_baseline e"
  by (simp_all add: stored_def Let_def)

lemma engine_on_event_ok: "engine_ok e \<Longrightarrow> engine_ok (snd (engine_on_event env ev g e))"
  by (simp add: engine_on_event_eq stored_ok evaluate_ok)

lemma engine_reap_ok: "engine_ok e \<Longrightarrow> engine_ok (engine_reap g e)"
  by (auto simp: engine_ok_def engine_reap_def hm_get_retain split: option.splits if_splits)

section \<open>Incidents\<close>

lemma set_adjust: "set (adjust_for_baseline env e g ss) =
    (case en_baseline e of None \<Rightarrow> set ss | Some b \<Rightarrow> adjust_signal env b g ` set ss)"
  by (simp add: adjust_for_baseline_def split: option.split)

lemma distinct_dedup_sorted: "sorted (xs :: 'a::linorder list) \<Longrightarrow> distinct (remdups_adj xs)"
proof (induction xs rule: remdups_adj.induct)
  case (3 x y xs)
  then show ?case by (auto dest: order_antisym)
qed simp_all

lemma sort_key_empty [simp]: "sort_key f xs = [] \<longleftrightarrow> xs = []"
  by (metis set_empty set_sort)

lemma stored_gathers:
  assumes "graph_wf g" and "s \<in> set (new_signals_of ev g e)"
  shows "\<exists>x \<in> set (gather (stored ev g e) (lineage g (s_key (hd (new_signals_of ev g e))))).
    s_id x = s_id s \<and> s_score s \<le> s_score x"
proof -
  let ?k = "s_key (hd (new_signals_of ev g e))"
  obtain ks where ks: "lineage g ?k = ?k # ks" using pv.lin_self [OF assms(1)] by (auto simp: lineage_eq)
  have ne: "new_signals_of ev g e \<noteq> []" using assms(2) by auto
  have "hm_get (en_signals (stored ev g e)) ?k =
      Some (fold put_signal (new_signals_of ev g e) (case hm_get (en_signals e) ?k of None \<Rightarrow> [] | Some v \<Rightarrow> v))"
    using ne by (simp add: stored_def Let_def)
  then have "set (fold put_signal (new_signals_of ev g e) (case hm_get (en_signals e) ?k of None \<Rightarrow> [] | Some v \<Rightarrow> v))
      \<subseteq> set (gather (stored ev g e) (lineage g ?k))"
    by (auto simp: gather_def ks)
  then show ?thesis using fold_put_highest [OF assms(2)] by blast
qed

lemma score_adjusted_severity:
  "sc_severity (score ss ctx) = from_score (sc_total (score ss ctx))"
  by (simp add: score_def Let_def case_prod_beta) (simp add: from_score_def)

text \<open>
  When the engine reports an incident, its severity reaches the configured minimum and
  is higher than any reported before for the same subject; it is recorded as reported; the incident's
  signals are the lineage's, oldest first, its techniques sorted without repeats, and its score is that
  of those signals.
\<close>

theorem incident_escalates:
  assumes "engine_on_event env ev g e = (Some inc, e')"
  shows "en_min_severity e \<le> sc_severity (inc_score inc)
    \<and> (\<forall>p. hm_get (en_reported e) (inc_subject inc) = Some p \<longrightarrow> p < sc_severity (inc_score inc))
    \<and> hm_get (en_reported e') = (hm_get (en_reported e))(inc_subject inc \<mapsto> sc_severity (inc_score inc))
    \<and> sorted (map s_ts_ns (inc_signals inc)) \<and> inc_signals inc \<noteq> []
    \<and> sorted (inc_attack inc) \<and> distinct (inc_attack inc)
    \<and> set (inc_attack inc) = (\<Union>s \<in> set (inc_signals inc). set (s_attack s))
    \<and> inc_score inc = score (inc_signals inc) (context_of (lineage g (inc_subject inc)) g)"
proof -
  let ?k = "s_key (hd (new_signals_of ev g e))"
  have ev: "evaluate env ?k g (stored ev g e) = (Some inc, e')"
    using assms by (simp add: engine_on_event_eq split: if_splits)
  note f = evaluate_Some [OF ev]
  let ?ss = "adjust_for_baseline env (stored ev g e) g (gather (stored ev g e) (lineage g ?k))"
  have ne: "?ss \<noteq> []" using f(1) by (simp add: adjust_for_baseline_def split: option.split)
  have "score ?ss ctx = score (inc_signals inc) ctx" for ctx
    unfolding f(4) by (rule score_set) simp
  moreover have "distinct (inc_attack inc)" "sorted (inc_attack inc)"
    unfolding f(5) by (simp_all add: distinct_dedup_sorted)
  ultimately show ?thesis
    using f(2,3,6,7) ne unfolding f(4,5,8) by (auto simp: fun_eq_iff)
qed

definition example_env :: env where
  "example_env = \<lparr>env_ln1p = (\<lambda>x. x), env_now_ms = 0\<rparr>"

definition suid_event :: event where
  "suid_event = blank_event\<lparr>ev_type := 6, ev_tgid := 9, ev_start_boottime := 9\<rparr>"

lemma engine_new_sel [simp]:
  "en_signals (engine_new m) = []" "en_reported (engine_new m) = []" "en_min_severity (engine_new m) = m"
  "en_baseline (engine_new m) = None" "en_rules (engine_new m) = None"
  by (simp_all add: engine_new_def hm_empty_def)

lemma suid_signals: "new_signals_of suid_event g (engine_new m) = suid_create suid_event (ProcKey 9 9)"
  by (simp add: new_signals_of_def engine_new_def detect_def suid_event_def event_evals)

lemma suid_reported:
  "\<exists>inc e'. engine_on_event env suid_event (graph_new 9 5) (engine_new Low) = (Some inc, e')
     \<and> inc_subject inc = ProcKey 9 9 \<and> sc_total (inc_score inc) = 45 \<and> sc_severity (inc_score inc) = Low"
proof -
  let ?g = "graph_new 9 5"
  obtain s where s: "suid_create suid_event (ProcKey 9 9) = [s]" "s_key s = ProcKey 9 9" "s_score s = 45"
    by (simp add: suid_create_def)
  let ?st = "stored suid_event ?g (engine_new Low)"
  have lin: "lineage ?g (ProcKey 9 9) = [ProcKey 9 9]"
    using pv.anc_unknown [of ?g "ProcKey 9 9"] by (simp add: lineage_def graph_get_def graph_new_def)
  have st: "en_signals ?st = [(ProcKey 9 9, [s])]" "en_reported ?st = []" "en_min_severity ?st = Low" "en_baseline ?st = None"
    unfolding stored_def suid_signals s(1) Let_def
    by (simp_all add: s engine_new_def hm_entry_def hm_insert_def hm_get_def hm_empty_def)
  have ga: "gather ?st [ProcKey 9 9] = [s]" by (simp add: gather_def st hm_get_def)
  have ctx: "percent (context_of [ProcKey 9 9] ?g) = 100"
    by (simp add: percent_def context_of_def graph_get_def graph_new_def)
  have tot: "sc_total (score [s] (context_of [ProcKey 9 9] ?g)) = 45"
    by (simp add: score_single_total s ctx)
  then have sev: "sc_severity (score [s] (context_of [ProcKey 9 9] ?g)) = Low"
    by (simp add: score_adjusted_severity from_score_def)
  show ?thesis
    using tot sev
    by (simp add: engine_on_event_eq suid_signals s evaluate_def lin ga adjust_for_baseline_def st hm_get_def Let_def)
qed

theorem incident_escalates_witness:
  "\<exists>inc e'. engine_on_event example_env suid_event (graph_new 9 5) (engine_new Low) = (Some inc, e')
     \<and> Low \<le> sc_severity (inc_score inc) \<and> hm_get (en_reported e') (ProcKey 9 9) = Some Low"
proof -
  obtain inc e' where r: "engine_on_event example_env suid_event (graph_new 9 5) (engine_new Low) = (Some inc, e')"
    and f: "inc_subject inc = ProcKey 9 9" "sc_severity (inc_score inc) = Low"
    using suid_reported by blast
  from incident_escalates [OF r] f r show ?thesis by auto
qed

section \<open>A stream of events\<close>

text \<open>Each event comes with the graph after it; housekeeping with the graph after its own.\<close>

datatype engine_op = OnEvent event graph | OnReap graph

fun engine_run :: "env \<Rightarrow> engine_op list \<Rightarrow> engine \<Rightarrow> incident list \<times> engine" where
  "engine_run env [] e = ([], e)"
| "engine_run env (OnEvent ev g # ops) e =
     (case engine_on_event env ev g e of (r, e1) \<Rightarrow>
        (case engine_run env ops e1 of (incs, e2) \<Rightarrow>
           ((case r of None \<Rightarrow> incs | Some inc \<Rightarrow> inc # incs), e2)))"
| "engine_run env (OnReap g # ops) e = engine_run env ops (engine_reap g e)"

text \<open>Events of a live process are never separated by a reap that has lost it.\<close>

definition keeps_subject :: "proc_key \<Rightarrow> engine_op list \<Rightarrow> bool" where
  "keeps_subject k ops \<longleftrightarrow> (\<forall>g. OnReap g \<in> set ops \<longrightarrow> graph_get g k \<noteq> None)"

lemma on_event_reported:
  assumes "engine_on_event env ev g e = (r, e')"
  shows "hm_get (en_reported e') = (case r of None \<Rightarrow> hm_get (en_reported e)
      | Some inc \<Rightarrow> (hm_get (en_reported e))(inc_subject inc \<mapsto> sc_severity (inc_score inc)))
    \<and> (\<forall>inc p. r = Some inc \<longrightarrow> hm_get (en_reported e) (inc_subject inc) = Some p \<longrightarrow> p < sc_severity (inc_score inc))"
proof (cases r)
  case None
  have "en_reported e' = en_reported e"
  proof (cases "new_signals_of ev g e = []")
    case True
    then have "e' = stored ev g e" using assms by (simp add: engine_on_event_eq)
    then show ?thesis by simp
  next
    case False
    then have "e' = stored ev g e" using assms None evaluate_None by (simp add: engine_on_event_eq)
    then show ?thesis by simp
  qed
  then show ?thesis using None by simp
next
  case (Some inc)
  then have ev: "evaluate env (s_key (hd (new_signals_of ev g e))) g (stored ev g e) = (Some inc, e')"
    using assms by (simp add: engine_on_event_eq split: if_splits)
  note f = evaluate_Some [OF ev]
  show ?thesis using Some f(2,7) unfolding f(8) by (auto simp: fun_eq_iff)
qed

text \<open>The severities reported for a subject from a given state on.\<close>

definition severities :: "proc_key \<Rightarrow> incident list \<Rightarrow> severity list" where
  "severities k incs = map (\<lambda>i. sc_severity (inc_score i)) (filter (\<lambda>i. inc_subject i = k) incs)"

lemma run_escalates:
  "hm_ok (en_reported e) \<Longrightarrow> keeps_subject k ops \<Longrightarrow>
   sorted_wrt (<) (severities k (fst (engine_run env ops e)))
   \<and> (\<forall>p \<in> set (severities k (fst (engine_run env ops e))). \<forall>q. hm_get (en_reported e) k = Some q \<longrightarrow> q < p)"
proof (induction ops arbitrary: e)
  case (Cons op ops)
  show ?case
  proof (cases op)
    case (OnReap g)
    then have "graph_get g k \<noteq> None" using Cons.prems by (auto simp: keeps_subject_def)
    moreover have "hm_ok (en_reported (engine_reap g e))"
      "hm_get (en_reported (engine_reap g e)) k = (case hm_get (en_reported e) k of None \<Rightarrow> None
         | Some v \<Rightarrow> if graph_get g k \<noteq> None then Some v else None)"
      using Cons.prems(1) by (auto simp: engine_reap_def hm_get_retain split: option.splits)
    ultimately show ?thesis using Cons.IH [of "engine_reap g e"] Cons.prems(2) OnReap
      by (auto simp: keeps_subject_def split: option.splits)
  next
    case (OnEvent ev g)
    obtain r e1 where r: "engine_on_event env ev g e = (r, e1)" by (cases "engine_on_event env ev g e")
    note rep = on_event_reported [OF r]
    have ok: "hm_ok (en_reported e1)"
    proof (cases "new_signals_of ev g e = []")
      case True
      then show ?thesis using r Cons.prems(1) by (auto simp: engine_on_event_eq)
    next
      case False
      then have ev: "evaluate env (s_key (hd (new_signals_of ev g e))) g (stored ev g e) = (r, e1)"
        using r by (simp add: engine_on_event_eq)
      show ?thesis
      proof (cases r)
        case None
        then have "e1 = stored ev g e" using ev evaluate_None by blast
        then show ?thesis using Cons.prems(1) by simp
      next
        case (Some inc)
        then show ?thesis using evaluate_Some(8) ev Cons.prems(1) by fastforce
      qed
    qed
    have kp: "keeps_subject k ops" using Cons.prems(2) by (simp add: keeps_subject_def)
    note IH = Cons.IH [OF ok kp]
    show ?thesis
    proof (cases r)
      case None
      then show ?thesis using IH rep r OnEvent by (simp add: case_prod_beta)
    next
      case (Some inc)
      show ?thesis
      proof (cases "inc_subject inc = k")
        case True
        then have "hm_get (en_reported e1) k = Some (sc_severity (inc_score inc))" using rep Some by simp
        then show ?thesis using IH rep r OnEvent Some True
          by (auto simp: case_prod_beta severities_def dest: less_trans)
      next
        case False
        then have "hm_get (en_reported e1) k = hm_get (en_reported e) k" using rep Some by simp
        then show ?thesis using IH r OnEvent Some False by (simp add: case_prod_beta severities_def)
      qed
    qed
  qed
qed (simp add: severities_def)

lemma severity_chain_length: "sorted_wrt (<) (xs :: severity list) \<Longrightarrow> length xs \<le> 5"
proof -
  assume s: "sorted_wrt (<) xs"
  then have "distinct xs" by (induction xs) auto
  then have "length xs = card (set xs)" by (simp add: distinct_card)
  also have "\<dots> \<le> card {Info, Low, Medium, High, Critical}"
    by (rule card_mono) (auto intro: severity.exhaust)
  finally show ?thesis by simp
qed

text \<open>
  C11 (safety): One incident per escalation. Over any stream of events, the incidents reported for a
  process have strictly increasing severities as long as the process stays in the graph, so a process
  is reported at most five times in its life.
\<close>

theorem alerts_strictly_escalate:
  assumes "keeps_subject k ops" and "engine_run env ops (engine_new m) = (incs, e')"
  shows "sorted_wrt (<) (severities k incs) \<and> length (severities k incs) \<le> 5"
proof -
  have "sorted_wrt (<) (severities k incs)"
    using run_escalates [of "engine_new m" k ops env] assms by (simp add: engine_new_def)
  then show ?thesis using severity_chain_length by blast
qed

theorem alerts_strictly_escalate_witness:
  "severities (ProcKey 9 9) (fst (engine_run example_env [OnEvent suid_event (graph_new 9 5)] (engine_new Low))) = [Low]
   \<and> length (severities (ProcKey 9 9) (fst (engine_run example_env [OnEvent suid_event (graph_new 9 5)] (engine_new Low)))) \<le> 5"
proof -
  let ?ops = "[OnEvent suid_event (graph_new 9 5)]"
  obtain inc e' where r: "engine_on_event example_env suid_event (graph_new 9 5) (engine_new Low) = (Some inc, e')"
    and f: "inc_subject inc = ProcKey 9 9" "sc_severity (inc_score inc) = Low"
    using suid_reported by blast
  then have run: "engine_run example_env ?ops (engine_new Low) = ([inc], e')" by simp
  have "keeps_subject (ProcKey 9 9) ?ops" by (simp add: keeps_subject_def)
  from alerts_strictly_escalate [OF this run] show ?thesis unfolding run using f by (simp add: severities_def)
qed

section \<open>Investigating\<close>

text \<open>
  What an analyst sees when investigating a process is what was alerted on:
  assessing the subject of an incident right after it gives the same score and the same signals.
\<close>

theorem assess_agrees:
  assumes "engine_on_event env ev g e = (Some inc, e')"
  shows "snd (assess env (inc_subject inc) g e') = inc_score inc
    \<and> set (fst (assess env (inc_subject inc) g e')) = set (inc_signals inc)"
proof -
  let ?k = "s_key (hd (new_signals_of ev g e))"
  have ev: "evaluate env ?k g (stored ev g e) = (Some inc, e')"
    using assms by (simp add: engine_on_event_eq split: if_splits)
  note f = evaluate_Some [OF ev]
  have same: "en_signals e' = en_signals (stored ev g e)" "en_baseline e' = en_baseline (stored ev g e)"
    unfolding f(8) by simp_all
  have ga: "gather e' = gather (stored ev g e)" by (simp add: gather_def fun_eq_iff same)
  have set: "set (adjust_for_baseline env e' g (sort_key s_ts_ns (gather e' l)))
      = set (adjust_for_baseline env (stored ev g e) g (gather (stored ev g e) l))" for l
    by (simp add: set_adjust ga same split: option.split)
  show ?thesis unfolding assess_def Let_def fst_conv snd_conv f(2,3,4)
    using score_set [OF set] set by simp
qed

theorem assess_agrees_witness:
  "\<exists>inc e'. engine_on_event example_env suid_event (graph_new 9 5) (engine_new Low) = (Some inc, e')
     \<and> sc_total (snd (assess example_env (ProcKey 9 9) (graph_new 9 5) e')) = 45"
proof -
  obtain inc e' where r: "engine_on_event example_env suid_event (graph_new 9 5) (engine_new Low) = (Some inc, e')"
    and f: "inc_subject inc = ProcKey 9 9" "sc_total (inc_score inc) = 45"
    using suid_reported by blast
  from assess_agrees [OF r] r f show ?thesis by auto
qed

section \<open>The baseline reduces and never erases\<close>

lemma rounded_discount:
  assumes s: "10 \<le> uint (x :: u32)" and f: "900719925474099 / 2 ^ 53 \<le> fac" "fac \<le> 1"
  shows "1 \<le> f64_round (f64_mul (u32_f64 x) fac) \<and> f64_round (f64_mul (u32_f64 x) fac) \<le> uint x"
proof -
  let ?x = "of_int (uint x) :: rat"
  have xb: "\<bar>uint x\<bar> \<le> 2 ^ 53" using unsigned_less [of x, where 'a = int] by simp
  have x10: "(of_int 10 :: rat) \<le> ?x" using s by (simp only: of_int_le_iff)
  have "10 * (900719925474099 / 2 ^ 53) \<le> ?x * fac" using x10 f(1) by (intro mult_mono) simp_all
  then have "1 / 2 \<le> ?x * fac" by simp
  then have lo: "1 / 2 \<le> rnd (?x * fac)" using f64.r_mono [of "1 / 2" "?x * fac"] f64.r_half by simp
  have "?x * fac \<le> ?x" using x10 f(2) mult_left_mono [of fac 1 ?x] by simp
  then have hi: "rnd (?x * fac) \<le> ?x" using f64.r_le_int xb by blast
  then have "rnd (?x * fac) + 1 / 2 < of_int (uint x + 1)" by simp
  then have "\<lfloor>rnd (?x * fac) + 1 / 2\<rfloor> < uint x + 1" by (simp only: floor_less_iff)
  then have "\<lfloor>rnd (?x * fac) + 1 / 2\<rfloor> \<le> uint x" by simp
  moreover have "1 \<le> \<lfloor>rnd (?x * fac) + 1 / 2\<rfloor>" using lo by (simp add: le_floor_iff)
  ultimately show ?thesis using lo by (simp add: f64_round_def f64_mul_def u32_f64_def)
qed

text \<open>
  A baseline reduces the score of a built-in signal and never erases it: what is left
  is at least 1 and at most the original, and nothing but score and detail changes.
\<close>

theorem baseline_reduces_not_erases:
  assumes "10 \<le> s_score sig"
  shows "1 \<le> s_score (adjust_signal env b g sig) \<and> s_score (adjust_signal env b g sig) \<le> s_score sig
    \<and> s_id (adjust_signal env b g sig) = s_id sig \<and> s_key (adjust_signal env b g sig) = s_key sig
    \<and> s_ts_ns (adjust_signal env b g sig) = s_ts_ns sig \<and> s_attack (adjust_signal env b g sig) = s_attack sig"
proof -
  define exe where "exe = (case graph_get g (s_key sig) of None \<Rightarrow> [] | Some n \<Rightarrow> pn_exe n)"
  define fac where "fac = factor (env_ln1p env) (env_now_ms env) b (s_id sig) exe"
  define v where "v = f64_round (f64_mul (u32_f64 (s_score sig)) fac)"
  have s10: "10 \<le> uint (s_score sig)" using assms by (simp add: word_le_def)
  have v: "1 \<le> v" "v \<le> uint (s_score sig)"
    using rounded_discount [OF s10] factor_bounds unfolding v_def fac_def by blast+
  have "uint (s_score sig) < 2 ^ 32" using unsigned_less [of "s_score sig", where 'a = int] by simp
  then have "uint (as_u32 v) = v" using v by (simp add: uint_as_u32 clamp_def)
  then have "1 \<le> as_u32 v" "as_u32 v \<le> s_score sig" using v by (simp_all add: word_le_def)
  moreover have "s_score (adjust_signal env b g sig) = (if fac \<ge> 1 then s_score sig else as_u32 v)"
    by (simp add: adjust_signal_def Let_def exe_def [symmetric] fac_def [symmetric] v_def [symmetric])
  moreover have "1 \<le> s_score sig" using assms by (rule order_trans [rotated]) simp
  ultimately show ?thesis by (simp add: adjust_signal_def Let_def)
qed

theorem baseline_reduces_not_erases_witness:
  "1 \<le> s_score (adjust_signal example_env burst_baseline (graph_new 9 5)
     (signal_new ''suid_create'' 45 [''T1548.001''] (ProcKey 9 9) 1 []))"
  using baseline_reduces_not_erases [of "signal_new ''suid_create'' 45 [''T1548.001''] (ProcKey 9 9) 1 []"
      example_env burst_baseline "graph_new 9 5"] by simp

section \<open>Weak signals and context\<close>

text \<open>
  Signals that are documented as unable to alert alone, or to be critical alone, do so
  by context. Under a network daemon a single privilege escalation is Medium and a single
  socket-backed shell is Critical; in a container under a network daemon a single private key read is
  Medium.
\<close>

theorem weak_signals_alert_by_context:
  "sc_severity (score [signal_new ''privilege_escalation'' 40 [''T1068''] k ts d]
      \<lparr>network_rooted = True, in_container = False\<rparr>) = Medium
   \<and> sc_severity (score [signal_new ''socket_backed_shell'' 70 [''T1059.004'', ''T1571''] k ts d]
      \<lparr>network_rooted = True, in_container = False\<rparr>) = Critical
   \<and> sc_severity (score [signal_new ''ssh_private_key_read'' 35 [''T1003.008'', ''T1552.004''] k ts d]
      \<lparr>network_rooted = True, in_container = True\<rparr>) = Medium"
  by (simp add: score_adjusted_severity score_single_total percent_def from_score_def)

end
