(* ===== verification/Scan.thy ===== *)
theory Scan
  imports Text Graph_Inv
begin

text \<open>
  Bootstrapping the graph from \<^verbatim>\<open>/proc\<close> (\<^verbatim>\<open>src/graph/scan.rs\<close>): parsing of the kernel's text files and
  the scan that fills a fresh graph before any sensor is attached. The content of \<^verbatim>\<open>/proc\<close> is a parameter.
\<close>

section \<open>Parsing\<close>

text \<open>\<^verbatim>\<open>str::rfind\<close> of a one-byte character, and \<^verbatim>\<open>str::get(i..)\<close>, which refuses the middle of a character.\<close>

definition rfind_char :: "char \<Rightarrow> string \<Rightarrow> nat option" where
  "rfind_char c s = (if c \<in> set s then Some (length s - 1 - length (takeWhile (\<lambda>x. x \<noteq> c) (rev s))) else None)"

definition is_char_boundary :: "nat \<Rightarrow> string \<Rightarrow> bool" where
  "is_char_boundary i s \<longleftrightarrow> i = 0 \<or> i = length s \<or> i < length s \<and> \<not> is_cont (of_char (s ! i))"

definition get_from :: "nat \<Rightarrow> string \<Rightarrow> string option" where
  "get_from i s = (if is_char_boundary i s then Some (drop i s) else None)"

definition get_range :: "nat \<Rightarrow> nat \<Rightarrow> string \<Rightarrow> string option" where
  "get_range i j s = (if i \<le> j \<and> is_char_boundary i s \<and> is_char_boundary j s then Some (take (j - i) (drop i s)) else None)"

definition clock_ticks_hz :: "int \<Rightarrow> u64" where
  \<comment> \<open>\<open>hz\<close> is what \<^verbatim>\<open>sysconf\<close> returns\<close>
  "clock_ticks_hz hz = (if hz > 0 then of_int hz else 100)"

definition ns_per_tick :: "int \<Rightarrow> u64" where
  "ns_per_tick hz = 1000000000 div clock_ticks_hz hz"

definition parse_ns_inum :: "string \<Rightarrow> u32" where
  "parse_ns_inum link =
     (case split_once (CHR ''['') link of None \<Rightarrow> 0
      | Some (_, rest) \<Rightarrow>
          (case strip_suffix '']'' rest of None \<Rightarrow> 0
           | Some n \<Rightarrow> (case parse_u32 n of None \<Rightarrow> 0 | Some v \<Rightarrow> v)))"

text \<open>A view of \<^verbatim>\<open>/proc\<close>; \<open>None\<close> is a file that cannot be read.\<close>

record procfs =
  pf_entries :: "string list option"
  pf_stat :: "u32 \<Rightarrow> string option"
  pf_cmdline :: "u32 \<Rightarrow> u8 list option"
  pf_status :: "u32 \<Rightarrow> string option"
  pf_exe :: "u32 \<Rightarrow> u8 list option"
  pf_host_mnt :: "u8 list option"

definition host_mnt_ns :: "procfs \<Rightarrow> u32" where
  "host_mnt_ns pf = (case pf_host_mnt pf of None \<Rightarrow> 0 | Some t \<Rightarrow> parse_ns_inum (from_utf8_lossy t))"

definition read_cmdline :: "procfs \<Rightarrow> u32 \<Rightarrow> string list" where
  "read_cmdline pf pid =
     (case pf_cmdline pf pid of None \<Rightarrow> []
      | Some raw \<Rightarrow> map from_utf8_lossy (filter (\<lambda>s. s \<noteq> []) (split_nul raw)))"

text \<open>\<^verbatim>\<open>str::lines\<close>: split at newlines, drop one carriage return per line and a last empty line.\<close>

definition lines :: "string \<Rightarrow> string list" where
  "lines s =
     (let ls = split_on (CHR 0x0A) s;
          ls = (if last ls = [] then butlast ls else ls)
      in map (\<lambda>l. case strip_suffix [CHR 0x0D] l of None \<Rightarrow> l | Some l' \<Rightarrow> l') ls)"

definition read_ids :: "procfs \<Rightarrow> u32 \<Rightarrow> (u32 \<times> u32) option" where
  "read_ids pf pid =
     (case pf_status pf pid of None \<Rightarrow> None
      | Some status \<Rightarrow>
          (case find (starts_with ''Uid:'') (lines status) of None \<Rightarrow> None
           | Some line \<Rightarrow>
               (case drop 1 (split_whitespace line) of
                  u # e # _ \<Rightarrow>
                    (case (parse_u32 u, parse_u32 e) of (Some uid, Some euid) \<Rightarrow> Some (uid, euid) | _ \<Rightarrow> None)
                | _ \<Rightarrow> None)))"

definition parse_stat :: "string \<Rightarrow> (string \<times> u32 \<times> u64) option" where
  \<comment> \<open>command name, parent and start time in ticks\<close>
  "parse_stat stat =
     (case rfind_char (CHR '')'') stat of None \<Rightarrow> None
      | Some close \<Rightarrow>
          (case str_find ''('' stat of None \<Rightarrow> None
           | Some open \<Rightarrow>
               (case get_range (open + 1) close stat of None \<Rightarrow> None
                | Some comm \<Rightarrow>
                    (case get_from (close + 2) stat of None \<Rightarrow> None
                     | Some tail \<Rightarrow>
                         (let rest = split_whitespace tail
                          in if length rest \<le> 1 then None
                             else case parse_u32 (rest ! 1) of None \<Rightarrow> None
                                  | Some ppid \<Rightarrow>
                                      if length rest \<le> 19 then None
                                      else case parse_u64 (rest ! 19) of None \<Rightarrow> None
                                           | Some ticks \<Rightarrow> Some (comm, ppid, ticks))))))"

definition scan_one :: "procfs \<Rightarrow> host_fs \<Rightarrow> u32 \<Rightarrow> u64 \<Rightarrow> trusted_binaries \<Rightarrow> (proc_node \<times> u32) option" where
  "scan_one pf fs pid ns_tick tb =
     (case pf_stat pf pid of None \<Rightarrow> None
      | Some stat \<Rightarrow>
          (case parse_stat stat of None \<Rightarrow> None
           | Some (comm, ppid, ticks) \<Rightarrow>
               (let node = (node_new (ProcKey pid (ticks * ns_tick)) Scanned)\<lparr>
                      pn_comm := comm,
                      pn_argv := Redact.argv (read_cmdline pf pid),
                      pn_exe := (case pf_exe pf pid of None \<Rightarrow> [] | Some l \<Rightarrow> from_utf8_lossy l)\<rparr>;
                    node = (case file_id_of fs (''/proc/'' @ show_word pid @ ''/exe'') of None \<Rightarrow> node
                            | Some i \<Rightarrow> (case lookup tb i of None \<Rightarrow> node | Some (name, _) \<Rightarrow> node\<lparr>pn_trusted := name\<rparr>));
                    node = (case read_ids pf pid of None \<Rightarrow> node
                            | Some (uid, euid) \<Rightarrow> node\<lparr>pn_uid := uid, pn_euid := euid\<rparr>)
                in Some (node, ppid))))"

section \<open>The scan\<close>

record scan_state =
  sc_graph :: graph
  sc_edges :: "(proc_key \<times> u32) list"
  sc_scanned :: nat
  sc_failed :: nat

definition scan_entry :: "procfs \<Rightarrow> host_fs \<Rightarrow> u64 \<Rightarrow> trusted_binaries \<Rightarrow> string \<Rightarrow> scan_state \<Rightarrow> scan_state" where
  "scan_entry pf fs ns_tick tb name st =
     (if \<not> utf8_valid (map of_char name) then st
      else case parse_u32 name of None \<Rightarrow> st
        | Some pid \<Rightarrow>
            (case scan_one pf fs pid ns_tick tb of
               Some (node, ppid) \<Rightarrow> st\<lparr>sc_edges := sc_edges st @ [(pn_key node, ppid)],
                  sc_graph := insert_scanned node (sc_graph st), sc_scanned := Suc (sc_scanned st)\<rparr>
             | None \<Rightarrow> st\<lparr>sc_failed := Suc (sc_failed st)\<rparr>))"

definition bootstrap :: "procfs \<Rightarrow> host_fs \<Rightarrow> int \<Rightarrow> trusted_binaries \<Rightarrow> graph \<Rightarrow> (nat \<times> nat) \<times> graph" where
  "bootstrap pf fs hz tb g =
     (case pf_entries pf of None \<Rightarrow> ((0, 1), g)
      | Some names \<Rightarrow>
          (let st = fold (scan_entry pf fs (ns_per_tick hz) tb) names
                 \<lparr>sc_graph = g, sc_edges = [], sc_scanned = 0, sc_failed = 0\<rparr>
           in ((sc_scanned st, sc_failed st), link_scanned (sc_edges st) (sc_graph st))))"

section \<open>Reading a line of the kernel\<close>

lemma rfind_char_last: "c \<notin> set b \<Longrightarrow> rfind_char c (a @ c # b) = Some (length a)"
proof -
  assume "c \<notin> set b"
  then have "takeWhile (\<lambda>x. x \<noteq> c) (rev b @ c # rev a) = rev b" by (subst takeWhile_append2) auto
  then show ?thesis by (simp add: rfind_char_def)
qed

lemma find_char_first: "c \<notin> set a \<Longrightarrow> str_find [c] (a @ c # b) = Some (length a)"
  by (induction a) (auto simp: starts_with_def)

lemma utf8_head: "utf8_valid (b # bs) \<Longrightarrow> \<not> is_cont b"
proof
  assume v: "utf8_valid (b # bs)" and c: "is_cont b"
  have "utf8_width b = 0" using c by (auto simp: is_cont_def utf8_width_def word_le_nat_alt word_less_nat_alt)
  then show False using v by (simp split: list.splits)
qed

lemma join_chars: "c \<in> set (join sep ws) \<Longrightarrow> c \<in> set sep \<or> (\<exists>w \<in> set ws. c \<in> set w)"
  by (induction sep ws rule: join.induct) auto

definition stat_word :: "string \<Rightarrow> bool" where
  "stat_word w \<longleftrightarrow> w \<noteq> [] \<and> list_all (\<lambda>c. plain_char c \<and> c \<noteq> CHR '')'') w"

lemma plain_not_cont: "plain_char c \<Longrightarrow> \<not> is_cont (of_char c)"
proof -
  assume "plain_char c"
  then have n: "(of_char c :: nat) < 128" by (simp add: plain_char_def)
  have "unat (of_char c :: u8) = of_char c mod 256" 
    using unat_of_nat [of "of_char c", where 'a = 8] by (simp add: of_nat_of_char)
  then show ?thesis using n by (simp add: is_cont_def word_le_nat_alt)
qed


definition stat_fields :: "string list" where
  "stat_fields = [''S'', ''1'', ''0'', ''0'', ''0'', ''0'', ''0'', ''0'', ''0'', ''0'', ''0'', ''0'', ''0'', ''0'', ''0'', ''0'',
     ''0'', ''0'', ''0'', ''777'', ''0'']"


section \<open>The scanned graph\<close>

text \<open>During the scan no node has a parent yet, so that scanning a process twice is harmless.\<close>

definition scan_node :: "trusted_binaries \<Rightarrow> proc_node \<Rightarrow> bool" where
  "scan_node tb n \<longleftrightarrow> pn_parent n = None \<and> pn_children n = [] \<and> pn_cred_history n = []
     \<and> Redact.argv (pn_argv n) = pn_argv n
     \<and> (pn_trusted n = [] \<or> (\<exists>f r. lookup tb f = Some (pn_trusted n, r)))"

lemma scan_one_node: "scan_one pf fs pid t tb = Some (n, ppid) \<Longrightarrow> scan_node tb n \<and> pk_pid (pn_key n) = pid"
  by (auto simp: scan_one_def scan_node_def node_new_def Let_def split: option.splits prod.splits)

definition flat :: "trusted_binaries \<Rightarrow> graph \<Rightarrow> bool" where
  "flat tb g \<longleftrightarrow> hm_ok (g_nodes g) \<and> hm_ok (g_by_pid g)
     \<and> (\<forall>c n. graph_get g c = Some n \<longrightarrow> pn_key n = c \<and> scan_node tb n)
     \<and> (\<forall>p k. hm_get (g_by_pid g) p = Some k \<longrightarrow> pk_pid k = p \<and> graph_get g k \<noteq> None)"

lemma flat_wf: "flat tb g \<Longrightarrow> graph_wf g"
  by (auto simp: flat_def graph_wf_def node_ok_def scan_node_def)

lemma insert_scanned_flat: "flat tb g \<Longrightarrow> scan_node tb n \<Longrightarrow> flat tb (insert_scanned n g)"
  by (auto simp: flat_def insert_scanned_def graph_get_def)

lemma scan_entry_flat:
  "flat tb (sc_graph st) \<Longrightarrow> flat tb (sc_graph (scan_entry pf fs t tb name st))"
  using scan_one_node by (fastforce simp: scan_entry_def insert_scanned_flat split: option.splits prod.splits)

lemma scan_fold_flat:
  "flat tb (sc_graph st) \<Longrightarrow> flat tb (sc_graph (fold (scan_entry pf fs t tb) names st))"
  by (induction names arbitrary: st) (auto simp: scan_entry_flat)

lemma link_edge_facts: "life (link_edge e g) = life g"
  by (cases e) (simp add: link_edge_def life_modify_edges node_facts_def split: option.splits)

lemma link_scanned_facts: "life (link_scanned es g) = life g"
  unfolding link_scanned_def by (induction es arbitrary: g) (simp_all add: link_edge_facts)

definition pid_name :: "string \<Rightarrow> bool" where
  "pid_name name \<longleftrightarrow> utf8_valid (map of_char name) \<and> parse_u32 name \<noteq> None"

lemma scan_fold_count:
  "sc_scanned (fold (scan_entry pf fs t tb) names st) + sc_failed (fold (scan_entry pf fs t tb) names st)
   = sc_scanned st + sc_failed st + length (filter pid_name names)"
  by (induction names arbitrary: st)
    (auto simp: scan_entry_def pid_name_def split: option.splits prod.splits)

text \<open>What has been scanned stays, since a second scan of the same process gives the same node.\<close>

definition scan_consistent :: "procfs \<Rightarrow> host_fs \<Rightarrow> u64 \<Rightarrow> trusted_binaries \<Rightarrow> graph \<Rightarrow> bool" where
  "scan_consistent pf fs t tb g \<longleftrightarrow>
     (\<forall>c n. graph_get g c = Some n \<longrightarrow> pn_key n = c \<and> (\<exists>ppid. scan_one pf fs (pk_pid c) t tb = Some (n, ppid)))"

lemma scan_entry_consistent:
  "scan_consistent pf fs t tb (sc_graph st) \<Longrightarrow> scan_consistent pf fs t tb (sc_graph (scan_entry pf fs t tb name st))"
  using scan_one_node
  by (fastforce simp: scan_entry_def scan_consistent_def insert_scanned_def graph_get_def split: option.splits prod.splits)

lemma scan_entry_keeps:
  "graph_get (sc_graph st) k \<noteq> None \<Longrightarrow> graph_get (sc_graph (scan_entry pf fs t tb name st)) k \<noteq> None"
  by (auto simp: scan_entry_def insert_scanned_def graph_get_def split: option.splits prod.splits)

lemma scan_fold_keeps:
  "graph_get (sc_graph st) k \<noteq> None \<Longrightarrow> graph_get (sc_graph (fold (scan_entry pf fs t tb) names st)) k \<noteq> None"
  by (induction names arbitrary: st) (simp_all del: not_None_eq add: scan_entry_keeps)

lemma scan_fold_finds:
  assumes "name \<in> set names" and "utf8_valid (map of_char name)" and "parse_u32 name = Some pid"
    and "scan_one pf fs pid t tb = Some (n, ppid)"
  shows "graph_get (sc_graph (fold (scan_entry pf fs t tb) names st)) (pn_key n) \<noteq> None"
  using assms(1)
proof (induction names arbitrary: st)
  case (Cons a names)
  show ?case
  proof (cases "name = a")
    case True
    then have "graph_get (sc_graph (scan_entry pf fs t tb a st)) (pn_key n) \<noteq> None"
      using assms(2-4) by (simp add: scan_entry_def insert_scanned_def graph_get_def)
    then show ?thesis using scan_fold_keeps by (simp del: not_None_eq)
  next
    case False
    then show ?thesis using Cons by (simp del: not_None_eq)
  qed
qed simp

lemma scan_fold_consistent:
  "scan_consistent pf fs t tb (sc_graph st) \<Longrightarrow>
   scan_consistent pf fs t tb (sc_graph (fold (scan_entry pf fs t tb) names st))"
  by (induction names arbitrary: st) (auto simp: scan_entry_consistent)

text \<open>
  C34 (functional): starting up on a running host misses nothing that is visible. The scan of
  \<^verbatim>\<open>/proc\<close> gives a well-formed graph; every entry named by a process id is either scanned or counted as failed;
  every process that could be read is in the graph with the facts that were read, its arguments
  redacted, and any trusted name is one that the table gives for some file.
\<close>

theorem bootstrap_correct:
  assumes entries: "pf_entries pf = Some names"
    and boot: "bootstrap pf fs hz tb (graph_new mx retain) = ((scanned, failed), g)"
  shows "graph_wf g \<and> scanned + failed = length (filter pid_name names)
    \<and> (\<forall>name pid n ppid. name \<in> set names \<and> utf8_valid (map of_char name) \<and> parse_u32 name = Some pid
         \<and> scan_one pf fs pid (ns_per_tick hz) tb = Some (n, ppid) \<longrightarrow>
         (\<exists>m. graph_get g (pn_key n) = Some m \<and> node_facts m = node_facts n))
    \<and> (\<forall>k m. graph_get g k = Some m \<longrightarrow> Redact.argv (pn_argv m) = pn_argv m
         \<and> (pn_trusted m = [] \<or> (\<exists>f r. lookup tb f = Some (pn_trusted m, r))))"
proof -
  let ?init = "\<lparr>sc_graph = graph_new mx retain, sc_edges = [], sc_scanned = 0, sc_failed = 0\<rparr>"
  let ?st = "fold (scan_entry pf fs (ns_per_tick hz) tb) names ?init"
  have g: "g = link_scanned (sc_edges ?st) (sc_graph ?st)" "scanned = sc_scanned ?st" "failed = sc_failed ?st"
    using boot entries by (simp_all add: bootstrap_def Let_def)
  have empty: "graph_get (graph_new mx retain) = (\<lambda>_. None)"
    by (simp add: graph_new_def graph_get_def fun_eq_iff)
  have flat: "flat tb (sc_graph ?st)"
    by (rule scan_fold_flat) (simp add: flat_def empty, simp add: graph_new_def)
  have cons: "scan_consistent pf fs (ns_per_tick hz) tb (sc_graph ?st)"
    by (rule scan_fold_consistent) (simp add: scan_consistent_def empty)
  have lifeq: "map_option node_facts (graph_get g k) = map_option node_facts (graph_get (sc_graph ?st) k)" for k
    using link_scanned_facts [of "sc_edges ?st" "sc_graph ?st"] by (simp add: g(1) life_def fun_eq_iff)
  have found: "\<exists>m. graph_get g (pn_key n) = Some m \<and> node_facts m = node_facts n"
    if n: "name \<in> set names" "utf8_valid (map of_char name)" "parse_u32 name = Some pid"
      "scan_one pf fs pid (ns_per_tick hz) tb = Some (n, ppid)" for name pid n ppid
  proof -
    obtain m where m: "graph_get (sc_graph ?st) (pn_key n) = Some m" using scan_fold_finds [OF n, of ?init] by blast
    then obtain pp where "scan_one pf fs (pk_pid (pn_key n)) (ns_per_tick hz) tb = Some (m, pp)"
      using cons by (auto simp: scan_consistent_def)
    then have "m = n" using scan_one_node [OF n(4)] n(4) by simp
    then show ?thesis using lifeq [of "pn_key n"] m by (auto simp: map_option_case split: option.splits)
  qed
  have sound: "Redact.argv (pn_argv m) = pn_argv m \<and> (pn_trusted m = [] \<or> (\<exists>f r. lookup tb f = Some (pn_trusted m, r)))"
    if gm: "graph_get g k = Some m" for k m
  proof -
    obtain m0 where m0: "graph_get (sc_graph ?st) k = Some m0" "node_facts m = node_facts m0"
      using lifeq [of k] gm by (cases "graph_get (sc_graph ?st) k") auto
    have "pn_argv m = pn_argv m0 \<and> pn_trusted m = pn_trusted m0"
      using m0(2) by (cases m; cases m0) (simp add: node_facts_def)
    then show ?thesis using flat m0(1) by (auto simp: flat_def scan_node_def)
  qed
  have wf: "graph_wf g" using link_scanned_wf [OF flat_wf [OF flat]] by (simp add: g(1))
  show ?thesis using wf found sound scan_fold_count [of pf fs "ns_per_tick hz" tb names ?init] by (auto simp: g(2,3))
qed

definition example_proc :: procfs where
  "example_proc = \<lparr>pf_entries = Some [''42'', ''self''],
     pf_stat = (\<lambda>pid. if pid = 42 then Some (show_word (42 :: u32) @ '' ('' @ ''a) (b'' @ '') '' @ join '' '' stat_fields) else None),
     pf_cmdline = (\<lambda>_. None), pf_status = (\<lambda>_. None), pf_exe = (\<lambda>_. None), pf_host_mnt = None\<rparr>"

theorem bootstrap_correct_witness:
  "fst (fst (bootstrap example_proc (example_host [] 0) 100 tb_none (graph_new 9 9)))
   + snd (fst (bootstrap example_proc (example_host [] 0) 100 tb_none (graph_new 9 9))) = Suc 0"
proof -
  obtain s f g where b: "bootstrap example_proc (example_host [] 0) 100 tb_none (graph_new 9 9) = ((s, f), g)"
    by (metis prod.exhaust)
  have "pf_entries example_proc = Some [''42'', ''self'']" by (simp add: example_proc_def)
  moreover have "pid_name ''42''" "\<not> pid_name ''self''"
    by (simp_all add: pid_name_def utf8_width_def parse_u32_def parse_unsigned_def Let_def is_ascii_digit_def)
  ultimately show ?thesis using bootstrap_correct [OF _ b] b by simp
qed

end
