(* ===== verification/Report.thy ===== *)
theory Report
  imports Engine Scan
begin

text \<open>
  What the agent says: times (\<^verbatim>\<open>src/clock.rs\<close>), technique names (\<^verbatim>\<open>src/detect/attack.rs\<close>), the
  machine-readable incident (\<^verbatim>\<open>src/detect/record.rs\<close>), the human one (\<^verbatim>\<open>src/detect/alert.rs\<close>) and the
  heartbeat (\<^verbatim>\<open>src/heartbeat.rs\<close>). The serialisation to JSON is a library's and is not modelled.
\<close>

section \<open>Times\<close>

text \<open>A wall-clock time is a number of nanoseconds since the Unix epoch, negative before it.\<close>

record boot_clock =
  bc_epoch :: int

definition clock_new :: "int \<Rightarrow> int \<Rightarrow> boot_clock" where
  "clock_new now boot = \<lparr>bc_epoch = now - boot\<rparr>"

definition boot_relative :: boot_clock where
  "boot_relative = \<lparr>bc_epoch = 0\<rparr>"

definition to_wall :: "boot_clock \<Rightarrow> u64 \<Rightarrow> int" where
  "to_wall c ts_ns = bc_epoch c + uint ts_ns"

definition to_epoch_ms :: "boot_clock \<Rightarrow> u64 \<Rightarrow> u64" where
  "to_epoch_ms c ts_ns = (if to_wall c ts_ns < 0 then 0 else of_int (to_wall c ts_ns div 1000000))"

definition pad0 :: "nat \<Rightarrow> nat \<Rightarrow> string" where
  "pad0 w n = replicate (w - length (show_nat n)) (CHR ''0'') @ show_nat n"

definition clock_format :: "boot_clock \<Rightarrow> u64 \<Rightarrow> string" where
  "clock_format c ts_ns =
     (let d = nat (to_wall c ts_ns); secs = d div 1000000000; ms = d mod 1000000000 div 1000000
      in pad0 2 (secs div 3600 mod 24) @ '':'' @ pad0 2 (secs div 60 mod 60) @ '':'' @ pad0 2 (secs mod 60)
         @ ''.'' @ pad0 3 ms)"

section \<open>Technique names\<close>

definition TECHNIQUES :: "(string \<times> string) list" where
  "TECHNIQUES =
    [(''T1003'', ''OS Credential Dumping''), (''T1003.008'', ''/etc/passwd and /etc/shadow''),
     (''T1036'', ''Masquerading''), (''T1055.008'', ''Ptrace System Calls''),
     (''T1068'', ''Exploitation for Privilege Escalation''), (''T1098'', ''Account Manipulation''),
     (''T1543'', ''Create or Modify System Process''), (''T1547.006'', ''Kernel Modules and Extensions''),
     (''T1548'', ''Abuse Elevation Control Mechanism''), (''T1548.001'', ''Setuid and Setgid''),
     (''T1552'', ''Unsecured Credentials''), (''T1552.001'', ''Credentials In Files''),
     (''T1574.006'', ''Dynamic Linker Hijacking''), (''T1611'', ''Escape to Host''),
     (''T1620'', ''Reflective Code Loading'')]"

definition attack_name :: "string \<Rightarrow> string" where
  "attack_name technique = (case map_of TECHNIQUES technique of None \<Rightarrow> ''Unknown Technique'' | Some n \<Rightarrow> n)"

section \<open>The incident record\<close>

record signal_record =
  sr_id :: string
  sr_score :: u32
  sr_detail :: string
  sr_attack :: "string list"
  sr_ts_ns :: u64
  sr_ts :: "u64 option"
  sr_pid :: u32
  sr_cmdline :: string

record lineage_record =
  lr_pid :: u32
  lr_comm :: string
  lr_exe :: string
  lr_cmdline :: string

record score_breakdown =
  sb_base :: u32
  sb_chain_bonus :: u32
  sb_context_mult :: rat
  sb_context_note :: "string option"

record subject_record =
  su_pid :: u32
  su_start_boottime :: u64
  su_comm :: string
  su_exe :: string
  su_uid :: u32
  su_cmdline :: string

record 'o scan_result =
  yr_signal :: string
  yr_target :: string
  yr_outcome :: 'o

record 'o incident_record =
  ir_schema :: string
  ir_ts_ns :: u64
  ir_ts :: "u64 option"
  ir_severity :: string
  ir_score :: u32
  ir_score_breakdown :: score_breakdown
  ir_subject :: subject_record
  ir_lineage :: "string list"
  ir_lineage_detail :: "lineage_record list"
  ir_attack :: "string list"
  ir_signals :: "signal_record list"
  ir_yara :: "'o scan_result list"

definition MAX_CMDLINE :: nat where "MAX_CMDLINE = 200"

text \<open>The loop that steps back to the start of a character.\<close>

fun cut_back :: "string \<Rightarrow> nat \<Rightarrow> nat" where
  "cut_back s 0 = 0"
| "cut_back s (Suc n) = (if is_char_boundary (Suc n) s then Suc n else cut_back s n)"

definition cmdline_of :: "graph \<Rightarrow> proc_key \<Rightarrow> string" where
  "cmdline_of g k =
     (case graph_get g k of None \<Rightarrow> []
      | Some node \<Rightarrow>
          if pn_argv node = [] then []
          else let joined = join '' '' (pn_argv node)
               in if length joined > MAX_CMDLINE then take (cut_back joined MAX_CMDLINE) joined @ ''...''
                  else joined)"

definition name_pid :: "proc_node \<Rightarrow> string" where
  "name_pid n = pn_comm n @ ''('' @ show_word (pk_pid (pn_key n)) @ '')''"

definition lineage_names :: "graph \<Rightarrow> proc_key \<Rightarrow> string list" where
  "lineage_names g k = map name_pid (rev (ancestry g k))"

definition subject_of :: "graph \<Rightarrow> proc_key \<Rightarrow> subject_record" where
  "subject_of g k =
     (let node = graph_get g k
      in \<lparr>su_pid = pk_pid k, su_start_boottime = pk_start k,
          su_comm = (case node of None \<Rightarrow> [] | Some n \<Rightarrow> pn_comm n),
          su_exe = (case node of None \<Rightarrow> [] | Some n \<Rightarrow> pn_exe n),
          su_uid = (case node of None \<Rightarrow> 0 | Some n \<Rightarrow> pn_uid n),
          su_cmdline = cmdline_of g k\<rparr>)"

definition signal_record_of :: "graph \<Rightarrow> boot_clock option \<Rightarrow> signal \<Rightarrow> signal_record" where
  "signal_record_of g clock s =
     \<lparr>sr_id = s_id s, sr_score = s_score s, sr_detail = s_detail s, sr_attack = s_attack s, sr_ts_ns = s_ts_ns s,
      sr_ts = map_option (\<lambda>c. to_epoch_ms c (s_ts_ns s)) clock, sr_pid = pk_pid (s_key s),
      sr_cmdline = cmdline_of g (s_key s)\<rparr>"

definition from_incident :: "incident \<Rightarrow> graph \<Rightarrow> boot_clock option \<Rightarrow> 'o incident_record" where
  "from_incident inc g clock =
     (let ts_ns = max_or 0 (map s_ts_ns (inc_signals inc)); sc = inc_score inc
      in \<lparr>ir_schema = ''kernelsentinel.incident/v1'', ir_ts_ns = ts_ns,
          ir_ts = map_option (\<lambda>c. to_epoch_ms c ts_ns) clock,
          ir_severity = severity_label (sc_severity sc), ir_score = sc_total sc,
          ir_score_breakdown = \<lparr>sb_base = sc_base sc, sb_chain_bonus = sc_chain_bonus sc,
             sb_context_mult = sc_context_mult sc, sb_context_note = sc_context_note sc\<rparr>,
          ir_subject = subject_of g (inc_subject inc),
          ir_lineage = lineage_names g (inc_subject inc),
          ir_lineage_detail = map (\<lambda>n. \<lparr>lr_pid = pk_pid (pn_key n), lr_comm = pn_comm n, lr_exe = pn_exe n,
             lr_cmdline = cmdline_of g (pn_key n)\<rparr>) (rev (ancestry g (inc_subject inc))),
          ir_attack = inc_attack inc,
          ir_signals = map (signal_record_of g clock) (inc_signals inc), ir_yara = []\<rparr>)"

text \<open>The content scanner is a parameter; \<open>seen\<close> lists the targets already scanned.\<close>

fun enrich_go :: "(string \<Rightarrow> 'o) \<Rightarrow> string list \<Rightarrow> signal list \<Rightarrow> 'o scan_result list" where
  "enrich_go scan_path seen [] = []"
| "enrich_go scan_path seen (s # ss) =
     (case s_target s of None \<Rightarrow> enrich_go scan_path seen ss
      | Some t \<Rightarrow>
          if t \<in> set seen then enrich_go scan_path seen ss
          else \<lparr>yr_signal = s_id s, yr_target = t, yr_outcome = scan_path t\<rparr> # enrich_go scan_path (seen @ [t]) ss)"

definition enrich :: "(string \<Rightarrow> 'o) \<Rightarrow> incident \<Rightarrow> 'o incident_record \<Rightarrow> 'o incident_record" where
  "enrich scan_path inc r = r\<lparr>ir_yara := ir_yara r @ enrich_go scan_path [] (inc_signals inc)\<rparr>"

section \<open>The alert\<close>

definition ESC :: char where "ESC = CHR 0x1B"

definition color :: "severity \<Rightarrow> string" where
  "color sev = ESC # (case sev of Critical \<Rightarrow> ''[1;31m'' | High \<Rightarrow> ''[31m'' | Medium \<Rightarrow> ''[33m'' | Low \<Rightarrow> ''[36m'' | Info \<Rightarrow> ''[2m'')"

text \<open>\<^verbatim>\<open>{:<22}\<close> counts characters, not bytes.\<close>

definition chars_count :: "string \<Rightarrow> nat" where
  "chars_count s = length (filter (\<lambda>c. \<not> is_cont (of_char c)) s)"

definition pad_right :: "nat \<Rightarrow> string \<Rightarrow> string" where
  "pad_right w s = s @ replicate (w - chars_count s) (CHR '' '')"

definition fmt2 :: "rat \<Rightarrow> string" where
  "fmt2 x = (let n = nat (round_even (x * 100)) in show_nat (n div 100) @ ''.'' @ pad0 2 (n mod 100))"

definition EPSILON :: rat where "EPSILON = 1 / 2 ^ 52"

definition nl :: string where "nl = [CHR 0x0A]"

definition render_signal :: "graph \<Rightarrow> boot_clock \<Rightarrow> signal \<Rightarrow> string" where
  "render_signal g clock s =
     ''    '' @ clock_format clock (s_ts_ns s) @ '' '' @ pad_right 22 (s_id s) @ '' '' @ s_detail s
       @ ''  (+'' @ show_word (s_score s) @ '')'' @ nl
     @ (case graph_get g (s_key s) of None \<Rightarrow> []
        | Some n \<Rightarrow> let cmd = join '' '' (pn_argv n)
                   in if cmd = [] then [] else ''    '' @ replicate 8 (CHR '' '') @ '' $ '' @ cmd @ nl)"

definition render :: "incident \<Rightarrow> graph \<Rightarrow> boot_clock \<Rightarrow> string" where
  "render inc g clock =
     (let sc = inc_score inc; sev = sc_severity sc; chain = lineage_names g (inc_subject inc)
      in nl @ color sev @ severity_label sev @ (ESC # ''[0m'') @ ''  risk '' @ show_word (sc_total sc) @ ''/100  ''
         @ ''['' @ join '', '' (inc_attack inc) @ '']'' @ nl
         @ (if chain = [] then [] else ''  '' @ join '' -> '' chain @ nl)
         @ concat (map (render_signal g clock) (inc_signals inc))
         @ ''  score: base '' @ show_word (sc_base sc) @ '' + chain '' @ show_word (sc_chain_bonus sc) @ '' ''
         @ (if \<bar>f64_sub (sc_context_mult sc) 1\<bar> > EPSILON
            then ''x'' @ fmt2 (sc_context_mult sc) @ '' ''
                 @ (case sc_context_note sc of None \<Rightarrow> [] | Some note \<Rightarrow> ''('' @ note @ '') '')
            else [])
         @ ''= '' @ show_word (sc_total sc) @ nl)"

section \<open>The heartbeat\<close>

record counters =
  ct_events :: u64
  ct_drops :: u64
  ct_decode_panics :: u64
  ct_sensors_active :: u32
  ct_sensors_total :: u32

record heartbeat_record =
  hb_schema :: string
  hb_ts :: u64
  hb_uptime_secs :: u64
  hb_agent_version :: string
  hb_events :: u64
  hb_drops :: u64
  hb_decode_panics :: u64
  hb_sensors_verified :: "bool option"
  hb_attestation_misses :: u64
  hb_sensors_active :: u32
  hb_sensors_total :: u32

definition HB_SCHEMA :: string where "HB_SCHEMA = ''kernelsentinel.heartbeat/v1''"
definition INTERVAL_SECS :: u64 where "INTERVAL_SECS = 60"

text \<open>The version and the wall clock are parameters.\<close>

definition heartbeat_new :: "string \<Rightarrow> u64 \<Rightarrow> u64 \<Rightarrow> counters \<Rightarrow> bool option \<Rightarrow> u64 \<Rightarrow> heartbeat_record" where
  "heartbeat_new version now uptime c verified misses =
     \<lparr>hb_schema = HB_SCHEMA, hb_ts = now, hb_uptime_secs = uptime, hb_agent_version = version,
      hb_events = ct_events c, hb_drops = ct_drops c, hb_decode_panics = ct_decode_panics c,
      hb_sensors_verified = verified, hb_attestation_misses = misses,
      hb_sensors_active = ct_sensors_active c, hb_sensors_total = ct_sensors_total c\<rparr>"

section \<open>Command lines are cut between characters\<close>

lemma second_ok_cont: "second_ok b c \<Longrightarrow> is_cont c"
  by (auto simp: second_ok_def is_cont_def word_le_nat_alt split: if_splits)

lemma utf8_step_inside:
  "utf8_step b bs = (n, True) \<Longrightarrow> i < n - 1 \<Longrightarrow> i < length bs \<and> is_cont (bs ! i)"
  by (auto simp: second_ok_cont nth_Cons' less_Suc_eq numeral_eq_Suc split: if_splits list.splits)

lemma utf8_take:
  "utf8_valid xs \<Longrightarrow> i < length xs \<Longrightarrow> \<not> is_cont (xs ! i) \<Longrightarrow> utf8_valid (take i xs)"
proof (induction xs arbitrary: i rule: utf8_valid.induct)
  case (2 b bs)
  obtain n where st: "utf8_step b bs = (n, True)" and v: "utf8_valid (drop (n - 1) bs)"
    using 2(2) by (auto split: prod.splits)
  note n = utf8_step_ok [OF st]
  show ?case
  proof (cases i)
    case (Suc j)
    have j: "n - 1 \<le> j"
    proof (rule ccontr)
      assume "\<not> n - 1 \<le> j"
      then have "is_cont (bs ! j)" using utf8_step_inside [OF st, of j] by simp
      then show False using 2(4) Suc by simp
    qed
    have IH: "utf8_valid (take (j - (n - 1)) (drop (n - 1) bs))"
      using 2(1) [of n True "j - (n - 1)"] st v j 2(3,4) Suc by simp
    have "take i (b # bs) = b # take (n - 1) bs @ take (j - (n - 1)) (drop (n - 1) bs)"
      using j Suc by (metis le_add_diff_inverse take_Suc_Cons take_add)
    moreover have "utf8_valid (b # take (n - 1) bs @ take (j - (n - 1)) (drop (n - 1) bs))"
      using n IH by (simp del: utf8_step.simps)
    ultimately show ?thesis by simp
  qed simp
qed simp

lemma cut_back_le: "cut_back s n \<le> n"
  by (induction n) auto

lemma cut_back_boundary: "cut_back s n = 0 \<or> is_char_boundary (cut_back s n) s"
  by (induction n) auto

definition text_ok :: "string \<Rightarrow> bool" where
  "text_ok s \<longleftrightarrow> utf8_valid (map of_char s)"

lemma text_ok_append: "text_ok a \<Longrightarrow> text_ok b \<Longrightarrow> text_ok (a @ b)"
  by (simp add: text_ok_def utf8_valid_append)

lemma text_ok_join: "text_ok sep \<Longrightarrow> list_all text_ok ws \<Longrightarrow> text_ok (join sep ws)"
  by (induction sep ws rule: join.induct) (auto simp: text_ok_append, simp add: text_ok_def)

lemma text_ok_cut: "text_ok s \<Longrightarrow> n < length s \<Longrightarrow> text_ok (take (cut_back s n) s)"
proof -
  assume s: "text_ok s" and n: "n < length s"
  show ?thesis
  proof (cases "cut_back s n = 0")
    case False
    have "cut_back s n < length s" using cut_back_le [of s n] n by simp
    then show ?thesis using s cut_back_boundary [of s n] False utf8_take [of "map of_char s" "cut_back s n"]
      by (auto simp: text_ok_def is_char_boundary_def take_map)
  qed (simp add: text_ok_def)
qed

text \<open>
  One pathological command cannot dominate an alert, and cutting it never breaks the text.
  A reported command line has at most 203 bytes, starts like the process's (redacted) arguments, and is
  well-formed UTF-8 when they are.
\<close>

theorem cmdline_bounded:
  assumes "graph_get g k = Some n" and "list_all text_ok (pn_argv n)"
  shows "length (cmdline_of g k) \<le> 203 \<and> text_ok (cmdline_of g k)
    \<and> (\<exists>m. cmdline_of g k = take m (join '' '' (pn_argv n)) @ (if m < length (join '' '' (pn_argv n)) then ''...'' else []))"
proof -
  let ?j = "join '' '' (pn_argv n)"
  have j: "text_ok ?j" using assms(2) by (intro text_ok_join) (simp_all add: text_ok_def utf8_width_def)
  show ?thesis
  proof (cases "length ?j > MAX_CMDLINE")
    case True
    then have ne: "pn_argv n \<noteq> []" by (cases "pn_argv n") auto
    have cut: "cut_back ?j MAX_CMDLINE \<le> 200" using cut_back_le [of ?j MAX_CMDLINE] by (simp add: MAX_CMDLINE_def)
    have dots: "text_ok ''...''" by (simp add: text_ok_def utf8_width_def)
    have c: "cmdline_of g k = take (cut_back ?j MAX_CMDLINE) ?j @ ''...''"
      using assms(1) ne True by (simp add: cmdline_of_def Let_def)
    have "text_ok (cmdline_of g k)" unfolding c by (intro text_ok_append text_ok_cut j True dots)
    then show ?thesis using c cut True by (auto intro!: exI [of _ "cut_back ?j MAX_CMDLINE"] simp: MAX_CMDLINE_def)
  next
    case False
    then have "cmdline_of g k = ?j" using assms(1) by (auto simp: cmdline_of_def Let_def)
    then show ?thesis using j False by (auto intro!: exI [of _ "length ?j"] simp: MAX_CMDLINE_def)
  qed
qed

theorem cmdline_bounded_witness:
  "length (cmdline_of (insert_scanned ((node_new (ProcKey 9 9) Scanned)\<lparr>pn_argv := [''ls'', ''-l'']\<rparr>) (graph_new 9 9)) (ProcKey 9 9)) \<le> 203"
proof -
  let ?n = "(node_new (ProcKey 9 9) Scanned)\<lparr>pn_argv := [''ls'', ''-l'']\<rparr>"
  have "graph_get (insert_scanned ?n (graph_new 9 9)) (ProcKey 9 9) = Some ?n"
    by (simp add: graph_get_def insert_scanned_def node_new_def)
  moreover have "list_all text_ok (pn_argv ?n)" by (simp add: text_ok_def utf8_width_def)
  ultimately show ?thesis using cmdline_bounded by blast
qed

section \<open>Content scans and times\<close>

lemma enrich_go_facts:
  "distinct (map yr_target (enrich_go f seen ss))
   \<and> set (map yr_target (enrich_go f seen ss)) = {t. \<exists>s \<in> set ss. s_target s = Some t} - set seen
   \<and> list_all (\<lambda>r. yr_outcome r = f (yr_target r)) (enrich_go f seen ss)"
proof (induction ss arbitrary: seen)
  case (Cons s ss)
  show ?case using Cons.IH [of seen] Cons.IH [of "seen @ [the (s_target s)]"]
    by (cases "s_target s") auto
qed simp

text \<open>
  Every file an incident names is scanned exactly once, however many signals name it,
  and the result is the scanner's for that file.
\<close>

theorem enrich_once:
  "distinct (map yr_target (ir_yara (enrich f inc (from_incident inc g clock))))
   \<and> set (map yr_target (ir_yara (enrich f inc (from_incident inc g clock)))) = {t. \<exists>s \<in> set (inc_signals inc). s_target s = Some t}
   \<and> list_all (\<lambda>r. yr_outcome r = f (yr_target r)) (ir_yara (enrich f inc (from_incident inc g clock)))"
  using enrich_go_facts [of f "[]" "inc_signals inc"]
  by (simp add: enrich_def from_incident_def Let_def)

lemma show_nat_length: "n < 10 \<Longrightarrow> length (show_nat n) = 1" "10 \<le> n \<Longrightarrow> n < 100 \<Longrightarrow> length (show_nat n) = 2"
  by (simp_all add: show_nat.simps [of n] show_nat.simps [of "n div 10"])

lemma show_nat_length3: "100 \<le> n \<Longrightarrow> n < 1000 \<Longrightarrow> length (show_nat n) = 3"
  using show_nat_length(2) [of "n div 10"] by (simp add: show_nat.simps [of n])

lemma pad0_length: "n < 100 \<Longrightarrow> length (pad0 2 n) = 2" "n < 1000 \<Longrightarrow> length (pad0 3 n) = 3"
  using show_nat_length [of n] show_nat_length3 [of n] by (cases "n < 10"; cases "n < 100"; simp add: pad0_def)+

text \<open>
  A time is always printed in twelve characters, and the wall-clock milliseconds shipped
  off the host never run backwards while the kernel's clock runs forwards.
\<close>

theorem clock_times:
  assumes "ts \<le> ts'" and "to_wall c ts' < 2 ^ 64 * 1000000"
  shows "length (clock_format c ts) = 12 \<and> to_epoch_ms c ts \<le> to_epoch_ms c ts'"
proof
  have p: "length (pad0 2 (a mod 24)) = 2" "length (pad0 2 (a mod 60)) = 2"
    "length (pad0 3 (a mod 1000000000 div 1000000)) = 3" for a :: nat
    by (rule pad0_length(1), rule less_trans [OF mod_less_divisor], simp, simp,
        rule pad0_length(1), rule less_trans [OF mod_less_divisor], simp, simp,
        rule pad0_length(2), simp add: less_mult_imp_div_less)
  show "length (clock_format c ts) = 12" by (simp add: clock_format_def Let_def p)
  have le: "to_wall c ts \<le> to_wall c ts'" using assms(1) by (simp add: to_wall_def word_le_def)
  have big: "w div 1000000 < 2 ^ 64" if "w < 2 ^ 64 * 1000000" for w :: int using that by simp
  have "uint (of_int (w div 1000000) :: u64) = w div 1000000" if "0 \<le> w" "w < 2 ^ 64 * 1000000" for w
    using that by (simp add: word_of_int_inverse [OF refl] uint_word_of_int)
  then show "to_epoch_ms c ts \<le> to_epoch_ms c ts'"
    using le assms(2) by (auto simp: to_epoch_ms_def word_le_def zdiv_mono1)
qed

theorem clock_times_witness: "to_epoch_ms boot_relative 5 \<le> to_epoch_ms boot_relative 9"
  using clock_times [of 5 9 boot_relative] by (simp add: to_wall_def boot_relative_def)

text \<open>
  Techniques that the detectors report are not in the list of names: a reverse shell is
  explained to the analyst as two unknown techniques.
\<close>

theorem reverse_shell_unnamed:
  "map (map attack_name \<circ> s_attack) (socket_backed_shell (ev\<lparr>ev_socket_stdio := True, ev_filename := ''/bin/sh''\<rparr>) k)
   = [[''Unknown Technique'', ''Unknown Technique'']]"
  by (simp add: socket_backed_shell_def is_shell_def shell_name_def rsplit_last_def attack_name_def TECHNIQUES_def)

end
