(* ===== verification/Watchlist.thy ===== *)
theory Watchlist
  imports Event
begin

text \<open>
  The watched paths (\<^verbatim>\<open>src/watchlist.rs\<close>): which files the kernel side reports, how a watch is
  written into the kernel's longest-prefix trie (\<^verbatim>\<open>populate_watches\<close> of \<^verbatim>\<open>src/sensors.rs\<close>), and
  how the file sensor of \<^verbatim>\<open>bpf/sensors/file.bpf.h\<close> reads it. The trie itself belongs to the kernel; what
  is documented of it is the locale \<open>lpm_trie\<close>.
\<close>

section \<open>Watches\<close>

definition WATCH_ON_WRITE :: u32 where "WATCH_ON_WRITE = 1"
definition WATCH_ON_READ :: u32 where "WATCH_ON_READ = 2"
definition WATCH_DENY_IN_NS :: u32 where "WATCH_DENY_IN_NS = 4"
definition MAX_WATCH_PATH :: nat where "MAX_WATCH_PATH = 256"

lemmas watch_flag_defs = WATCH_ON_WRITE_def WATCH_ON_READ_def WATCH_DENY_IN_NS_def

record watch =
  w_prefix :: string
  w_flags :: u32

definition watch_write :: "string \<Rightarrow> watch" where
  "watch_write p = \<lparr>w_prefix = p, w_flags = WATCH_ON_WRITE\<rparr>"

definition watch_read_write :: "string \<Rightarrow> watch" where
  "watch_read_write p = \<lparr>w_prefix = p, w_flags = or WATCH_ON_WRITE WATCH_ON_READ\<rparr>"

definition watch_read :: "string \<Rightarrow> watch" where
  "watch_read p = \<lparr>w_prefix = p, w_flags = WATCH_ON_READ\<rparr>"

definition watch_write_deniable :: "string \<Rightarrow> watch" where
  "watch_write_deniable p = \<lparr>w_prefix = p, w_flags = or WATCH_ON_WRITE WATCH_DENY_IN_NS\<rparr>"

lemmas watch_defs = watch_write_def watch_read_write_def watch_read_def watch_write_deniable_def

definition LABEL_RULES :: "(string \<times> string) list" where
  "LABEL_RULES =
    [(''/etc/ld.so.preload'', ''ld.so.preload (linker hijack)''),
     (''/.ssh/authorized_keys'', ''authorized_keys''),
     (''/root/.ssh/'', ''root SSH keys''),
     (''/etc/cron'', ''cron''),
     (''/etc/systemd/'', ''systemd unit''),
     (''/usr/lib/systemd/'', ''systemd unit''),
     (''/lib/systemd/'', ''systemd unit''),
     (''/etc/sudoers'', ''sudoers''),
     (''/etc/shadow'', ''shadow''),
     (''/etc/passwd'', ''passwd''),
     (''/etc/pam.'', ''PAM (authentication)''),
     (''/etc/ld.so.conf'', ''ld.so.conf (library search path)''),
     (''/etc/profile'', ''login shell script''),
     (''/etc/bash.bashrc'', ''login shell script''),
     (''/etc/environment'', ''login environment''),
     (''/etc/update-motd.d/'', ''login script (motd)'')]"

definition label_for :: "string \<Rightarrow> string" where
  "label_for path =
     (case find (\<lambda>(needle, _). contains needle path) LABEL_RULES of
        None \<Rightarrow> ''watched path'' | Some (_, label) \<Rightarrow> label)"

definition ESCAPE_HATCHES :: "string list" where
  "ESCAPE_HATCHES =
    [''/proc/sys/kernel/core_pattern'', ''/proc/sys/kernel/modprobe'', ''/proc/sys/kernel/poweroff_cmd'',
     ''/sys/kernel/uevent_helper'', ''/proc/sys/fs/binfmt_misc/register'']"

definition escape_hatch_ids :: "host_fs \<Rightarrow> file_id list" where
  "escape_hatch_ids fs = List.map_filter (file_id_of fs) ESCAPE_HATCHES"

text \<open>
  The directory listing of \<^verbatim>\<open>/home\<close> is a parameter: \<open>None\<close> when it cannot be read, otherwise the names
  of its entries. A path that is not UTF-8 has no \<^verbatim>\<open>to_str\<close>.
\<close>

definition to_str :: "string \<Rightarrow> string option" where
  "to_str p = (if utf8_valid (map of_char p) then Some p else None)"

definition watches_of_home :: "string \<Rightarrow> watch list" where
  "watches_of_home name =
     (case to_str (''/home/'' @ name @ ''/.ssh/'') of None \<Rightarrow> [] | Some p \<Rightarrow> [watch_write p])
     @ (case to_str (''/home/'' @ name @ ''/.ssh/id_'') of None \<Rightarrow> [] | Some p \<Rightarrow> [watch_read_write p])"

definition home_watches :: "string list option \<Rightarrow> watch list" where
  "home_watches homes = (case homes of None \<Rightarrow> [] | Some names \<Rightarrow> concat (map watches_of_home names))"

definition static_watches :: "watch list" where
  "static_watches =
    [watch_write ''/etc/ld.so.preload'', watch_write ''/etc/cron'', watch_write ''/etc/systemd/'',
     watch_write ''/usr/lib/systemd/'', watch_write ''/lib/systemd/'', watch_write ''/etc/sudoers'',
     watch_read_write ''/etc/shadow'', watch_read_write ''/etc/gshadow'', watch_write ''/etc/passwd'',
     watch_write ''/root/.ssh/'',
     watch_write ''/etc/pam.'', watch_write ''/etc/ld.so.conf'', watch_write ''/etc/profile'',
     watch_write ''/etc/bash.bashrc'', watch_write ''/etc/environment'', watch_write ''/etc/update-motd.d/'',
     watch_read ''/etc/ssh/ssh_host_'', watch_read ''/root/.ssh/id_'',
     watch_write_deniable ''/proc/sys/kernel/core_pattern'', watch_write_deniable ''/proc/sys/kernel/modprobe'',
     watch_write_deniable ''/proc/sys/kernel/poweroff_cmd'', watch_write_deniable ''/sys/kernel/uevent_helper'',
     watch_write_deniable ''/proc/sys/fs/binfmt_misc/register'']"

definition default_watches :: "string list option \<Rightarrow> watch list" where
  "default_watches homes = static_watches @ home_watches homes"

definition watched_file_ids :: "host_fs \<Rightarrow> (string \<Rightarrow> bool) \<Rightarrow> string list option \<Rightarrow> (file_id \<times> u32) list" where
  "watched_file_ids fs is_file homes =
     List.map_filter (\<lambda>w.
       if fs_metadata fs (w_prefix w) = None \<or> \<not> is_file (w_prefix w) then None
       else map_option (\<lambda>i. (i, w_flags w)) (file_id_of fs (w_prefix w)))
       (filter (\<lambda>w. \<not> ends_with ''/'' (w_prefix w)) (default_watches homes))"

definition encode_key :: "string \<Rightarrow> u8 list option" where
  "encode_key p =
     (if length p \<ge> MAX_WATCH_PATH then None
      else Some (le_bytes 4 (of_nat (length p) * 8 :: u32) @ map of_char p
                 @ replicate (MAX_WATCH_PATH - length p) 0))"

section \<open>The kernel's trie\<close>

text \<open>A key of the trie is a length in bits and that many leading bits of data.\<close>

definition key_bits :: "u8 list \<Rightarrow> nat" where
  "key_bits k = unat (of_le_bytes (take 4 k) :: u32)"

definition covers :: "u8 list \<Rightarrow> u8 list \<Rightarrow> bool" where
  \<comment> \<open>for keys of whole bytes\<close>
  "covers e k \<longleftrightarrow> key_bits e \<le> key_bits k
     \<and> take (key_bits e div 8) (drop 4 e) = take (key_bits e div 8) (drop 4 k)"

definition whole_bytes :: "(u8 list \<Rightarrow> u32 option) \<Rightarrow> bool" where
  "whole_bytes en \<longleftrightarrow> (\<forall>e. en e \<noteq> None \<longrightarrow> 8 dvd key_bits e)"

locale lpm_trie =
  fixes ok :: "'m \<Rightarrow> bool"
    and entries :: "'m \<Rightarrow> u8 list \<Rightarrow> u32 option"
    and update :: "u8 list \<Rightarrow> u32 \<Rightarrow> 'm \<Rightarrow> 'm option"
    and look :: "'m \<Rightarrow> u8 list \<Rightarrow> u32 option"
  assumes update_ok: "ok m \<Longrightarrow> update k v m = Some m' \<Longrightarrow> ok m'"
    and entries_update: "ok m \<Longrightarrow> update k v m = Some m' \<Longrightarrow> entries m' = (entries m)(k \<mapsto> v)"
    and look_Some: "ok m \<Longrightarrow> whole_bytes (entries m) \<Longrightarrow> look m k = Some v \<Longrightarrow>
        \<exists>e. entries m e = Some v \<and> covers e k
          \<and> (\<forall>e'. entries m e' \<noteq> None \<and> covers e' k \<longrightarrow> key_bits e' \<le> key_bits e)"
    and look_None: "ok m \<Longrightarrow> whole_bytes (entries m) \<Longrightarrow> look m k = None \<Longrightarrow> entries m e \<noteq> None \<Longrightarrow> \<not> covers e k"

text \<open>\<^verbatim>\<open>populate_watches\<close>: a watch whose path is too long is skipped, a refused update ends the loop.\<close>

fun populate_watches :: "(u8 list \<Rightarrow> u32 \<Rightarrow> 'm \<Rightarrow> 'm option) \<Rightarrow> watch list \<Rightarrow> nat \<Rightarrow> 'm \<Rightarrow> (string + nat) \<times> 'm" where
  "populate_watches update [] n m = (Inr n, m)"
| "populate_watches update (w # ws) n m =
     (case encode_key (w_prefix w) of
        None \<Rightarrow> populate_watches update ws n m
      | Some key \<Rightarrow>
          (case update key (w_flags w) m of
             None \<Rightarrow> (Inl (''adding watch '' @ w_prefix w), m)
           | Some m' \<Rightarrow> populate_watches update ws (Suc n) m'))"

section \<open>The file sensor\<close>

definition FMODE_WRITE :: u32 where "FMODE_WRITE = 2"

text \<open>The key the sensor looks up: the path as \<^verbatim>\<open>bpf_d_path\<close> gives it, cut to the buffer.\<close>

definition open_key :: "string \<Rightarrow> u8 list" where
  "open_key path =
     (let p = take (MAX_WATCH_PATH - 1) path
      in le_bytes 4 (of_nat (length p) * 8 :: u32) @ map of_char p @ replicate (MAX_WATCH_PATH - length p) 0)"

definition direction :: "u32 \<Rightarrow> u32 \<Rightarrow> u32" where
  "direction f_mode flags =
     (if and f_mode FMODE_WRITE \<noteq> 0 then (if and flags WATCH_ON_WRITE \<noteq> 0 then flags else 0)
      else if and flags WATCH_ON_READ \<noteq> 0 then flags else 0)"

definition watch_flags :: "('m \<Rightarrow> u8 list \<Rightarrow> u32 option) \<Rightarrow> 'm \<Rightarrow> (file_id \<Rightarrow> u32 option) \<Rightarrow> u32 \<Rightarrow> string \<Rightarrow> file_id \<Rightarrow> u32" where
  "watch_flags look m ids f_mode path fid =
     (case (case look m (open_key path) of None \<Rightarrow> ids fid | Some w \<Rightarrow> Some w) of
        None \<Rightarrow> 0 | Some flags \<Rightarrow> direction f_mode flags)"

section \<open>Keys and prefixes\<close>

lemma encode_key_Some:
  "encode_key p = Some k \<longleftrightarrow> length p < MAX_WATCH_PATH \<and> k = open_key p"
  by (auto simp: encode_key_def open_key_def MAX_WATCH_PATH_def Let_def)

lemma key_bits_open:
  assumes "length p < MAX_WATCH_PATH"
  shows "key_bits (open_key p) = 8 * length p"
    and "drop 4 (open_key p) = map of_char p @ replicate (MAX_WATCH_PATH - length p) 0"
proof -
  have "unat (of_nat (length p) * 8 :: u32) = 8 * length p"
    using assms by (simp add: MAX_WATCH_PATH_def unat_word_ariths unat_of_nat mult.commute)
  then show "key_bits (open_key p) = 8 * length p"
    using assms le_bytes_roundtrip [of 4 "of_nat (length p) * 8 :: u32"]
    by (simp add: key_bits_def open_key_def Let_def MAX_WATCH_PATH_def)
  show "drop 4 (open_key p) = map of_char p @ replicate (MAX_WATCH_PATH - length p) 0"
    using assms by (simp add: open_key_def Let_def MAX_WATCH_PATH_def)
qed

lemma of_char_inj: "inj (of_char :: char \<Rightarrow> u8)"
proof (rule injI)
  fix c d :: char assume "(of_char c :: u8) = of_char d"
  then have "unat (of_nat (of_char c) :: u8) = unat (of_nat (of_char d) :: u8)" by (simp only: of_nat_of_char)
  then have "(of_char c :: nat) mod 256 = of_char d mod 256" by (simp add: unat_of_nat del: of_char_mod_256)
  then show "c = d" by simp
qed

lemma covers_open:
  assumes "length s < MAX_WATCH_PATH" and "length p < MAX_WATCH_PATH"
  shows "covers (open_key s) (open_key p) \<longleftrightarrow> starts_with s p"
proof -
  have "covers (open_key s) (open_key p) \<longleftrightarrow> length s \<le> length p
      \<and> map of_char s = (map of_char (take (length s) p) :: u8 list)"
    using assms by (auto simp: covers_def key_bits_open take_map)
  also have "\<dots> \<longleftrightarrow> starts_with s p"
    using inj_map_eq_map [OF of_char_inj] by (auto simp: starts_with_def dest: arg_cong [where f = length])
  finally show ?thesis .
qed

lemma open_key_inj:
  assumes "length s < MAX_WATCH_PATH" and "length p < MAX_WATCH_PATH" and "open_key s = open_key p"
  shows "s = p"
proof -
  have "length s = length p" using key_bits_open(1) assms by (metis mult_cancel1 zero_neq_numeral)
  moreover have "starts_with s p" using covers_open [of s p] covers_open [of p p] assms by (simp add: starts_with_def)
  ultimately show ?thesis by (simp add: starts_with_def)
qed

section \<open>A populated trie\<close>

definition load_watch :: "watch \<Rightarrow> (u8 list \<Rightarrow> u32 option) \<Rightarrow> u8 list \<Rightarrow> u32 option" where
  "load_watch w en = (case encode_key (w_prefix w) of None \<Rightarrow> en | Some k \<Rightarrow> en(k \<mapsto> w_flags w))"

lemma load_sound:
  "fold load_watch ws en k = Some v \<Longrightarrow>
   en k = Some v \<or> (\<exists>w \<in> set ws. encode_key (w_prefix w) = Some k \<and> w_flags w = v)"
proof (induction ws arbitrary: en)
  case (Cons w ws)
  have "load_watch w en k = Some v \<Longrightarrow> en k = Some v \<or> encode_key (w_prefix w) = Some k \<and> w_flags w = v"
    by (auto simp: load_watch_def split: option.splits if_splits)
  then show ?case using Cons.IH [of "load_watch w en"] Cons.prems by auto
qed simp

lemma load_keeps: "en k \<noteq> None \<Longrightarrow> fold load_watch ws en k \<noteq> None"
  by (induction ws arbitrary: en) (auto simp: load_watch_def split: option.splits)

lemma load_complete:
  "w \<in> set ws \<Longrightarrow> encode_key (w_prefix w) = Some k \<Longrightarrow> fold load_watch ws en k \<noteq> None"
proof (induction ws arbitrary: en)
  case (Cons a ws)
  show ?case
  proof (cases "w = a")
    case True
    then have "load_watch a en k \<noteq> None" using Cons.prems by (simp add: load_watch_def)
    then show ?thesis using load_keeps by simp
  next
    case False
    then show ?thesis using Cons by simp
  qed
qed simp

context lpm_trie
begin

lemma populate_entries:
  "ok m \<Longrightarrow> populate_watches update ws n m = (Inr c, m') \<Longrightarrow>
   ok m' \<and> entries m' = fold load_watch ws (entries m)"
proof (induction ws arbitrary: n m)
  case (Cons w ws)
  show ?case
  proof (cases "encode_key (w_prefix w)")
    case None
    then show ?thesis using Cons by (simp add: load_watch_def)
  next
    case (Some k)
    then obtain m1 where m1: "update k (w_flags w) m = Some m1" "populate_watches update ws (Suc n) m1 = (Inr c, m')"
      using Cons.prems(2) by (auto split: option.splits)
    have "load_watch w (entries m) = entries m1"
      using entries_update [OF Cons.prems(1) m1(1)] Some by (simp add: load_watch_def)
    then show ?thesis using Cons.IH [OF update_ok [OF Cons.prems(1) m1(1)] m1(2)] by simp
  qed
qed simp

text \<open>What the sensor finds for a path is the longest of the watches that are a prefix of it.\<close>

lemma look_longest:
  assumes "ok m" and "entries m = (\<lambda>_. None)" and pop: "populate_watches update ws 0 m = (Inr c, m')"
    and len: "length path < MAX_WATCH_PATH" and w: "w \<in> set ws" "starts_with (w_prefix w) path"
  shows "\<exists>w' \<in> set ws. look m' (open_key path) = Some (w_flags w') \<and> starts_with (w_prefix w') path
    \<and> (\<forall>v \<in> set ws. starts_with (w_prefix v) path \<longrightarrow> length (w_prefix v) \<le> length (w_prefix w'))"
proof -
  have m': "ok m'" "entries m' = fold load_watch ws (\<lambda>_. None)"
    using populate_entries [OF assms(1) pop] assms(2) by simp_all
  have sound: "\<exists>w \<in> set ws. length (w_prefix w) < MAX_WATCH_PATH \<and> e = open_key (w_prefix w) \<and> w_flags w = v"
    if "entries m' e = Some v" for e v
    using load_sound [of ws "\<lambda>_. None" e v] that m'(2) by (auto simp: encode_key_Some)
  have whole: "whole_bytes (entries m')"
    unfolding whole_bytes_def using sound by (fastforce simp: key_bits_open)
  have present: "entries m' (open_key (w_prefix v)) \<noteq> None \<and> length (w_prefix v) < MAX_WATCH_PATH"
    if "v \<in> set ws" "starts_with (w_prefix v) path" for v
  proof -
    have "length (w_prefix v) \<le> length path" using that by (auto simp: starts_with_iff)
    then have "encode_key (w_prefix v) = Some (open_key (w_prefix v))" using len by (simp add: encode_key_Some)
    then show ?thesis using load_complete [OF that(1)] m'(2) by (auto simp: encode_key_Some)
  qed
  have "look m' (open_key path) \<noteq> None"
    using look_None [OF m'(1) whole, of "open_key path"] present [OF w] covers_open [OF _ len] w(2) by blast
  then obtain v where v: "look m' (open_key path) = Some v" by blast
  from look_Some [OF m'(1) whole v] obtain e where e: "entries m' e = Some v" "covers e (open_key path)"
    "\<And>e'. entries m' e' \<noteq> None \<Longrightarrow> covers e' (open_key path) \<Longrightarrow> key_bits e' \<le> key_bits e" by blast
  from sound [OF e(1)] obtain w' where w': "w' \<in> set ws" "length (w_prefix w') < MAX_WATCH_PATH"
    "e = open_key (w_prefix w')" "w_flags w' = v" by blast
  have "length (w_prefix u) \<le> length (w_prefix w')" if u: "u \<in> set ws" "starts_with (w_prefix u) path" for u
    using e(3) [of "open_key (w_prefix u)"] present [OF u] covers_open [OF _ len, of "w_prefix u"] u(2) w'
    by (simp add: key_bits_open)
  then show ?thesis using w' v e(2) covers_open [OF w'(2) len] by auto
qed

end

section \<open>A reference trie\<close>

text \<open>
  A table of at most 1024 entries (\<^verbatim>\<open>watched_paths\<close> of \<^verbatim>\<open>bpf/maps.h\<close>) with a lookup that compares
  every entry: the laws of \<open>lpm_trie\<close> can hold.
\<close>

definition TRIE_ENTRIES :: nat where "TRIE_ENTRIES = 1024"

definition trie_update :: "u8 list \<Rightarrow> u32 \<Rightarrow> (u8 list, u32) hm \<Rightarrow> (u8 list, u32) hm option" where
  "trie_update k v m = (if hm_get m k = None \<and> TRIE_ENTRIES \<le> hm_len m then None else Some (hm_insert k v m))"

definition trie_look :: "(u8 list, u32) hm \<Rightarrow> u8 list \<Rightarrow> u32 option" where
  "trie_look m k = map_option snd (min_by_key (\<lambda>(e, _). - int (key_bits e)) (filter (\<lambda>(e, _). covers e k) m))"

lemma hm_get_in_set: "hm_ok m \<Longrightarrow> hm_get m k = Some v \<longleftrightarrow> (k, v) \<in> set m"
  by (simp add: hm_ok_def hm_get_def)

interpretation tr: lpm_trie hm_ok hm_get trie_update trie_look
proof unfold_locales
  fix m :: "(u8 list, u32) hm" and k e v
  assume ok: "hm_ok m"
  show "\<exists>e. hm_get m e = Some v \<and> covers e k \<and> (\<forall>e'. hm_get m e' \<noteq> None \<and> covers e' k \<longrightarrow> key_bits e' \<le> key_bits e)"
    if look: "trie_look m k = Some v"
  proof -
    from look obtain e where mn: "min_by_key (\<lambda>(e, _). - int (key_bits e)) (filter (\<lambda>(e, _). covers e k) m) = Some (e, v)"
      by (auto simp: trie_look_def)
    have e: "(e, v) \<in> set m" "covers e k" using min_by_key_in [OF mn] by auto
    have le: "key_bits e' \<le> key_bits e" if "(e', v') \<in> set m" "covers e' k" for e' v'
      using min_by_key_least [OF mn, of "(e', v')"] that by simp
    show ?thesis using e le hm_get_in_set [OF ok] by blast
  qed
  show "\<not> covers e k" if none: "trie_look m k = None" and some: "hm_get m e \<noteq> None"
  proof -
    obtain v where "(e, v) \<in> set m" using some hm_get_in_set [OF ok] by blast
    then show ?thesis using none min_by_key_None by (fastforce simp: trie_look_def filter_empty_conv)
  qed
qed (auto simp: trie_update_def split: if_splits)

lemma trie_update_room:
  assumes "hm_ok m" and "hm_len m < TRIE_ENTRIES"
  shows "\<exists>m'. trie_update k v m = Some m' \<and> hm_ok m' \<and> hm_len m' \<le> Suc (hm_len m)"
  using assms hm.len_insert_le [of m k v] by (auto simp: trie_update_def)

lemma populate_room:
  "hm_ok m \<Longrightarrow> hm_len m + length ws \<le> TRIE_ENTRIES \<Longrightarrow> \<exists>c m'. populate_watches trie_update ws n m = (Inr c, m')"
proof (induction ws arbitrary: n m)
  case (Cons w ws)
  show ?case
  proof (cases "encode_key (w_prefix w)")
    case None
    then show ?thesis using Cons by simp
  next
    case (Some k)
    obtain m' where m': "trie_update k (w_flags w) m = Some m'" "hm_ok m'" "hm_len m' \<le> Suc (hm_len m)"
      using trie_update_room [of m k "w_flags w"] Cons.prems by auto
    then show ?thesis using Cons.IH [of m' "Suc n"] Cons.prems(2) Some by simp
  qed
qed simp

section \<open>No watch hides another\<close>

definition dir_names :: "string list option \<Rightarrow> bool" where
  \<comment> \<open>what a directory listing returns: no name has a separator\<close>
  "dir_names homes \<longleftrightarrow> (\<forall>names. homes = Some names \<longrightarrow> (\<forall>n \<in> set names. CHR ''/'' \<notin> set n))"

lemma to_str_Some: "to_str p = Some q \<Longrightarrow> q = p"
  by (simp add: to_str_def split: if_splits)

lemma in_home_watches:
  assumes "w \<in> set (home_watches homes)" and "dir_names homes"
  shows "\<exists>n. CHR ''/'' \<notin> set n \<and> (w = watch_write (''/home/'' @ n @ ''/.ssh/'') \<or> w = watch_read_write (''/home/'' @ n @ ''/.ssh/id_''))"
proof -
  obtain names n where "homes = Some names" "n \<in> set names" "w \<in> set (watches_of_home n)"
    using assms(1) by (auto simp: home_watches_def split: option.splits)
  moreover from this have "CHR ''/'' \<notin> set n" using assms(2) by (simp add: dir_names_def)
  ultimately show ?thesis unfolding watches_of_home_def by (auto dest!: to_str_Some to_str_Some [OF sym] split: option.splits)
qed

lemma static_pairs:
  "list_all (\<lambda>w. list_all (\<lambda>w'. starts_with (w_prefix w) (w_prefix w') \<longrightarrow>
     w_prefix w = ''/root/.ssh/'' \<or> w_prefix w = w_prefix w' \<and> w_flags w = w_flags w') static_watches) static_watches"
  by code_simp

lemma static_comparable:
  "w \<in> set static_watches \<Longrightarrow> w' \<in> set static_watches \<Longrightarrow> starts_with (w_prefix w) (w_prefix w') \<Longrightarrow>
   w_prefix w \<noteq> ''/root/.ssh/'' \<Longrightarrow> w_flags w = w_flags w'"
  using static_pairs by (auto simp: list_all_iff)

lemma static_not_home:
  "w \<in> set static_watches \<Longrightarrow> \<not> starts_with (w_prefix w) (''/home/'' @ r) \<and> \<not> starts_with (''/home/'' @ r) (w_prefix w)"
  by (simp add: static_watches_def watch_defs starts_with_def) (elim disjE; simp)

lemma component_eq:
  "CHR ''/'' \<notin> set n \<Longrightarrow> CHR ''/'' \<notin> set n' \<Longrightarrow> n @ CHR ''/'' # r = n' @ CHR ''/'' # r' \<Longrightarrow> n = n' \<and> r = r'"
proof (induction n arbitrary: n')
  case Nil
  then show ?case by (cases n') auto
next
  case (Cons c n)
  then show ?case by (cases n') auto
qed

lemma home_comparable:
  assumes "CHR ''/'' \<notin> set n" and "CHR ''/'' \<notin> set n'"
    and "starts_with (''/home/'' @ n @ ''/.ssh/'' @ t) (''/home/'' @ n' @ ''/.ssh/'' @ t')"
  shows "starts_with t t'"
proof -
  obtain r where "n' @ CHR ''/'' # ''.ssh/'' @ t' = n @ CHR ''/'' # ''.ssh/'' @ t @ r"
    using assms(3) by (auto simp: starts_with_iff)
  then show ?thesis using component_eq [OF assms(2,1)] by (fastforce simp: starts_with_iff)
qed

lemma default_comparable:
  assumes dn: "dir_names homes" and w: "w \<in> set (default_watches homes)" and w': "w' \<in> set (default_watches homes)"
    and sw: "starts_with (w_prefix w) (w_prefix w')" and ne: "w_prefix w \<noteq> ''/root/.ssh/''"
  shows "and (w_flags w) (w_flags w') = w_flags w"
proof -
  have home: "\<exists>n t. CHR ''/'' \<notin> set n \<and> w_prefix v = ''/home/'' @ n @ ''/.ssh/'' @ t
      \<and> (t = [] \<and> w_flags v = WATCH_ON_WRITE \<or> t = ''id_'' \<and> w_flags v = or WATCH_ON_WRITE WATCH_ON_READ)"
    if "v \<in> set (default_watches homes)" "v \<notin> set static_watches" for v
    using in_home_watches [OF _ dn, of v] that by (auto simp: default_watches_def watch_defs)
  consider "w \<in> set static_watches" "w' \<in> set static_watches"
    | "w \<in> set static_watches" "w' \<notin> set static_watches"
    | "w \<notin> set static_watches" "w' \<in> set static_watches"
    | "w \<notin> set static_watches" "w' \<notin> set static_watches" by blast
  then show ?thesis
  proof cases
    case 1
    then show ?thesis using static_comparable [OF _ _ sw ne] by simp
  next
    case 2
    then show ?thesis using home [OF w'] static_not_home sw by fastforce
  next
    case 3
    then show ?thesis using home [OF w] static_not_home sw by fastforce
  next
    case 4
    from home [OF w 4(1)] obtain n t where n: "CHR ''/'' \<notin> set n" "w_prefix w = ''/home/'' @ n @ ''/.ssh/'' @ t"
      and t: "t = [] \<and> w_flags w = WATCH_ON_WRITE \<or> t = ''id_'' \<and> w_flags w = or WATCH_ON_WRITE WATCH_ON_READ" by blast
    from home [OF w' 4(2)] obtain n' t' where n': "CHR ''/'' \<notin> set n'" "w_prefix w' = ''/home/'' @ n' @ ''/.ssh/'' @ t'"
      and t': "t' = [] \<and> w_flags w' = WATCH_ON_WRITE \<or> t' = ''id_'' \<and> w_flags w' = or WATCH_ON_WRITE WATCH_ON_READ" by blast
    have "starts_with t t'" using home_comparable [OF n(1) n'(1)] sw n(2) n'(2) by simp
    then show ?thesis using t t' by (auto simp: watch_flag_defs starts_with_def)
  qed
qed

lemma direction_mono:
  assumes "direction f a \<noteq> 0" and "and a b = a"
  shows "direction f b \<noteq> 0"
proof -
  have keep: "and b c \<noteq> 0" if "and a c \<noteq> 0" for c
  proof
    assume "and b c = 0"
    then have "and (and a b) c = 0" by (simp add: and.assoc)
    then show False using that assms(2) by simp
  qed
  have "b \<noteq> 0" if "and b c \<noteq> 0" for c using that by auto
  then show ?thesis using assms(1) keep [of WATCH_ON_WRITE] keep [of WATCH_ON_READ]
    unfolding direction_def by (auto split: if_splits)
qed

lemma prefixes_comparable:
  "starts_with p s \<Longrightarrow> starts_with q s \<Longrightarrow> length p \<le> length q \<Longrightarrow> starts_with p q"
  by (auto simp: starts_with_iff append_eq_append_conv2)



text \<open>
  C39 (error): The exception. Root's private keys have a watch for reading only, which is longer than the
  write watch on their directory and so takes its place: overwriting root's SSH private key is not
  reported, although the directory is watched for writes.
\<close>

theorem root_key_write_missed:
  assumes trie: "lpm_trie ok entries update look" and "ok m" and "entries m = (\<lambda>_. None)"
    and "populate_watches update (default_watches homes) 0 m = (Inr c, m')" and dn: "dir_names homes"
    and len: "length path < MAX_WATCH_PATH" and path: "starts_with ''/root/.ssh/id_'' path"
    and wr: "and f_mode FMODE_WRITE \<noteq> 0"
  shows "watch_flags look m' ids f_mode path fid = 0"
proof -
  let ?w = "watch_read ''/root/.ssh/id_''"
  have w: "?w \<in> set (default_watches homes)" by (simp add: default_watches_def static_watches_def)
  have sw: "starts_with (w_prefix ?w) path" using path by (simp add: watch_read_def)
  from lpm_trie.look_longest [OF trie assms(2-4) len w sw] obtain w' where
    w': "w' \<in> set (default_watches homes)" "look m' (open_key path) = Some (w_flags w')"
      "starts_with (w_prefix w') path" "length (w_prefix ?w) \<le> length (w_prefix w')" using w sw by blast
  have "starts_with (w_prefix ?w) (w_prefix w')" using prefixes_comparable [OF sw w'(3,4)] .
  then have "w_flags w' = WATCH_ON_READ"
  proof (cases "w' \<in> set static_watches")
    case True
    then show ?thesis using static_comparable [of ?w w'] \<open>starts_with (w_prefix ?w) (w_prefix w')\<close>
      by (simp add: watch_read_def static_watches_def)
  next
    case False
    then have "w' \<in> set (home_watches homes)" using w'(1) by (simp add: default_watches_def)
    from in_home_watches [OF this dn] have "\<exists>r. w_prefix w' = ''/home/'' @ r" by (auto simp: watch_defs)
    then show ?thesis using \<open>starts_with (w_prefix ?w) (w_prefix w')\<close> by (auto simp: starts_with_def watch_read_def)
  qed
  then show ?thesis using w'(2) wr by (simp add: watch_flags_def direction_def watch_flag_defs)
qed

theorem root_key_write_missed_witness:
  "\<exists>c m'. populate_watches trie_update (default_watches None) 0 hm_empty = (Inr c, m')
     \<and> watch_flags trie_look m' (\<lambda>_. None) 2 ''/root/.ssh/id_ed25519'' (file_id_new 9 9) = 0"
proof -
  have "length (default_watches None) \<le> TRIE_ENTRIES"
    by (simp add: TRIE_ENTRIES_def default_watches_def static_watches_def home_watches_def)
  then obtain c m' where pop: "populate_watches trie_update (default_watches None) 0 hm_empty = (Inr c, m')"
    using populate_room [of hm_empty "default_watches None" 0] by auto
  have "watch_flags trie_look m' (\<lambda>_. None) 2 ''/root/.ssh/id_ed25519'' (file_id_new 9 9) = 0"
    by (rule root_key_write_missed [OF tr.lpm_trie_axioms _ _ pop])
      (simp_all add: dir_names_def MAX_WATCH_PATH_def starts_with_def FMODE_WRITE_def fun_eq_iff)
  then show ?thesis using pop by blast
qed

text \<open>
  Enforcement can only ever touch the five files the kernel executes: a default watch may be
  denied exactly if it is one of the escape hatches, and then it watches writes and never reads; every
  watch names at least one direction, so no stored value reads as a miss.
\<close>

theorem only_hatches_deniable:
  "map w_prefix (filter (\<lambda>w. and (w_flags w) WATCH_DENY_IN_NS \<noteq> 0) (default_watches homes)) = ESCAPE_HATCHES
   \<and> list_all (\<lambda>w. and (w_flags w) (or WATCH_ON_WRITE WATCH_ON_READ) \<noteq> 0
        \<and> (and (w_flags w) WATCH_DENY_IN_NS = 0 \<or> w_flags w = or WATCH_ON_WRITE WATCH_DENY_IN_NS)) (default_watches homes)"
proof -
  have home: "w_flags w = WATCH_ON_WRITE \<or> w_flags w = or WATCH_ON_WRITE WATCH_ON_READ" if "w \<in> set (home_watches homes)" for w
    using that by (auto simp: home_watches_def watches_of_home_def watch_defs split: option.splits)
  have "filter (\<lambda>w. and (w_flags w) WATCH_DENY_IN_NS \<noteq> 0) (home_watches homes) = []"
    using home by (fastforce simp: filter_empty_conv watch_flag_defs)
  moreover have "list_all (\<lambda>w. and (w_flags w) (or WATCH_ON_WRITE WATCH_ON_READ) \<noteq> 0
        \<and> (and (w_flags w) WATCH_DENY_IN_NS = 0 \<or> w_flags w = or WATCH_ON_WRITE WATCH_DENY_IN_NS)) (home_watches homes)"
    using home by (fastforce simp: list_all_iff watch_flag_defs)
  ultimately show ?thesis
    by (simp add: default_watches_def static_watches_def watch_defs watch_flag_defs ESCAPE_HATCHES_def)
qed

end
