(* ===== verification/Sensors.thy ===== *)
theory Sensors
  imports Watchlist
begin

text \<open>
  Arming the sensors (\<^verbatim>\<open>run\<close> of \<^verbatim>\<open>src/sensors.rs\<close>): which sensors count as active, when enforcement is
  refused or disarmed, and the refresh of the watches under \<^verbatim>\<open>/home\<close>; with the decision the kernel side
  takes from that configuration on every file open (\<^verbatim>\<open>bpf/common.h\<close>, \<^verbatim>\<open>bpf/sensors/file.bpf.h\<close>). Loading
  and attaching of programs is libbpf's: whether a program attaches is a parameter.
\<close>

section \<open>Start-up\<close>

datatype enforce = Enforce_Off | Enforce_Audit | Enforce_On

definition enforce_mode :: "enforce \<Rightarrow> u32" where
  "enforce_mode e = (case e of Enforce_Off \<Rightarrow> 0 | Enforce_Audit \<Rightarrow> 1 | Enforce_On \<Rightarrow> 2)"

definition LSM_SENSORS :: "string list" where
  "LSM_SENSORS = [''file_open'', ''path_chmod'', ''path_mknod'', ''inode_setxattr'', ''ptrace'', ''bprm_check'',
     ''unix_connect'', ''socket_listen'']"

definition SENSOR_NAMES :: "string list" where
  \<comment> \<open>in the order of the \<^verbatim>\<open>attach!\<close> lines\<close>
  "SENSOR_NAMES = [''exec'', ''fork'', ''exit'', ''commit_creds'', ''file_open'', ''path_chmod'', ''path_mknod'',
     ''inode_setxattr'', ''ptrace'', ''bprm_check'', ''module_load'', ''unix_connect'', ''socket_listen'']"

definition INERT :: string where
  "INERT = ''attached, but `bpf` is not in /sys/kernel/security/lsm, so the kernel never invokes the hook''"

text \<open>\<open>attach\<close> gives the error of a program that does not attach.\<close>

definition attach_all :: "(string \<Rightarrow> string option) \<Rightarrow> string list \<times> (string \<times> string) list" where
  "attach_all attach =
     (filter (\<lambda>n. attach n = None) SENSOR_NAMES,
      List.map_filter (\<lambda>n. map_option (Pair n) (attach n)) SENSOR_NAMES)"

definition drop_inert :: "bool option \<Rightarrow> string list \<times> (string \<times> string) list \<Rightarrow> string list \<times> (string \<times> string) list" where
  "drop_inert lsm = (\<lambda>(attached, missing).
     if lsm = Some False
     then (filter (\<lambda>n. n \<notin> set LSM_SENSORS) attached,
           missing @ map (\<lambda>n. (n, INERT)) (filter (\<lambda>n. n \<in> set LSM_SENSORS) attached))
     else (attached, missing))"

definition refuse_enforcement :: "enforce \<Rightarrow> u32 \<Rightarrow> bool" where
  "refuse_enforcement enforce host_mnt_ns \<longleftrightarrow> enforce \<noteq> Enforce_Off \<and> host_mnt_ns = 0"

record armed =
  ar_enforce :: enforce
  ar_attached :: "string list"
  ar_missing :: "(string \<times> string) list"
  ar_active :: u32
  ar_total :: u32

text \<open>
  The outcome and the content of the kernel's configuration map, a mode and the host's mount namespace.
\<close>

definition sensors_start ::
    "enforce \<Rightarrow> u32 \<Rightarrow> (string \<Rightarrow> string option) \<Rightarrow> bool option \<Rightarrow> (string + armed) \<times> (u32 \<times> u32) option" where
  "sensors_start enforce host_mnt_ns attach lsm =
     (if refuse_enforcement enforce host_mnt_ns
      then (Inl ''enforcement needs the host mount namespace'', None)
      else
        let cfg = Some (enforce_mode enforce, host_mnt_ns);
            (attached, missing) = drop_inert lsm (attach_all attach)
        in if ''exec'' \<notin> set attached then (Inl ''the exec sensor could not attach'', cfg)
           else
             let disarm = enforce \<noteq> Enforce_Off \<and> ''file_open'' \<notin> set attached;
                 enforce' = (if disarm then Enforce_Off else enforce);
                 cfg' = (if disarm then Some (enforce_mode Enforce_Off, host_mnt_ns) else cfg)
             in (Inr \<lparr>ar_enforce = enforce', ar_attached = attached, ar_missing = missing,
                       ar_active = of_nat (length attached),
                       ar_total = of_nat (length attached + length missing)\<rparr>, cfg'))"

section \<open>The decision in the kernel\<close>

definition ENFORCE_ON :: u32 where "ENFORCE_ON = 2"
definition ENFORCE_AUDIT :: u32 where "ENFORCE_AUDIT = 1"
definition ENFORCE_OFF :: u32 where "ENFORCE_OFF = 0"

text \<open>
  \<open>mnt_known\<close>: the kernel has the type that the namespace is read through; \<open>mnt\<close>: what is read, 0 when
  it cannot be.
\<close>

definition deny_decision :: "(u32 \<times> u32) option \<Rightarrow> bool \<Rightarrow> u32 \<Rightarrow> bool \<Rightarrow> u32" where
  "deny_decision cfg mnt_known mnt is_escape_target =
     (if \<not> is_escape_target then ENFORCE_OFF
      else case cfg of None \<Rightarrow> ENFORCE_OFF
        | Some (mode, host) \<Rightarrow>
            if mode = ENFORCE_OFF \<or> host = 0 then ENFORCE_OFF
            else if \<not> mnt_known then ENFORCE_OFF
            else if mnt = 0 \<or> mnt = host then ENFORCE_OFF
            else mode)"

record file_event =
  fe_mode :: u32
  fe_watch_id :: u32
  fe_flags :: u16
  fe_path :: string

text \<open>
  One file open: what is emitted and whether the open fails with \<^verbatim>\<open>EPERM\<close>. \<open>path = None\<close> is a path the
  kernel cannot resolve; \<open>room\<close> is whether the ring buffer has space.
\<close>

definition file_open ::
    "u8 list set \<Rightarrow> (u32 \<Rightarrow> string \<Rightarrow> file_id \<Rightarrow> u32) \<Rightarrow> (u32 \<times> u32) option \<Rightarrow> bool \<Rightarrow> u32 \<Rightarrow> bool
     \<Rightarrow> u32 \<Rightarrow> string option \<Rightarrow> file_id \<Rightarrow> file_event option \<times> bool" where
  "file_open escape_targets watch cfg mnt_known mnt room f_mode path fid =
     (let is_hatch = (and f_mode FMODE_WRITE \<noteq> 0 \<and> to_map_key fid \<in> escape_targets)
      in case path of None \<Rightarrow> (None, False)
         | Some p \<Rightarrow>
             let wf = watch f_mode p fid
             in if wf = 0 \<and> \<not> is_hatch then (None, False)
                else
                  let decision = deny_decision cfg mnt_known mnt is_hatch
                  in if \<not> room then (None, False)
                     else (Some \<lparr>fe_mode = f_mode, fe_watch_id = wf,
                             fe_flags = or (if is_hatch then 16 else 0)
                               (if decision = ENFORCE_ON then 4 else if decision = ENFORCE_AUDIT then 8 else 0),
                             fe_path = take (MAX_WATCH_PATH - 1) p\<rparr>,
                           decision = ENFORCE_ON))"

section \<open>New users\<close>

definition fresh_watches :: "string set \<Rightarrow> string list option \<Rightarrow> watch list" where
  "fresh_watches watched homes = filter (\<lambda>w. w_prefix w \<notin> watched) (home_watches homes)"

definition refresh_watches ::
    "(u8 list \<Rightarrow> u32 \<Rightarrow> 'm \<Rightarrow> 'm option) \<Rightarrow> string list option \<Rightarrow> string set \<times> 'm \<Rightarrow> string set \<times> 'm" where
  "refresh_watches update homes = (\<lambda>(watched, m).
     let fresh = fresh_watches watched homes
     in if fresh = [] then (watched, m)
        else case populate_watches update fresh 0 m of
               (Inr _, m') \<Rightarrow> (watched \<union> w_prefix ` set fresh, m')
             | (Inl _, m') \<Rightarrow> (watched, m'))"

section \<open>Properties\<close>

lemma sensors_start_Inr:
  assumes "sensors_start e ns attach lsm = (Inr a, cfg)"
  shows "(e = Enforce_Off \<or> ns \<noteq> 0) \<and> cfg = Some (enforce_mode (ar_enforce a), ns)
    \<and> ar_enforce a = (if ''file_open'' \<in> set (ar_attached a) then e else Enforce_Off)
    \<and> (ar_attached a, ar_missing a) = drop_inert lsm (attach_all attach) \<and> ''exec'' \<in> set (ar_attached a)"
  using assms by (auto simp: sensors_start_def refuse_enforcement_def Let_def case_prod_beta split: if_splits)

text \<open>
  C8 (safety): An open is refused only when it is certain. If the kernel fails an open, then enforcement
  was requested and is armed (the file sensor is live), the host's mount namespace is known and the
  opener is provably in another one, the open is for writing, the file is by identity one of the five
  escape hatches of this host, and the refusal is in the event stream.
\<close>

theorem denial_is_certain:
  assumes "sensors_start e host_ns attach lsm = (Inr a, cfg)"
    and "file_open (to_map_key ` set (escape_hatch_ids fs)) watch cfg mnt_known mnt room f_mode path fid = (r, True)"
  shows "e = Enforce_On \<and> ''file_open'' \<in> set (ar_attached a) \<and> host_ns \<noteq> 0 \<and> mnt \<noteq> 0 \<and> mnt \<noteq> host_ns
    \<and> and f_mode FMODE_WRITE \<noteq> 0 \<and> fid \<in> set (escape_hatch_ids fs)
    \<and> (\<exists>ev. r = Some ev \<and> bit (fe_flags ev) 2 \<and> bit (fe_flags ev) 4 \<and> \<not> bit (fe_flags ev) 3)"
proof -
  note st = sensors_start_Inr [OF assms(1)]
  have dd: "deny_decision cfg mnt_known mnt (and f_mode FMODE_WRITE \<noteq> 0 \<and> to_map_key fid \<in> to_map_key ` set (escape_hatch_ids fs)) = ENFORCE_ON"
    and r: "\<exists>ev. r = Some ev \<and> fe_flags ev = or (if and f_mode FMODE_WRITE \<noteq> 0 \<and> to_map_key fid \<in> to_map_key ` set (escape_hatch_ids fs) then 16 else 0) 4"
    using assms(2) by (auto simp: file_open_def Let_def split: option.splits if_splits)
  have d: "and f_mode FMODE_WRITE \<noteq> 0 \<and> to_map_key fid \<in> to_map_key ` set (escape_hatch_ids fs)"
      "enforce_mode (ar_enforce a) = ENFORCE_ON" "host_ns \<noteq> 0" "mnt \<noteq> 0" "mnt \<noteq> host_ns"
    using dd st by (auto simp: deny_decision_def ENFORCE_ON_def ENFORCE_OFF_def split: if_splits)
  have e: "ar_enforce a = Enforce_On" using d(2) by (cases "ar_enforce a") (simp_all add: enforce_mode_def ENFORCE_ON_def)
  then have "e = Enforce_On \<and> ''file_open'' \<in> set (ar_attached a)" using st by (auto split: if_splits)
  moreover have "\<exists>ev. r = Some ev \<and> bit (fe_flags ev) 2 \<and> bit (fe_flags ev) 4 \<and> \<not> bit (fe_flags ev) 3"
    using r d(1) by (auto simp: bit_numeral_rec)
  ultimately show ?thesis using d by (auto simp: to_map_key_eq_iff)
qed

definition hatch_host :: host_fs where
  "hatch_host = \<lparr>fs_metadata = (\<lambda>p. if p = ''/proc/sys/kernel/core_pattern'' then Some (23, 77) else None),
     fs_major = (\<lambda>_. 0), fs_minor = ucast, fs_canonicalize = Some\<rparr>"

theorem denial_is_certain_witness:
  "\<exists>a cfg ev. sensors_start Enforce_On 5 (\<lambda>_. None) (Some True) = (Inr a, cfg)
     \<and> file_open (to_map_key ` set (escape_hatch_ids hatch_host)) (\<lambda>_ _ _. 0) cfg True 6 True 2
          (Some ''/hostproc/sys/kernel/core_pattern'') (file_id_new 23 77) = (Some ev, True)
     \<and> bit (fe_flags ev) 2"
proof -
  have ids: "file_id_new 23 77 \<in> set (escape_hatch_ids hatch_host)"
    by (simp add: escape_hatch_ids_def ESCAPE_HATCHES_def hatch_host_def file_id_of_def kernel_dev_def
        List.map_filter_def file_id_new_def MINOR_BITS_def)
  obtain a cfg where st: "sensors_start Enforce_On 5 (\<lambda>_. None) (Some True) = (Inr a, cfg)" and cfg: "cfg = Some (2, 5)"
    by (simp add: sensors_start_def refuse_enforcement_def drop_inert_def attach_all_def SENSOR_NAMES_def enforce_mode_def)
  obtain r where r: "file_open (to_map_key ` set (escape_hatch_ids hatch_host)) (\<lambda>_ _ _. 0) cfg True 6 True 2
          (Some ''/hostproc/sys/kernel/core_pattern'') (file_id_new 23 77) = (r, True)"
    using ids by (simp add: file_open_def Let_def FMODE_WRITE_def deny_decision_def cfg ENFORCE_ON_def ENFORCE_OFF_def)
  show ?thesis using denial_is_certain [OF st r] st r by blast
qed

lemma attach_partition: "mset (fst (attach_all attach) @ map fst (snd (attach_all attach))) = mset SENSOR_NAMES"
proof -
  have "map fst (List.map_filter (\<lambda>n. map_option (Pair n) (attach n)) xs) = filter (\<lambda>n. attach n \<noteq> None) xs" for xs
    by (induction xs) (auto simp: List.map_filter_def)
  then show ?thesis by (simp add: attach_all_def flip: multiset_partition)
qed

lemma drop_inert_partition:
  "mset (fst (drop_inert lsm p) @ map fst (snd (drop_inert lsm p))) = mset (fst p @ map fst (snd p))"
proof -
  have "mset (filter (\<lambda>n. n \<notin> set LSM_SENSORS) xs) + mset (filter (\<lambda>n. n \<in> set LSM_SENSORS) xs) = mset xs" for xs
    using multiset_partition [of "mset xs" "\<lambda>n. n \<notin> set LSM_SENSORS"] by simp
  then show ?thesis
    by (cases p) (auto simp: drop_inert_def multiset.map_comp comp_def add.commute simp flip: mset_filter)
qed

text \<open>
  Every sensor is accounted for exactly once. The active and the missing sensors are
  together the thirteen the agent has; without the BPF security module none of its hooks counts as
  active; and an agent that starts always has the exec sensor.
\<close>

theorem sensors_accounted:
  assumes "sensors_start e ns attach lsm = (Inr a, cfg)"
  shows "mset (ar_attached a @ map fst (ar_missing a)) = mset SENSOR_NAMES \<and> ar_total a = 13
    \<and> unat (ar_active a) = length (ar_attached a) \<and> ''exec'' \<in> set (ar_attached a)
    \<and> (lsm = Some False \<longrightarrow> set (ar_attached a) \<inter> set LSM_SENSORS = {})"
proof -
  note st = sensors_start_Inr [OF assms]
  have n: "length SENSOR_NAMES = 13" by (simp add: SENSOR_NAMES_def)
  have part: "mset (ar_attached a @ map fst (ar_missing a)) = mset SENSOR_NAMES"
    using attach_partition [of attach] drop_inert_partition [of lsm "attach_all attach"] st by (metis fst_conv snd_conv)
  then have len: "length (ar_attached a) + length (ar_missing a) = 13"
    using n by (metis length_append length_map size_mset)
  have "ar_active a = of_nat (length (ar_attached a))" "ar_total a = of_nat (length (ar_attached a) + length (ar_missing a))"
    using assms by (auto simp: sensors_start_def refuse_enforcement_def Let_def case_prod_beta split: if_splits)
  moreover have "length (ar_attached a) < 2 ^ 32" using len by simp
  ultimately have "ar_total a = 13" "unat (ar_active a) = length (ar_attached a)"
    using len by (simp_all add: unat_of_nat)
  moreover have "lsm = Some False \<longrightarrow> set (ar_attached a) \<inter> set LSM_SENSORS = {}"
    using st by (auto simp: drop_inert_def attach_all_def)
  ultimately show ?thesis using part st by blast
qed

theorem sensors_accounted_witness:
  "\<exists>a cfg. sensors_start Enforce_Off 0 (\<lambda>n. if n = ''ptrace'' then Some ''no'' else None) (Some False) = (Inr a, cfg)
     \<and> ar_total a = 13 \<and> ''file_open'' \<notin> set (ar_attached a)"
proof -
  obtain a cfg where "sensors_start Enforce_Off 0 (\<lambda>n. if n = ''ptrace'' then Some ''no'' else None) (Some False) = (Inr a, cfg)"
    by (simp add: sensors_start_def refuse_enforcement_def drop_inert_def attach_all_def SENSOR_NAMES_def LSM_SENSORS_def enforce_mode_def)
  then show ?thesis using sensors_accounted [of Enforce_Off 0 "\<lambda>n. if n = ''ptrace'' then Some ''no'' else None" "Some False" a cfg]
    by (auto simp: LSM_SENSORS_def)
qed

end
