(* ===== verification/Canary.thy ===== *)
theory Canary
  imports Prelude
begin

text \<open>
  Self-attestation (\<^verbatim>\<open>src/canary.rs\<close>): the agent starts a child at every tick and checks at the next one
  that its own sensors saw it. Spawning is the operating system's; its outcome is a parameter of a round.
\<close>

section \<open>State and operations\<close>

record canary =
  cn_pending :: "u32 option"
  cn_seen :: bool
  cn_verified :: "bool option"
  cn_misses :: u64

definition canary_new :: canary where
  "canary_new = \<lparr>cn_pending = None, cn_seen = False, cn_verified = None, cn_misses = 0\<rparr>"

definition canary_observe :: "u32 \<Rightarrow> canary \<Rightarrow> canary" where
  "canary_observe tgid c = (if cn_pending c = Some tgid then c\<lparr>cn_seen := True\<rparr> else c)"

definition canary_round :: "u32 option \<Rightarrow> canary \<Rightarrow> bool option \<times> canary" where
  "canary_round spawned c =
     (let c1 = (if cn_pending c \<noteq> None
                then c\<lparr>cn_verified := Some (cn_seen c),
                       cn_misses := (if cn_seen c then cn_misses c else cn_misses c + 1)\<rparr>
                else c);
          c2 = c1\<lparr>cn_seen := False, cn_pending := spawned\<rparr>
      in (cn_verified c2, c2))"

section \<open>What a verdict says\<close>

text \<open>One interval: a round, then the events of the interval.\<close>

definition interval :: "u32 option \<Rightarrow> u32 list \<Rightarrow> canary \<Rightarrow> canary" where
  "interval spawned tgids c = fold canary_observe tgids (snd (canary_round spawned c))"

lemma observe_all:
  "fold canary_observe ts c = c\<lparr>cn_seen := cn_seen c \<or> (\<exists>t \<in> set ts. cn_pending c = Some t)\<rparr>"
  by (induction ts arbitrary: c) (auto simp: canary_observe_def)

lemma interval_state:
  "interval spawned ts c = (snd (canary_round spawned c))\<lparr>cn_seen := (\<exists>t \<in> set ts. spawned = Some t)\<rparr>"
  by (simp add: interval_def observe_all canary_round_def Let_def)

text \<open>
  A round that could start its child gets a true verdict. Whatever happened before, the
  verdict at the next tick is positive exactly if an event of that very child was seen in the interval,
  and only a negative one counts as a miss.
\<close>

theorem canary_verdict:
  "fst (canary_round next (interval (Some p) ts c)) = Some (p \<in> set ts)
   \<and> cn_misses (snd (canary_round next (interval (Some p) ts c)))
       = cn_misses (interval (Some p) ts c) + (if p \<in> set ts then 0 else 1)"
  by (auto simp: interval_state canary_round_def Let_def)

text \<open>
  A failed spawn is not reported as unknown. When the child cannot be started, later rounds
  repeat the last verdict for as long as that lasts, so an agent that was once verified goes on saying
  so with no evidence, whatever its sensors see.
\<close>

theorem canary_stale_verdict:
  "fst (canary_round next (fold (interval None) (ts # tss) c)) = fst (canary_round None c)"
proof -
  have "cn_verified (fold (interval None) tss c') = cn_verified c' \<and> cn_pending (fold (interval None) tss c') = None"
    if "cn_pending c' = None" for c'
    using that by (induction tss arbitrary: c') (simp_all add: interval_state canary_round_def Let_def)
  moreover have "cn_pending (interval None ts c) = None" "cn_verified (interval None ts c) = fst (canary_round None c)"
    by (simp_all add: interval_state canary_round_def Let_def)
  ultimately show ?thesis by (simp add: canary_round_def Let_def)
qed

end
