(* ===== verification/Agent.thy ===== *)
theory Agent
  imports Report Sensors Canary
begin

text \<open>
  The agent (\<^verbatim>\<open>src/main.rs\<close>): its start-up, the callback that takes every record of the kernel through
  decoding, trust, graph and engine, the liveness tick, the replay of a capture and the learning of a
  baseline. Output and the loading of files are not modelled.
\<close>

section \<open>State\<close>

record agent =
  ag_trusted :: trusted_binaries
  ag_graph :: graph
  ag_engine :: engine
  ag_canary :: canary
  ag_last_reap :: u64

text \<open>A refused option carries the value that was given.\<close>

definition parse_severity :: "string \<Rightarrow> string + severity" where
  "parse_severity s =
     (let l = to_ascii_lowercase s
      in if l = ''info'' then Inr Info else if l = ''low'' then Inr Low else if l = ''medium'' then Inr Medium
         else if l = ''high'' then Inr High else if l = ''critical'' then Inr Critical
         else Inl l)"

definition parse_enforce :: "string \<Rightarrow> string + enforce" where
  "parse_enforce s =
     (let l = to_ascii_lowercase s
      in if l = ''off'' then Inr Enforce_Off else if l = ''audit'' then Inr Enforce_Audit
         else if l = ''on'' then Inr Enforce_On
         else Inl l)"

definition NANOS :: nat where "NANOS = 1000000000"

text \<open>Start-up: a baseline and rules are applied when given; the table of programs is resolved before the scan.\<close>

definition engine_start :: "severity \<Rightarrow> baseline option \<Rightarrow> rule list option \<Rightarrow> engine" where
  "engine_start min_sev b rs =
     (let e = engine_new min_sev;
          e = (case b of None \<Rightarrow> e | Some b \<Rightarrow> with_baseline b e)
      in case rs of None \<Rightarrow> e | Some rs \<Rightarrow> with_rules (rule_set_new rs) e)"

definition agent_start :: "nat \<Rightarrow> nat \<Rightarrow> severity \<Rightarrow> baseline option \<Rightarrow> rule list option \<Rightarrow> procfs \<Rightarrow> host_fs \<Rightarrow> int \<Rightarrow> agent" where
  "agent_start max_processes retain min_sev b rs pf fs hz =
     (let tb = resolve_host fs; g = snd (bootstrap pf fs hz tb (graph_new max_processes (retain * NANOS)))
      in \<lparr>ag_trusted = tb, ag_graph = set_host_mnt_ns (host_mnt_ns pf) g, ag_engine = engine_start min_sev b rs,
          ag_canary = canary_new, ag_last_reap = 0\<rparr>)"

section \<open>The event callback\<close>

definition REAP_EVERY :: u64 where "REAP_EVERY = 10000000000"

definition agent_reap :: "u64 \<Rightarrow> agent \<Rightarrow> agent option" where
  "agent_reap ts ag =
     map_option (\<lambda>g. ag\<lparr>ag_graph := g, ag_engine := engine_reap g (ag_engine ag), ag_last_reap := ts\<rparr>) (reap ts (ag_graph ag))"

definition maybe_reap :: "u64 \<Rightarrow> agent \<Rightarrow> agent option" where
  "maybe_reap ts ag = (if saturating_sub ts (ag_last_reap ag) > REAP_EVERY then agent_reap ts ag else Some ag)"

definition agent_apply :: "env \<Rightarrow> event \<Rightarrow> agent \<Rightarrow> (incident option \<times> agent) option" where
  \<comment> \<open>graph, then engine, then housekeeping: also the loop of \<^verbatim>\<open>replay\<close>\<close>
  "agent_apply env ev ag =
     (let g = apply_event ev (ag_graph ag); (inc, e) = engine_on_event env ev g (ag_engine ag)
      in map_option (Pair inc) (maybe_reap (ev_ts_ns ev) (ag\<lparr>ag_graph := g, ag_engine := e\<rparr>)))"

definition agent_event :: "env \<Rightarrow> host_fs \<Rightarrow> u32 \<Rightarrow> raw_event \<Rightarrow> agent \<Rightarrow> (incident option \<times> agent) option" where
  "agent_event env fs self_pid raw ag =
     (if r_tgid raw = self_pid then Some (None, ag)
      else
        let c = canary_observe (r_tgid raw) (ag_canary ag);
            (ev, tb) = resolve_trust fs (event_from_raw raw) (ag_trusted ag)
        in agent_apply env ev (ag\<lparr>ag_canary := c, ag_trusted := tb\<rparr>))"

text \<open>The tick: close the canary's round and report. The counters come from the sensors.\<close>

definition agent_tick :: "string \<Rightarrow> u64 \<Rightarrow> u64 \<Rightarrow> counters \<Rightarrow> u32 option \<Rightarrow> agent \<Rightarrow> heartbeat_record \<times> agent" where
  "agent_tick version now uptime s spawned ag =
     (let (verified, c) = canary_round spawned (ag_canary ag)
      in (heartbeat_new version now uptime s verified (cn_misses c), ag\<lparr>ag_canary := c\<rparr>))"

section \<open>Captures\<close>

definition USIZE_MAX :: nat where "USIZE_MAX = 2 ^ 64 - 1"
definition FOREVER_SECS :: nat where "FOREVER_SECS = (2 ^ 64 - 1) div 2"

text \<open>A capture is the list of its lines, each the event it decodes to or nothing.\<close>

fun replay_go :: "env \<Rightarrow> event option list \<Rightarrow> nat \<times> nat \<Rightarrow> agent \<Rightarrow> (incident list \<times> (nat \<times> nat) \<times> agent) option" where
  "replay_go env [] counts ag = Some ([], counts, ag)"
| "replay_go env (None # ls) (n, bad) ag = replay_go env ls (n, Suc bad) ag"
| "replay_go env (Some ev # ls) (n, bad) ag =
     (case agent_apply env ev ag of None \<Rightarrow> None
      | Some (inc, ag') \<Rightarrow>
          map_option (\<lambda>(incs, r). ((case inc of None \<Rightarrow> incs | Some i \<Rightarrow> i # incs), r)) (replay_go env ls (Suc n, bad) ag'))"

definition replay_start :: "baseline option \<Rightarrow> rule list option \<Rightarrow> agent" where
  "replay_start b rs =
     \<lparr>ag_trusted = tb_none, ag_graph = graph_new USIZE_MAX (FOREVER_SECS * NANOS), ag_engine = engine_start Low b rs,
      ag_canary = canary_new, ag_last_reap = 0\<rparr>"

definition replay :: "env \<Rightarrow> baseline option \<Rightarrow> rule list option \<Rightarrow> event option list \<Rightarrow> (incident list \<times> (nat \<times> nat) \<times> agent) option" where
  "replay env b rs ls = replay_go env ls (0, 0) (replay_start b rs)"

definition learn_event :: "event \<Rightarrow> graph \<times> baseline \<times> u64 \<Rightarrow> graph \<times> baseline \<times> u64" where
  "learn_event ev = (\<lambda>(g0, b0, n).
     let g = apply_event ev g0;
         b = fold (\<lambda>sig. observe (s_id sig) (case graph_get g (s_key sig) of None \<Rightarrow> [] | Some node \<Rightarrow> pn_exe node) (s_ts_ns sig))
               (detect ev g) (note_event (ev_ts_ns ev) b0)
     in (g, b, n + 1))"

definition baseline_build :: "u64 \<Rightarrow> event option list \<Rightarrow> baseline" where
  "baseline_build now ls =
     (let (g, b, n) = fold learn_event (List.map_filter (\<lambda>l. l) ls)
            (graph_new USIZE_MAX (FOREVER_SECS * NANOS), baseline_new now, 0)
      in b\<lparr>b_events_observed := n\<rparr>)"

text \<open>
  Recording: the same decoding and trust, with the event written out. Reading an event back redacts its
  arguments again (\<^verbatim>\<open>de_redacted_argv\<close>) and changes nothing else (theory \<open>Pipeline\<close>).
\<close>

definition record_event :: "host_fs \<Rightarrow> u32 \<Rightarrow> raw_event \<Rightarrow> trusted_binaries \<Rightarrow> event option \<times> trusted_binaries" where
  "record_event fs self_pid raw tb =
     (if r_tgid raw = self_pid then (None, tb)
      else (case resolve_trust fs (event_from_raw raw) tb of (ev, tb') \<Rightarrow> (Some ev, tb')))"

definition de_redacted_argv :: "event \<Rightarrow> event" where
  "de_redacted_argv ev = ev\<lparr>ev_argv := Redact.argv (ev_argv ev)\<rparr>"

fun record_go :: "u32 \<Rightarrow> (host_fs \<times> raw_event) list \<Rightarrow> trusted_binaries \<Rightarrow> event list" where
  "record_go self_pid [] tb = []"
| "record_go self_pid ((fs, raw) # rs) tb =
     (case record_event fs self_pid raw tb of
        (None, tb') \<Rightarrow> record_go self_pid rs tb'
      | (Some ev, tb') \<Rightarrow> ev # record_go self_pid rs tb')"

text \<open>The live agent over the same records, the host's files as they are at each of them.\<close>

fun live_go :: "env \<Rightarrow> u32 \<Rightarrow> (host_fs \<times> raw_event) list \<Rightarrow> agent \<Rightarrow> (incident list \<times> agent) option" where
  "live_go env self_pid [] ag = Some ([], ag)"
| "live_go env self_pid ((fs, raw) # rs) ag =
     (case agent_event env fs self_pid raw ag of None \<Rightarrow> None
      | Some (inc, ag') \<Rightarrow>
          map_option (\<lambda>(incs, r). ((case inc of None \<Rightarrow> incs | Some i \<Rightarrow> i # incs), r)) (live_go env self_pid rs ag'))"

section \<open>What every node of the graph promises\<close>

definition all_nodes :: "(string list \<Rightarrow> string \<Rightarrow> bool) \<Rightarrow> graph \<Rightarrow> bool" where
  "all_nodes P g \<longleftrightarrow> (\<forall>k n. graph_get g k = Some n \<longrightarrow> P (pn_argv n) (pn_trusted n))"

lemma all_ensure: "all_nodes P g \<Longrightarrow> P [] [] \<Longrightarrow> all_nodes P (ensure k o' g)"
  by (auto simp: all_nodes_def node_new_def split: if_splits)

lemma all_modify:
  assumes "all_nodes P g" and "\<And>n. P (pn_argv n) (pn_trusted n) \<Longrightarrow> P (pn_argv (f n)) (pn_trusted (f n))"
  shows "all_nodes P (modify_node k f g)"
  using assms by (fastforce simp: all_nodes_def split: if_splits)

lemma all_resolve: "all_nodes P g \<Longrightarrow> all_nodes P (snd (resolve p s g))"
proof -
  assume a: "all_nodes P g"
  have "all_nodes P (rekey k k' g)" if "graph_get g k = Some node" for k k' node
    using a that by (fastforce simp: all_nodes_def get_rekey [OF that] split: if_splits)
  then show ?thesis using a by (auto simp: resolve_def Let_def all_nodes_def split: option.splits)
qed

lemma set_container_same [simp]: "pn_argv (set_container c n) = pn_argv n" "pn_trusted (set_container c n) = pn_trusted n"
  by (simp_all add: set_container_def)

lemma set_comm_same [simp]: "pn_argv (set_comm_if_empty c n) = pn_argv n" "pn_trusted (set_comm_if_empty c n) = pn_trusted n"
  by (simp_all add: set_comm_if_empty_def)

lemma cred_node_same [simp]: "pn_argv (cred_node ev n) = pn_argv n" "pn_trusted (cred_node ev n) = pn_trusted n"
  by (simp_all add: cred_node_def Let_def)

lemma all_apply:
  assumes a: "all_nodes P g" and e: "P [] []" and ev: "P (ev_argv ev) (ev_exe_trusted ev)"
  shows "all_nodes P (apply_event ev g)"
proof -
  note r = all_resolve [OF a, of "ev_tgid ev" "ev_start_boottime ev"]
  have fork: "all_nodes P (on_fork ev g)"
    unfolding on_fork_def resolve_split Let_def
    by (intro all_modify all_ensure r e) (simp_all add: fork_child_def add_child_def)
  have exec: "all_nodes P (on_exec ev g)"
    unfolding on_exec_def resolve_split
    by (intro all_modify all_ensure r e) (simp add: exec_node_def ev)
  have cred: "all_nodes P (on_cred ev g)"
    unfolding on_cred_def resolve_split by (intro all_modify all_ensure r e) simp
  have "all_nodes P (modify_node k (\<lambda>n. n\<lparr>pn_exited := Some t\<rparr>) (snd (resolve (ev_tgid ev) (ev_start_boottime ev) g)))" for k t
    by (rule all_modify [OF r]) simp
  then have exit: "all_nodes P (on_exit ev g)"
    unfolding on_exit_def resolve_split Let_def by (simp add: all_nodes_def)
  show ?thesis using a fork exec cred exit by (simp add: apply_event_def split: event_type.split)
qed

lemma all_life: "all_nodes P g \<longleftrightarrow> (\<forall>k n. life g k = Some n \<longrightarrow> P (pn_argv n) (pn_trusted n))"
proof -
  have "pn_argv (node_facts n) = pn_argv n" "pn_trusted (node_facts n) = pn_trusted n" for n
    by (simp_all add: node_facts_def)
  then show ?thesis by (fastforce simp: all_nodes_def life_def)
qed

lemma all_reap:
  assumes wf: "graph_wf g" and a: "all_nodes P g" and r: "reap now g = Some g'"
  shows "all_nodes P g'"
proof -
  have post: "evict_post (reap_expired now g) g'" using reap_spec [OF wf, of now] r by auto
  have "life (reap_expired now g) k = None \<or> life (reap_expired now g) k = life g k" for k
    using reap_expired_spec(4) [OF wf, of now k] by (auto simp: life_def split: option.splits)
  then have "life g' k = None \<or> life g' k = life g k" for k
    using post unfolding evict_post_def by metis
  then show ?thesis using a unfolding all_life by (metis option.distinct(1))
qed

section \<open>The invariant of the agent\<close>

definition safe_text :: "string list \<Rightarrow> string \<Rightarrow> bool" where
  \<comment> \<open>arguments that redaction leaves alone, and no trusted name but one of the built-in lists\<close>
  "safe_text args name \<longleftrightarrow> Redact.argv args = args \<and> (name = [] \<or> (\<exists>r. has_role name r))"

definition agent_ok :: "agent \<Rightarrow> bool" where
  "agent_ok ag \<longleftrightarrow> tb_ok (ag_trusted ag) \<and> graph_wf (ag_graph ag) \<and> engine_ok (ag_engine ag)
     \<and> all_nodes safe_text (ag_graph ag)"

definition agent_size :: "agent \<Rightarrow> nat" where
  "agent_size ag = max (graph_len (ag_graph ag))
     (max (hm_len (en_signals (ag_engine ag))) (hm_len (en_reported (ag_engine ag))))"

lemma safe_text_empty: "safe_text [] []"
  by (simp add: safe_text_def Redact.argv_def)

lemma retain_live:
  assumes "hm_ok m" and "graph_wf g"
  shows "hm_len (hm_retain (\<lambda>k _. graph_get g k \<noteq> None) m) \<le> graph_len g"
proof -
  have fin: "finite {k. hm_get (g_nodes g) k \<noteq> None}" unfolding hm_keys by simp
  have "hm_len (hm_retain (\<lambda>k _. graph_get g k \<noteq> None) m) \<le> card {k. hm_get (g_nodes g) k \<noteq> None}"
    using assms(1) by (intro hm_len_le_card fin) (auto simp: hm_get_retain graph_get_def split: option.splits if_splits)
  then show ?thesis using hm_len_card [OF wf_ok(1) [OF assms(2)]] by (simp add: graph_len_def)
qed

lemma agent_reap_spec:
  assumes ok: "agent_ok ag"
  shows "\<exists>ag'. agent_reap ts ag = Some ag' \<and> agent_ok ag' \<and> agent_size ag' \<le> g_max_processes (ag_graph ag')"
proof -
  have wf: "graph_wf (ag_graph ag)" and eo: "engine_ok (ag_engine ag)" using ok by (simp_all add: agent_ok_def)
  obtain g where g: "reap ts (ag_graph ag) = Some g" using gr.housekeeping_returns [OF wf] by blast
  have wg: "graph_wf g" and bound: "graph_len g \<le> g_max_processes g"
    using gr.housekeeping_invar [OF wf g] gr.housekeeping_bound [OF wf g] by simp_all
  have "hm_len (en_signals (engine_reap g (ag_engine ag))) \<le> graph_len g"
    "hm_len (en_reported (engine_reap g (ag_engine ag))) \<le> graph_len g"
    using eo wg by (simp_all add: engine_reap_def engine_ok_def retain_live del: not_None_eq)
  then show ?thesis using g wg bound ok all_reap [OF wf _ g, of safe_text] engine_reap_ok [OF eo, of g]
    by (simp add: agent_reap_def agent_ok_def agent_size_def)
qed

lemma agent_apply_spec:
  assumes ok: "agent_ok ag" and fk: "fork_ok ev" and sf: "safe_text (ev_argv ev) (ev_exe_trusted ev)"
  shows "\<exists>inc ag'. agent_apply env ev ag = Some (inc, ag') \<and> agent_ok ag'"
proof -
  let ?g = "apply_event ev (ag_graph ag)"
  obtain inc e where e: "engine_on_event env ev ?g (ag_engine ag) = (inc, e)" by fastforce
  let ?ag = "ag\<lparr>ag_graph := ?g, ag_engine := e\<rparr>"
  have "engine_ok e" using engine_on_event_ok [of "ag_engine ag" env ev ?g] ok e by (simp add: agent_ok_def)
  then have ok': "agent_ok ?ag"
    using ok apply_event_wf [OF _ fk] all_apply [OF _ safe_text_empty sf] by (simp add: agent_ok_def)
  then show ?thesis using agent_reap_spec [OF ok', of "ev_ts_ns ev"] e
    by (auto simp: agent_apply_def Let_def maybe_reap_def)
qed

lemma event_from_raw_safe: "safe_text (ev_argv (event_from_raw raw)) []" "ev_exe_trusted (event_from_raw raw) = []"
  by (simp_all add: safe_text_def event_from_raw_def)

lemma agent_event_spec:
  assumes ok: "agent_ok ag" and fk: "fork_ok (event_from_raw raw)"
  shows "\<exists>inc ag'. agent_event env fs self_pid raw ag = Some (inc, ag') \<and> agent_ok ag'"
proof (cases "r_tgid raw = self_pid")
  case True
  then show ?thesis using ok by (simp add: agent_event_def)
next
  case False
  obtain ev tb where rt: "resolve_trust fs (event_from_raw raw) (ag_trusted ag) = (ev, tb)" by fastforce
  note t = resolve_trust_sound [OF _ event_from_raw_safe(2) rt]
  have tb: "tb_ok tb" "ev\<lparr>ev_exe_trusted := []\<rparr> = event_from_raw raw" "ev_exe_trusted ev = [] \<or> (\<exists>r. has_role (ev_exe_trusted ev) r)"
    using t ok by (auto simp: agent_ok_def)
  have "fork_ok ev" "ev_argv ev = ev_argv (event_from_raw raw)"
    using fk by (simp_all add: fork_ok_def event_type_def ev_key_def ev_child_key_def flip: tb(2))
  then have "fork_ok ev" "safe_text (ev_argv ev) (ev_exe_trusted ev)"
    using event_from_raw_safe(1) [of raw] tb(3) by (auto simp: safe_text_def)
  moreover have "agent_ok (ag\<lparr>ag_canary := canary_observe (r_tgid raw) (ag_canary ag), ag_trusted := tb\<rparr>)"
    using ok tb(1) by (simp add: agent_ok_def)
  ultimately show ?thesis using agent_apply_spec False rt by (simp add: agent_event_def Let_def)
qed

section \<open>The agent as a state machine\<close>

text \<open>
  Between two steps the host may change: its file system, its clock and the outcome of a spawn are
  chosen anew at every step.
\<close>

inductive agent_step :: "agent \<Rightarrow> agent \<Rightarrow> bool" where
  step_event: "fork_ok (event_from_raw raw) \<Longrightarrow> agent_event env fs self_pid raw ag = Some (inc, ag') \<Longrightarrow> agent_step ag ag'"
| step_tick: "agent_tick version now uptime s spawned ag = (hb, ag') \<Longrightarrow> agent_step ag ag'"

inductive_cases agent_stepE: "agent_step ag ag'"

definition agent_init :: "agent \<Rightarrow> bool" where
  "agent_init ag \<longleftrightarrow> (\<exists>mx retain sev b rs pf fs hz. ag = agent_start mx retain sev b rs pf fs hz)"

lemma agent_init_start: "agent_init (agent_start mx retain sev b rs pf fs hz)"
  unfolding agent_init_def by blast

lemma engine_start_ok: "engine_ok (engine_start sev b rs)"
  by (auto simp: engine_start_def engine_ok_def engine_new_def with_baseline_def with_rules_def Let_def split: option.splits)

lemma bootstrap_safe:
  assumes "tb_ok tb"
  shows "graph_wf (snd (bootstrap pf fs hz tb (graph_new mx retain)))
    \<and> all_nodes safe_text (snd (bootstrap pf fs hz tb (graph_new mx retain)))"
proof (cases "pf_entries pf")
  case None
  then show ?thesis using graph_new_wf by (simp add: bootstrap_def all_nodes_def graph_new_def graph_get_def)
next
  case (Some names)
  let ?st = "fold (scan_entry pf fs (ns_per_tick hz) tb) names
    \<lparr>sc_graph = graph_new mx retain, sc_edges = [], sc_scanned = 0, sc_failed = 0\<rparr>"
  have g: "snd (bootstrap pf fs hz tb (graph_new mx retain)) = link_scanned (sc_edges ?st) (sc_graph ?st)"
    using Some by (simp add: bootstrap_def Let_def)
  have "flat tb (sc_graph ?st)"
    by (rule scan_fold_flat) (simp add: flat_def graph_new_def graph_get_def)
  moreover from this have "all_nodes safe_text (sc_graph ?st)"
    using lookup_role [OF assms] by (fastforce simp: all_nodes_def flat_def scan_node_def safe_text_def)
  then have "all_nodes safe_text (link_scanned (sc_edges ?st) (sc_graph ?st))"
    by (simp add: all_life link_scanned_facts)
  ultimately show ?thesis unfolding g using link_scanned_wf flat_wf by blast
qed

lemma agent_start_ok: "agent_ok (agent_start mx retain sev b rs pf fs hz)"
proof -
  have "tb_ok (resolve_host fs)" using resolve_host_sound by blast
  then show ?thesis using bootstrap_safe [of "resolve_host fs" pf fs hz mx "retain * NANOS"] engine_start_ok
    by (simp add: agent_start_def agent_ok_def Let_def set_host_mnt_ns_def all_nodes_def)
qed

lemma agent_step_ok: "agent_ok ag \<Longrightarrow> agent_step ag ag' \<Longrightarrow> agent_ok ag'"
proof (erule agent_stepE)
  fix raw env fs self_pid inc
  assume "agent_ok ag" "fork_ok (event_from_raw raw)" "agent_event env fs self_pid raw ag = Some (inc, ag')"
  then show "agent_ok ag'" using agent_event_spec [of ag raw env fs self_pid] by auto
qed (auto simp: agent_tick_def agent_ok_def Let_def case_prod_beta)

interpretation agt: bounded_store agent_init agent_step agent_ok agent_size "\<lambda>ag. g_max_processes (ag_graph ag)" agent_reap
proof unfold_locales
  fix ag ag' :: agent and ts
  assume ok: "agent_ok ag"
  show "\<exists>ag'. agent_reap ts ag = Some ag'" using agent_reap_spec [OF ok] by blast
  show "agent_ok ag'" "agent_size ag' \<le> g_max_processes (ag_graph ag')" if "agent_reap ts ag = Some ag'"
    using agent_reap_spec [OF ok, of ts] that by auto
qed (use agent_start_ok agent_step_ok in \<open>auto simp: agent_init_def\<close>)

text \<open>
  The agent never hangs on an event. From start-up on any host, after any sequence of
  events and ticks, the next event is processed to the end, housekeeping included.
\<close>

theorem agent_event_returns:
  assumes "agent_step\<^sup>*\<^sup>* (agent_start mx retain sev b rs pf fs hz) ag" and "fork_ok (event_from_raw raw)"
  shows "\<exists>inc ag'. agent_event env fs' self_pid raw ag = Some (inc, ag')"
proof -
  have "agent_ok ag" using agt.invar_reachable [OF agent_init_start assms(1)] .
  then show ?thesis using agent_event_spec [OF _ assms(2)] by blast
qed

definition quiet_proc :: procfs where
  "quiet_proc = \<lparr>pf_entries = None, pf_stat = (\<lambda>_. None), pf_cmdline = (\<lambda>_. None), pf_status = (\<lambda>_. None),
     pf_exe = (\<lambda>_. None), pf_host_mnt = None\<rparr>"

definition small_agent :: agent where
  "small_agent = agent_start 9 300 Medium None None quiet_proc (example_host [] 0) 100"

lemma example_fork_ok: "fork_ok (event_from_raw (example_raw 1 []))"
  by (simp add: fork_ok_def event_type_def event_from_raw_def example_raw_def event_type_from_def)

theorem agent_event_returns_witness:
  "\<exists>inc ag'. agent_event example_env (example_host [] 0) 4 (example_raw 1 []) small_agent = Some (inc, ag')"
  unfolding small_agent_def by (rule agent_event_returns [OF rtranclp.rtrancl_refl example_fork_ok])

text \<open>
  C2 (invariant): What the agent holds of a process is fit to be shown. In every state it can reach, no
  process has an argument that redaction would change, and a process carries the name of a trusted
  program only if that program is in the built-in lists, whatever names and files the host presents.
\<close>

theorem agent_holds_no_secret:
  assumes "agent_step\<^sup>*\<^sup>* (agent_start mx retain sev b rs pf fs hz) ag" and "graph_get (ag_graph ag) k = Some n"
  shows "Redact.argv (pn_argv n) = pn_argv n \<and> (pn_trusted n = [] \<or> (\<exists>r. has_role (pn_trusted n) r))"
proof -
  have "all_nodes safe_text (ag_graph ag)"
    using agt.invar_reachable [OF agent_init_start assms(1)] by (simp add: agent_ok_def)
  then show ?thesis using assms(2) by (auto simp: all_nodes_def safe_text_def)
qed

lemma example_agent_event:
  "\<exists>inc ag'. agent_event example_env (example_host [] 0) 4 (example_raw 1 []) small_agent = Some (inc, ag')
     \<and> graph_get (ag_graph ag') (ev_key (event_from_raw (example_raw 1 []))) \<noteq> None"
proof -
  let ?raw = "example_raw 1 []"
  obtain ev tb where rt: "resolve_trust (example_host [] 0) (event_from_raw ?raw) (ag_trusted small_agent) = (ev, tb)" by fastforce
  have same: "ev\<lparr>ev_exe_trusted := []\<rparr> = event_from_raw ?raw"
    using resolve_trust_sound [OF _ event_from_raw_safe(2) rt] agent_start_ok by (simp add: small_agent_def agent_ok_def)
  have ev: "event_type ev = event_type (event_from_raw ?raw)" "ev_key ev = ev_key (event_from_raw ?raw)"
      "ev_ts_ns ev = ev_ts_ns (event_from_raw ?raw)"
    by (simp_all add: event_type_def ev_key_def flip: same)
  have raw: "event_type (event_from_raw ?raw) = Exec" "ev_ts_ns (event_from_raw ?raw) = 7" "r_tgid ?raw = 100"
    by (simp_all add: event_type_def event_from_raw_def example_raw_def event_type_from_def)
  have "graph_get (apply_event ev g) (ev_key ev) \<noteq> None" for g
    using ev(1) raw(1) by (simp add: apply_event_def on_exec_def resolve_split)
  moreover have "maybe_reap 7 ag = Some ag" if "ag_last_reap ag = 0" for ag
    using that by (simp add: maybe_reap_def REAP_EVERY_def saturating_sub_def)
  moreover have "ag_last_reap small_agent = 0" by (simp add: small_agent_def agent_start_def Let_def)
  ultimately show ?thesis using raw ev rt
    by (simp add: agent_event_def agent_apply_def Let_def case_prod_beta del: not_None_eq)
qed

theorem agent_holds_no_secret_witness:
  "\<exists>ag k n. agent_step\<^sup>*\<^sup>* small_agent ag \<and> graph_get (ag_graph ag) k = Some n \<and> Redact.argv (pn_argv n) = pn_argv n"
proof -
  obtain inc ag n where ag: "agent_event example_env (example_host [] 0) 4 (example_raw 1 []) small_agent = Some (inc, ag)"
    and n: "graph_get (ag_graph ag) (ev_key (event_from_raw (example_raw 1 []))) = Some n"
    using example_agent_event by blast
  have "agent_step\<^sup>*\<^sup>* small_agent ag" using step_event [OF example_fork_ok ag] by blast
  then show ?thesis using agent_holds_no_secret [OF _ n] n unfolding small_agent_def by blast
qed



section \<open>Replaying what was recorded\<close>

definition same_view :: "agent \<Rightarrow> agent \<Rightarrow> bool" where
  "same_view a b \<longleftrightarrow> ag_graph a = ag_graph b \<and> ag_engine a = ag_engine b \<and> ag_last_reap a = ag_last_reap b"

lemma agent_apply_view:
  assumes "same_view a b" and "agent_apply env ev a = Some (inc, a')"
  shows "\<exists>b'. agent_apply env ev b = Some (inc, b') \<and> same_view a' b' \<and> ag_trusted a' = ag_trusted a"
  using assms
  by (auto simp: agent_apply_def same_view_def maybe_reap_def agent_reap_def Let_def case_prod_beta split: if_splits)

lemma recorded_event_loads:
  assumes "resolve_trust fs (event_from_raw raw) tb = (ev, tb')"
  shows "de_redacted_argv ev = ev"
proof -
  have "ev_argv ev = ev_argv (event_from_raw raw)"
    using assms by (auto simp: resolve_trust_def split: option.splits prod.splits if_splits)
  then have "Redact.argv (ev_argv ev) = ev_argv ev" by (simp add: event_from_raw_def)
  then show ?thesis by (simp add: de_redacted_argv_def)
qed

lemma replay_of_record:
  assumes "live_go env self_pid rs a = Some (incs, a')" and "same_view a b"
  shows "\<exists>b'. replay_go env (map (\<lambda>e. Some (de_redacted_argv e)) (record_go self_pid rs (ag_trusted a))) (n, bad) b
      = Some (incs, (n + length (record_go self_pid rs (ag_trusted a)), bad), b') \<and> same_view a' b'"
  using assms
proof (induction rs arbitrary: a b incs n)
  case (Cons r rs)
  obtain fs raw where r: "r = (fs, raw)" by fastforce
  show ?case
  proof (cases "r_tgid raw = self_pid")
    case True
    then have "live_go env self_pid rs a = Some (incs, a')" using Cons.prems r by (auto simp: agent_event_def)
    then show ?thesis using Cons.IH [of a incs b n] Cons.prems r True by (simp add: record_event_def)
  next
    case False
    obtain ev tb where rt: "resolve_trust fs (event_from_raw raw) (ag_trusted a) = (ev, tb)" by fastforce
    let ?a = "a\<lparr>ag_canary := canary_observe (r_tgid raw) (ag_canary a), ag_trusted := tb\<rparr>"
    obtain inc a1 incs1 where a1: "agent_apply env ev ?a = Some (inc, a1)" "live_go env self_pid rs a1 = Some (incs1, a')"
      and incs: "incs = (case inc of None \<Rightarrow> incs1 | Some i \<Rightarrow> i # incs1)"
      using Cons.prems(1) r False rt by (auto simp: agent_event_def Let_def split: option.splits)
    have "same_view ?a b" using Cons.prems(2) by (simp add: same_view_def)
    from agent_apply_view [OF this a1(1)] obtain b1 where b1: "agent_apply env ev b = Some (inc, b1)" "same_view a1 b1"
      and tb: "ag_trusted a1 = tb" by auto
    from Cons.IH [OF a1(2) b1(2), of "Suc n"] obtain b' where
      b': "replay_go env (map (\<lambda>e. Some (de_redacted_argv e)) (record_go self_pid rs tb)) (Suc n, bad) b1
        = Some (incs1, (Suc n + length (record_go self_pid rs tb), bad), b')" "same_view a' b'" using tb by auto
    then show ?thesis using r False rt b1 incs recorded_event_loads [OF rt] by (simp add: record_event_def)
  qed
qed simp

end
