(* ===== verification/Session.thy ===== *)
theory Session
  imports Report
begin

text \<open>
  Stateless session tokens (\<^verbatim>\<open>src/src/server/session.rs\<close>), with the hexadecimal encoding and the
  constant-time comparison the server shares. HMAC-SHA256 is a library's: it is the parameter \<open>hmac\<close>
  (secret, data). Slicing a string inside a character panics, which is the outcome \<open>Panic\<close>.
\<close>

section \<open>Model\<close>

datatype 'a outcome = Panic | Ret 'a

fun bind_outcome :: "'a outcome \<Rightarrow> ('a \<Rightarrow> 'b outcome) \<Rightarrow> 'b outcome" where
  "bind_outcome Panic f = Panic"
| "bind_outcome (Ret x) f = f x"

definition hex_char :: "nat \<Rightarrow> char" where
  "hex_char d = (if d < 10 then char_of (48 + d) else char_of (87 + d))"

definition hex :: "u8 list \<Rightarrow> string" where
  "hex bs = concat (map (\<lambda>b. [hex_char (unat b div 16), hex_char (unat b mod 16)]) bs)"

definition hex_digit :: "char \<Rightarrow> nat option" where
  "hex_digit c =
     (let n = of_char c :: nat
      in if 48 \<le> n \<and> n \<le> 57 then Some (n - 48)
         else if 97 \<le> n \<and> n \<le> 102 then Some (n - 87)
         else if 65 \<le> n \<and> n \<le> 70 then Some (n - 55) else None)"

text \<open>\<^verbatim>\<open>u8::from_str_radix(_, 16)\<close>: a leading plus sign is accepted, and an empty or overlong number is not.\<close>

fun hex_val :: "nat \<Rightarrow> string \<Rightarrow> nat option" where
  "hex_val acc [] = Some acc"
| "hex_val acc (c # cs) = (case hex_digit c of None \<Rightarrow> None | Some d \<Rightarrow> hex_val (16 * acc + d) cs)"

definition from_hex :: "string \<Rightarrow> u8 option" where
  "from_hex s =
     (let ds = (case s of [] \<Rightarrow> [] | c # cs \<Rightarrow> if c = CHR ''+'' \<and> cs \<noteq> [] then cs else s)
      in if ds = [] then None
         else case hex_val 0 ds of None \<Rightarrow> None | Some v \<Rightarrow> if v < 256 then Some (of_nat v) else None)"

fun unhex_pairs :: "string \<Rightarrow> nat list \<Rightarrow> u8 list option outcome" where
  "unhex_pairs s [] = Ret (Some [])"
| "unhex_pairs s (i # is) =
     (case get_range i (i + 2) s of
        None \<Rightarrow> Panic
      | Some p \<Rightarrow>
          (case from_hex p of None \<Rightarrow> Ret None
           | Some b \<Rightarrow> bind_outcome (unhex_pairs s is) (\<lambda>r. Ret (map_option (\<lambda>bs. b # bs) r))))"

definition unhex :: "string \<Rightarrow> u8 list option outcome" where
  "unhex s = (if length s mod 2 \<noteq> 0 then Ret None else unhex_pairs s (map (\<lambda>k. 2 * k) [0..<length s div 2]))"

definition ct_eq :: "string \<Rightarrow> string \<Rightarrow> bool" where
  "ct_eq a b =
     (if length a \<noteq> length b then False
      else fold (\<lambda>(x, y) d. or d (xor (of_char x) (of_char y))) (zip a b) (0 :: u8) = 0)"

type_synonym mac = "u8 list \<Rightarrow> u8 list \<Rightarrow> u8 list"

definition sign :: "mac \<Rightarrow> u8 list \<Rightarrow> u8 list \<Rightarrow> string" where
  "sign hmac secret data = hex (hmac secret data)"

definition bytes_of :: "string \<Rightarrow> u8 list" where
  "bytes_of s = map of_char s"

definition payload_of :: "string \<Rightarrow> string \<Rightarrow> u64 \<Rightarrow> string" where
  "payload_of username role e = username @ ''|'' @ role @ ''|'' @ show_word e"

definition issue :: "mac \<Rightarrow> u64 \<Rightarrow> u8 list \<Rightarrow> string \<Rightarrow> string \<Rightarrow> u64 \<Rightarrow> string" where
  "issue hmac now secret username role ttl_secs =
     (let payload = bytes_of (payload_of username role (now + ttl_secs))
      in hex payload @ ''.'' @ sign hmac secret payload)"

definition validate :: "mac \<Rightarrow> u64 \<Rightarrow> u8 list \<Rightarrow> string \<Rightarrow> (string \<times> string) option outcome" where
  "validate hmac now secret token =
     (case split_once (CHR ''.'') token of None \<Rightarrow> Ret None
      | Some (payload_hex, sig) \<Rightarrow>
          bind_outcome (unhex payload_hex) (\<lambda>r.
            case r of None \<Rightarrow> Ret None
            | Some payload \<Rightarrow>
                if \<not> ct_eq (sign hmac secret payload) sig then Ret None
                else if \<not> utf8_valid payload then Ret None
                else
                  (case split_on (CHR ''|'') (text_of payload) of
                     [username, role, expiry] \<Rightarrow>
                       (case parse_u64 expiry of None \<Rightarrow> Ret None
                        | Some e \<Rightarrow> if now \<ge> e then Ret None else Ret (Some (username, role)))
                   | _ \<Rightarrow> Ret None)))"

section \<open>Hexadecimal\<close>

lemma hex_digit_char: "d < 16 \<Longrightarrow> hex_digit (hex_char d) = Some d"
  by (auto simp: hex_digit_def hex_char_def Let_def)

lemma of_hex_char: "d < 16 \<Longrightarrow> (of_char (hex_char d) :: nat) = (if d < 10 then 48 + d else 87 + d)"
  by (simp add: hex_char_def)

lemma hex_char_plain: "d < 16 \<Longrightarrow> hex_char d \<noteq> CHR ''+'' \<and> hex_char d \<noteq> CHR ''.'' \<and> \<not> is_cont (of_char (hex_char d))"
  using of_hex_char [of d] plain_not_cont [of "hex_char d"] by (auto simp: plain_char_def split: if_splits)

lemma length_hex [simp]: "length (hex bs) = 2 * length bs"
  by (induction bs) (simp_all add: hex_def)

lemma hex_nth: "k < length bs \<Longrightarrow> take 2 (drop (2 * k) (hex bs)) = [hex_char (unat (bs ! k) div 16), hex_char (unat (bs ! k) mod 16)]"
proof (induction bs arbitrary: k)
  case (Cons b bs)
  have "hex (b # bs) = hex_char (unat b div 16) # hex_char (unat b mod 16) # hex bs" by (simp add: hex_def)
  then show ?case using Cons by (cases k) simp_all
qed simp

lemma byte_nibbles: "unat (b :: u8) div 16 < 16" "unat b mod 16 < 16"
  using unsigned_less [of b, where 'a = nat] by simp_all

lemma hex_set: "c \<in> set (hex bs) \<Longrightarrow> \<exists>d < 16. c = hex_char d"
  by (auto simp: hex_def intro: byte_nibbles)

lemma from_hex_pair: "from_hex [hex_char (unat (b :: u8) div 16), hex_char (unat b mod 16)] = Some b"
  using hex_digit_char [OF byte_nibbles(1) [of b]] hex_digit_char [OF byte_nibbles(2) [of b]]
    hex_char_plain [OF byte_nibbles(1) [of b]] unsigned_less [of b, where 'a = nat]
  by (simp add: from_hex_def Let_def mult.commute)

lemma hex_boundary: "i \<le> length (hex bs) \<Longrightarrow> is_char_boundary i (hex bs)"
  using hex_set [of "hex bs ! i" bs] hex_char_plain by (fastforce simp: is_char_boundary_def)

lemma unhex_hex: "unhex (hex bs) = Ret (Some bs)"
proof -
  have "k + n \<le> length bs \<Longrightarrow> unhex_pairs (hex bs) (map (\<lambda>k. 2 * k) [k..<k + n]) = Ret (Some (take n (drop k bs)))" for k n
  proof (induction n arbitrary: k)
    case (Suc n)
    have r: "get_range (2 * k) (2 * k + 2) (hex bs)
        = Some [hex_char (unat (bs ! k) div 16), hex_char (unat (bs ! k) mod 16)]"
      using Suc.prems hex_boundary [of "2 * k" bs] hex_boundary [of "2 * k + 2" bs] hex_nth [of k bs]
      by (simp add: get_range_def)
    have u: "[k..<k + Suc n] = k # [Suc k..<Suc k + n]" by (simp add: upt_rec)
    show ?case unfolding u using r from_hex_pair Suc.IH [of "Suc k"] Suc.prems
      by (simp add: take_Suc_conv_app_nth Cons_nth_drop_Suc [symmetric])
  qed simp
  from this [of 0 "length bs"] show ?thesis by (simp add: unhex_def)
qed

section \<open>Comparison\<close>

lemma of_char_u8_inject: "(of_char a :: u8) = of_char b \<longleftrightarrow> a = b"
proof
  assume "(of_char a :: u8) = of_char b"
  then have "unat (of_nat (of_char a) :: u8) = unat (of_nat (of_char b) :: u8)" by (simp add: of_nat_of_char)
  then have "(of_char a :: nat) = of_char b" by (simp add: unat_of_nat)
  then show "a = b" by simp
qed simp

lemma or_eq_0: "or a b = 0 \<longleftrightarrow> a = 0 \<and> b = (0 :: 'a::len word)"
  by (auto simp: bit_eq_iff bit_or_iff)

lemma xor_eq_0: "xor a b = 0 \<longleftrightarrow> a = (b :: 'a::len word)"
  by (auto simp: bit_eq_iff bit_xor_iff)

lemma ct_eq_fold:
  "fold (\<lambda>(x, y) d. or d (xor (of_char x) (of_char y))) xs d = (0 :: u8) \<longleftrightarrow> d = 0 \<and> (\<forall>(x, y) \<in> set xs. x = y)"
  by (induction xs arbitrary: d) (auto simp: or_eq_0 xor_eq_0 of_char_u8_inject)

lemma ct_eq_iff: "ct_eq a b \<longleftrightarrow> a = b"
proof (cases "length a = length b")
  case True
  then have "(\<forall>(x, y) \<in> set (zip a b). x = y) \<longleftrightarrow> a = b"
    by (auto simp: set_zip list_eq_iff_nth_eq)
  then show ?thesis using True by (simp add: ct_eq_def ct_eq_fold)
qed (auto simp: ct_eq_def)

lemma text_of_bytes [simp]: "text_of (bytes_of s) = s"
proof -
  have "char_of (unat (of_char c :: u8)) = c" for c
  proof -
    have "unat (of_char c :: u8) = of_char c" using unat_of_nat [of "of_char c", where 'a = 8] by (simp add: of_nat_of_char)
    then show ?thesis by simp
  qed
  then show ?thesis by (simp add: text_of_def bytes_of_def comp_def)
qed

section \<open>Tokens\<close>

lemma join_split_on: "join [c] (split_on c s) = s"
proof (induction s)
  case (Cons a s)
  obtain w ws where w: "split_on c s = w # ws" by (meson neq_Nil_conv split_on_nonempty)
  then show ?case using Cons by (cases ws) auto
qed simp

lemma ascii_text: "list_all (\<lambda>c. (of_char c :: nat) < 128) s \<Longrightarrow> text_ok s"
proof (induction s)
  case (Cons c s)
  have "unat (of_char c :: u8) = of_char c" using unat_of_nat [of "of_char c", where 'a = 8] by (simp add: of_nat_of_char)
  then have "(of_char c :: u8) < 0x80" using Cons.prems by (simp add: word_less_nat_alt)
  then show ?case using Cons by (simp add: text_ok_def utf8_width_def word_less_nat_alt)
qed (simp add: text_ok_def)

lemma split_on_three: "split_on c s = [u, r, x] \<Longrightarrow> s = u @ [c] @ r @ [c] @ x \<and> c \<notin> set u \<union> set r \<union> set x"
proof -
  assume a: "split_on c s = [u, r, x]"
  have "c \<notin> set u \<union> set r \<union> set x" using split_on_pieces [of _ c s] a by auto
  moreover have "join [c] (split_on c s) = s" by (rule join_split_on)
  ultimately show ?thesis using a by simp
qed

lemma validate_Ret:
  assumes "validate hmac now secret token = Ret (Some (u, r))"
  obtains ph payload x e where "split_once (CHR ''.'') token = Some (ph, sign hmac secret payload)" "unhex ph = Ret (Some payload)"
    "text_of payload = u @ ''|'' @ r @ ''|'' @ x" "CHR ''|'' \<notin> set u \<union> set r \<union> set x" "parse_u64 x = Some e" "now < e"
proof -
  obtain ph sig where sp: "split_once (CHR ''.'') token = Some (ph, sig)"
    using assms by (auto simp: validate_def split: option.splits)
  obtain payload where un: "unhex ph = Ret (Some payload)"
    using assms by (cases "unhex ph") (auto simp: validate_def sp split: option.splits)
  have sg: "sign hmac secret payload = sig"
    using assms by (auto simp: validate_def sp un ct_eq_iff split: if_splits)
  obtain x e where x: "split_on (CHR ''|'') (text_of payload) = [u, r, x]" "parse_u64 x = Some e" "now < e"
    using assms by (auto simp: validate_def sp un split: if_splits list.splits option.splits)
  show ?thesis
    using that [of ph payload x e] un sg x split_on_three [OF x(1)] sp by simp
qed

text \<open>
  A login lasts exactly as long as it should. A token issued for any user and role whose names do not
  contain the separator is accepted as that user and role until its expiry and refused from then on.
\<close>

lemma token_lifetime:
  assumes sep: "CHR ''|'' \<notin> set u \<union> set r" and tx: "text_ok u" "text_ok r" and exp: "unat now + unat ttl < 2 ^ 64"
  shows "validate hmac now' secret (issue hmac now secret u r ttl)
    = Ret (if unat now' < unat now + unat ttl then Some (u, r) else None)"
proof -
  let ?p = "payload_of u r (now + ttl)"
  have "c \<noteq> CHR ''|''" if "c \<in> set (show_word (now + ttl))" for c
    using show_nat_digits [of c] that by (auto simp: show_word_def is_ascii_digit_def)
  then have x: "CHR ''|'' \<notin> set (show_word (now + ttl))" by blast
  have sp: "split_on (CHR ''|'') ?p = [u, r, show_word (now + ttl)]"
    using sep x by (simp add: payload_of_def split_on_append split_on_no_sep)
  have "text_ok (show_word (now + ttl))"
    using show_nat_digits [of _ "unat (now + ttl)"] by (intro ascii_text) (fastforce simp: list_all_iff show_word_def is_ascii_digit_def Let_def)
  moreover have "text_ok ''|''" by (simp add: ascii_text)
  ultimately have "text_ok ?p" unfolding payload_of_def by (intro text_ok_append tx)
  then have ok: "utf8_valid (bytes_of ?p)" by (simp add: text_ok_def bytes_of_def)
  have dot: "CHR ''.'' \<notin> set (hex (bytes_of ?p))" using hex_set hex_char_plain by metis
  have e: "unat (now + ttl) = unat now + unat ttl" using exp unat_add_lem [of now ttl] by simp
  show ?thesis using dot sp ok
    by (simp add: validate_def issue_def Let_def split_once_Some [THEN iffD2] unhex_hex ct_eq_iff parse_u64_show_word
        word_le_nat_alt e)
qed

text \<open>
  C19 (safety): A token says what the server said. If signatures cannot be forged, that is if the presented signature
  fits only payloads the server signed, then whoever is accepted is a user to whom the server issued a
  token, in the role it was issued for and before it expired. A user name that contains the separator
  cannot turn itself into another role.
\<close>

theorem session_sound:
  assumes "validate hmac now secret token = Ret (Some (u, r))"
    and "\<And>ph sig p. split_once (CHR ''.'') token = Some (ph, sig) \<Longrightarrow> unhex ph = Ret (Some p) \<Longrightarrow> sign hmac secret p = sig \<Longrightarrow>
      \<exists>(u, r, e) \<in> issued. p = bytes_of (payload_of u r e)"
  shows "\<exists>e. (u, r, e) \<in> issued \<and> now < e"
proof (rule validate_Ret [OF assms(1)])
  fix ph payload x e
  assume tok: "split_once (CHR ''.'') token = Some (ph, sign hmac secret payload)" and un: "unhex ph = Ret (Some payload)"
    and tx: "text_of payload = u @ ''|'' @ r @ ''|'' @ x" and sep: "CHR ''|'' \<notin> set u \<union> set r \<union> set x"
    and x: "parse_u64 x = Some e" and now: "now < e"
  obtain u0 r0 e0 where i: "(u0, r0, e0) \<in> issued" "payload = bytes_of (payload_of u0 r0 e0)"
    using assms(2) [OF tok un refl] by auto
  have eq: "payload_of u0 r0 e0 = u @ ''|'' @ r @ ''|'' @ x" using tx i(2) by simp
  have sp3: "split_on (CHR ''|'') (u @ ''|'' @ r @ ''|'' @ x) = [u, r, x]"
    using sep by (simp add: split_on_append split_on_no_sep)
  then have "length (split_on (CHR ''|'') (payload_of u0 r0 e0)) = 3" by (simp add: eq)
  then have "CHR ''|'' \<notin> set u0 \<union> set r0 \<union> set (show_word e0)"
    by (auto simp: length_split_on payload_of_def count_list_append count_list_0_iff)
  then have "split_on (CHR ''|'') (payload_of u0 r0 e0) = [u0, r0, show_word e0]"
    by (simp add: payload_of_def split_on_append split_on_no_sep)
  then have "u = u0" "r = r0" "x = show_word e0" using eq sp3 by simp_all
  then show ?thesis using i(1) x now by (auto simp: parse_u64_show_word)
qed

text \<open>A stand-in for the authentication code in the examples.\<close>

definition toy_mac :: mac where
  "toy_mac secret data = [of_nat (length data), fold (+) data (fold (+) secret 0)]"

theorem session_sound_witness:
  "\<exists>e. (''ann'', ''viewer'', e) \<in> {(''ann'', ''viewer'', 3604), (''b|admin|9'', ''viewer'', 3605)} \<and> (5 :: u64) < e"
proof -
  have t: "text_ok ''ann''" "text_ok ''viewer''" by (simp_all add: ascii_text)
  let ?tok = "issue toy_mac 4 [1, 2] ''ann'' ''viewer'' 3600"
  have v: "validate toy_mac 5 [1, 2] ?tok = Ret (Some (''ann'', ''viewer''))"
    using token_lifetime [OF _ t, of 4 3600] by simp
  have un: "p = bytes_of (payload_of ''ann'' ''viewer'' 3604)"
    if "split_once (CHR ''.'') ?tok = Some (ph, sig)" "unhex ph = Ret (Some p)" for ph sig p
  proof -
    have dot: "CHR ''.'' \<notin> set (hex q)" for q using hex_set hex_char_plain by metis
    have "split_once (CHR ''.'') ?tok = Some (hex (bytes_of (payload_of ''ann'' ''viewer'' 3604)),
        sign toy_mac [1, 2] (bytes_of (payload_of ''ann'' ''viewer'' 3604)))"
      using dot by (simp add: issue_def split_once_Some Let_def)
    then show ?thesis using that by (simp add: unhex_hex)
  qed
  show ?thesis by (rule session_sound [OF v]) (auto dest: un)
qed

end
