(* ===== verification/Notify.thy ===== *)
theory Notify
  imports Session
begin

text \<open>
  Alert delivery (\<^verbatim>\<open>src/src/notify.rs\<close>) and the requests of the HTTP client it uses
  (\<^verbatim>\<open>src/src/http.rs\<close>). Sockets and TLS are not modelled: a delivery is the text that is handed to
  them. The dispatcher's two clock readings per alert are the instants \<open>t\<close> and \<open>t'\<close>, in nanoseconds.
\<close>

section \<open>Model\<close>

definition severity_rank :: "string \<Rightarrow> u8" where
  "severity_rank s =
     (if s = ''CRITICAL'' then 4 else if s = ''HIGH'' then 3 else if s = ''MEDIUM'' then 2
      else if s = ''LOW'' then 1 else 0)"

definition ascii_upper :: "char \<Rightarrow> char" where
  "ascii_upper c = (let n = of_char c :: nat in if 97 \<le> n \<and> n \<le> 122 then char_of (n - 32) else c)"

definition parse_min_severity :: "string \<Rightarrow> string option" where
  "parse_min_severity s =
     (let up = map ascii_upper s
      in if up \<in> set [''INFO'', ''LOW'', ''MEDIUM'', ''HIGH'', ''CRITICAL''] then Some up else None)"

record alert =
  al_host :: string
  al_severity :: string
  al_score :: u32
  al_subject :: string
  al_cmdline :: string
  al_attack :: "string list"

definition EM_DASH :: string where
  \<comment> \<open>U+2014 in UTF-8\<close>
  "EM_DASH = map char_of [0xE2, 0x80, 0x94 :: nat]"

definition summary :: "alert \<Rightarrow> string" where
  "summary a =
     al_severity a @ '' '' @ show_word (al_score a) @ ''/100 on '' @ al_host a @ '' '' @ EM_DASH @ '' '' @ al_subject a
     @ (if al_cmdline a \<noteq> [] then '': '' @ al_cmdline a else [])
     @ (if al_attack a \<noteq> [] then '' ['' @ join '', '' (al_attack a) @ '']'' else [])"

definition syslog_priority :: "alert \<Rightarrow> u8" where
  "syslog_priority a =
     4 * 8 + (if al_severity a = ''CRITICAL'' then 2 else if al_severity a = ''HIGH'' then 3
              else if al_severity a = ''MEDIUM'' then 4 else 5)"

definition syslog_message :: "alert \<Rightarrow> string" where
  "syslog_message a = ''<'' @ show_word (syslog_priority a) @ ''>kernelsentinel: '' @ summary a"

subsection \<open>The queue\<close>

definition QUEUE :: nat where "QUEUE = 1024"

text \<open>What is queued and what is dropped with a log line; the dispatcher is alive.\<close>

definition notify :: "u8 \<Rightarrow> alert \<Rightarrow> alert list \<Rightarrow> alert list \<times> alert option" where
  "notify min_rank a queue =
     (if severity_rank (al_severity a) < min_rank then (queue, None)
      else if length queue < QUEUE then (queue @ [a], None)
      else (queue, Some a))"

subsection \<open>The dispatcher\<close>

record dispatcher =
  dp_window_start :: nat
  dp_in_window :: u32
  dp_suppressed :: u32

datatype delivery = Sent alert | Suppressed u32

definition delivered :: "delivery \<Rightarrow> alert" where
  "delivered d =
     (case d of Sent a \<Rightarrow> a
      | Suppressed n \<Rightarrow>
          \<lparr>al_host = ''kernelsentinel'', al_severity = ''MEDIUM'', al_score = 0,
           al_subject = show_word n @ '' further alert(s) suppressed by the rate limit'',
           al_cmdline = [], al_attack = []\<rparr>)"

definition dispatch_start :: "nat \<Rightarrow> dispatcher" where
  "dispatch_start now = \<lparr>dp_window_start = now, dp_in_window = 0, dp_suppressed = 0\<rparr>"

definition dispatch_step :: "u32 \<Rightarrow> nat \<times> nat \<times> alert \<Rightarrow> dispatcher \<Rightarrow> delivery list \<times> dispatcher" where
  "dispatch_step max_per_min = (\<lambda>(t, t', a) d0.
     let over = t - dp_window_start d0 \<ge> 60 * 10 ^ 9;
         note = (if over \<and> dp_suppressed d0 > 0 then [Suppressed (dp_suppressed d0)] else []);
         d = (if over then dispatch_start t' else d0)
     in if max_per_min > 0 \<and> dp_in_window d \<ge> max_per_min
        then (note, d\<lparr>dp_suppressed := dp_suppressed d + 1\<rparr>)
        else (note @ [Sent a], d\<lparr>dp_in_window := dp_in_window d + 1\<rparr>))"

fun dispatch :: "u32 \<Rightarrow> (nat \<times> nat \<times> alert) list \<Rightarrow> dispatcher \<Rightarrow> delivery list \<times> dispatcher" where
  "dispatch m [] d = ([], d)"
| "dispatch m (x # xs) d =
     (case dispatch_step m x d of (out, d') \<Rightarrow> (case dispatch m xs d' of (rest, d'') \<Rightarrow> (out @ rest, d'')))"

subsection \<open>The HTTP client\<close>

datatype scheme = Http | Https

definition split_url :: "string \<Rightarrow> (scheme \<times> string \<times> string) option" where
  "split_url url =
     (case (case strip_prefix ''https://'' url of Some r \<Rightarrow> Some (Https, r, ''443'')
            | None \<Rightarrow> map_option (\<lambda>r. (Http, r, ''80'')) (strip_prefix ''http://'' url)) of
        None \<Rightarrow> None
      | Some (sch, rest, default_port) \<Rightarrow>
          (let (hostport, path) = (case str_find ''/'' rest of Some i \<Rightarrow> (take i rest, drop i rest) | None \<Rightarrow> (rest, ''/''));
               hostport = (if contains '':'' hostport then hostport else hostport @ '':'' @ default_port)
           in Some (sch, hostport, path)))"

definition CRLF :: string where "CRLF = map char_of [13, 10 :: nat]"

definition post_request :: "string \<Rightarrow> string \<Rightarrow> (string \<times> string) list \<Rightarrow> string \<Rightarrow> string \<Rightarrow> string" where
  "post_request path hostport headers content_type body =
     ''POST '' @ path @ '' HTTP/1.1'' @ CRLF @ ''Host: '' @ hostport @ CRLF
     @ concat (map (\<lambda>(k, v). k @ '': '' @ v @ CRLF) headers)
     @ ''Content-Type: '' @ content_type @ CRLF @ ''Content-Length: '' @ show_nat (length body) @ CRLF
     @ ''Connection: close'' @ CRLF @ CRLF @ body"

definition is_ok :: "string \<Rightarrow> bool" where
  "is_ok status =
     (case split_whitespace status of
        _ # c # _ \<Rightarrow> (case parse_unsigned (2 ^ 16) c of None \<Rightarrow> False | Some n \<Rightarrow> 200 \<le> n \<and> n < 300)
      | _ \<Rightarrow> False)"

section \<open>Every alert is accounted for\<close>

definition sent :: "delivery list \<Rightarrow> alert list" where
  "sent ds = concat (map (\<lambda>d. case d of Sent a \<Rightarrow> [a] | Suppressed _ \<Rightarrow> []) ds)"

definition said_suppressed :: "delivery list \<Rightarrow> nat" where
  "said_suppressed ds = sum_list (map (\<lambda>d. case d of Sent _ \<Rightarrow> 0 | Suppressed n \<Rightarrow> unat n) ds)"

lemma delivery_append [simp]:
  "sent (a @ b) = sent a @ sent b" "said_suppressed (a @ b) = said_suppressed a + said_suppressed b"
  "sent [] = []" "said_suppressed [] = 0"
  "sent (Sent x # ds) = x # sent ds" "said_suppressed (Sent x # ds) = said_suppressed ds"
  "sent (Suppressed n # ds) = sent ds" "said_suppressed (Suppressed n # ds) = unat n + said_suppressed ds"
  by (simp_all add: sent_def said_suppressed_def)

lemma unat_suc: "unat (w :: u32) < n \<Longrightarrow> n \<le> 2 ^ 32 - 1 \<Longrightarrow> unat (w + 1) = Suc (unat w)"
  using unat_add_lem [of w 1] by simp

lemma step_accounts:
  assumes "dispatch_step m (t, t', a) d = (out, d')" and "unat (dp_suppressed d) < 2 ^ 32 - 1"
  shows "length (sent out) + said_suppressed out + unat (dp_suppressed d') = Suc (unat (dp_suppressed d))
    \<and> (sent out = [] \<or> sent out = [a]) \<and> unat (dp_suppressed d') \<le> Suc (unat (dp_suppressed d))"
  using assms unat_suc [of "dp_suppressed d" "2 ^ 32 - 1"]
  by (auto simp: dispatch_step_def dispatch_start_def Let_def word_greater_zero_iff split: if_splits)

lemma dispatch_accounts:
  assumes "dispatch m xs d = (out, d')" and "unat (dp_suppressed d) + length xs < 2 ^ 32"
  shows "length (sent out) + said_suppressed out + unat (dp_suppressed d') = length xs + unat (dp_suppressed d)
    \<and> subseq (sent out) (map (\<lambda>(_, _, a). a) xs)"
  using assms
proof (induction xs arbitrary: d out)
  case (Cons x xs)
  obtain t t' a where x: "x = (t, t', a)" by (cases x) auto
  obtain o1 d1 where s: "dispatch_step m x d = (o1, d1)" by fastforce
  obtain o2 where r: "dispatch m xs d1 = (o2, d')" "out = o1 @ o2"
    using Cons.prems(1) by (auto simp: s split: prod.splits)
  have sa: "length (sent o1) + said_suppressed o1 + unat (dp_suppressed d1) = Suc (unat (dp_suppressed d))
    \<and> (sent o1 = [] \<or> sent o1 = [a]) \<and> unat (dp_suppressed d1) \<le> Suc (unat (dp_suppressed d))"
    by (rule step_accounts [OF s [unfolded x]]) (use Cons.prems(2) in simp)
  moreover have "length (sent o2) + said_suppressed o2 + unat (dp_suppressed d') = length xs + unat (dp_suppressed d1)
    \<and> subseq (sent o2) (map (\<lambda>(_, _, a). a) xs)"
    using Cons.IH [OF r(1)] sa Cons.prems(2) by simp
  ultimately show ?case using r(2) by (auto simp: x)
qed simp

lemma window_capped:
  assumes "dispatch m xs d = (out, d')" and "0 < m" and "dp_in_window d \<le> m"
    and "list_all (\<lambda>(t, _). t < dp_window_start d + 60 * 10 ^ 9) xs"
  shows "length (sent out) + unat (dp_in_window d) \<le> unat m"
  using assms
proof (induction xs arbitrary: d out)
  case (Cons x xs)
  obtain t t' a where x: "x = (t, t', a)" by (cases x) auto
  obtain o1 d1 where s: "dispatch_step m x d = (o1, d1)" by fastforce
  obtain o2 where r: "dispatch m xs d1 = (o2, d')" "out = o1 @ o2"
    using Cons.prems(1) by (auto simp: s split: prod.splits)
  have early: "\<not> 60 * 10 ^ 9 \<le> t - dp_window_start d" using Cons.prems(4) by (auto simp: x)
  show ?case
  proof (cases "m \<le> dp_in_window d")
    case True
    then have "d1 = d\<lparr>dp_suppressed := dp_suppressed d + 1\<rparr>" "o1 = []"
      using s early Cons.prems(2) by (auto simp: dispatch_step_def x Let_def)
    then show ?thesis using Cons.IH [OF r(1)] Cons.prems(2-4) r(2) by simp
  next
    case False
    then have d1: "d1 = d\<lparr>dp_in_window := dp_in_window d + 1\<rparr>" "o1 = [Sent a]"
      using s early by (auto simp: dispatch_step_def x Let_def)
    have lt: "unat (dp_in_window d) < unat m" using False by (simp add: word_le_nat_alt)
    have "unat m < 2 ^ 32" using unsigned_less [of m, where 'a = nat] by simp
    then have suc: "unat (dp_in_window d + 1) = Suc (unat (dp_in_window d))"
      using lt unat_add_lem [of "dp_in_window d" 1] by simp
    then have "dp_in_window d1 \<le> m" using lt d1 by (simp add: word_le_nat_alt)
    then show ?thesis using Cons.IH [OF r(1)] Cons.prems(2,4) r(2) d1 suc by simp
  qed
qed (simp add: word_le_nat_alt)

text \<open>
  C26 (invariant): An incident storm is not an alert storm, and nothing is lost silently by the limiter. Over any sequence
  of alerts, those sent come out in order, and together with the suppressed ones that have been reported
  and the count still held they are exactly the alerts that came in; within the first minute no more than the
  configured number is sent.
\<close>

theorem alerts_accounted:
  assumes "dispatch m xs (dispatch_start t0) = (out, d)" and "length xs < 2 ^ 32"
  shows "length (sent out) + said_suppressed out + unat (dp_suppressed d) = length xs
    \<and> subseq (sent out) (map (\<lambda>(_, _, a). a) xs)
    \<and> (0 < m \<and> list_all (\<lambda>(t, _). t < t0 + 60 * 10 ^ 9) xs \<longrightarrow> length (sent out) \<le> unat m)"
proof -
  have "unat (dp_suppressed (dispatch_start t0)) + length xs < 2 ^ 32" using assms(2) by (simp add: dispatch_start_def)
  note acc = dispatch_accounts [OF assms(1) this]
  show ?thesis using acc window_capped [OF assms(1)] by (simp add: dispatch_start_def)
qed

definition some_alert :: alert where
  "some_alert = \<lparr>al_host = ''h'', al_severity = ''HIGH'', al_score = 80, al_subject = ''sh'', al_cmdline = [], al_attack = []\<rparr>"

theorem alerts_accounted_witness:
  "\<exists>out d. dispatch 1 [(5, 6, some_alert), (7, 8, some_alert), (9, 9, some_alert)] (dispatch_start 1) = (out, d)
     \<and> length (sent out) + said_suppressed out + unat (dp_suppressed d) = 3 \<and> length (sent out) \<le> 1"
proof -
  obtain out d where o: "dispatch 1 [(5, 6, some_alert), (7, 8, some_alert), (9, 9, some_alert)] (dispatch_start 1) = (out, d)"
    by fastforce
  show ?thesis using alerts_accounted [OF o] o by simp
qed

end
