(* ===== verification/Sweep.thy ===== *)
theory Sweep
  imports Notify Report Scan Watchlist
begin

text \<open>
  The sweep (\<^verbatim>\<open>src/sweep\<close>): a point-in-time inventory of a host, compared with what its package manager
  says should be there. The file system is a parameter: what listing, stat, opening, reading a link and
  resolving a path return.
\<close>

section \<open>The file system\<close>

datatype ftype = FSymlink | FDir | FFile | FOther

record meta =
  mt_dev :: u64
  mt_mode :: u32
  mt_uid :: u32
  mt_symlink :: bool

record disk =
  dk_read_dir :: "string \<Rightarrow> (string \<times> ftype option) list option"
  dk_lstat :: "string \<Rightarrow> meta option"
  dk_content :: "string \<Rightarrow> string option"
  dk_read_link :: "string \<Rightarrow> string option"
  dk_canonicalize :: "string \<Rightarrow> string option"
  dk_is_dir :: "string \<Rightarrow> bool"
  dk_exists :: "string \<Rightarrow> bool"
  dk_lage :: "string \<Rightarrow> nat option"
  dk_age :: "string \<Rightarrow> nat option"

text \<open>What the standard library makes of it: text must be UTF-8, lines are read up to the first that is not.\<close>

definition read_to_string :: "disk \<Rightarrow> string \<Rightarrow> string option" where
  "read_to_string d p = (case dk_content d p of None \<Rightarrow> None | Some s \<Rightarrow> if text_ok s then Some s else None)"

definition file_lines :: "string \<Rightarrow> string list" where
  "file_lines s = takeWhile text_ok (lines s)"

definition path_join :: "string \<Rightarrow> string \<Rightarrow> string" where
  "path_join dir name = (if ends_with ''/'' dir then dir @ name else dir @ ''/'' @ name)"

definition file_name :: "string \<Rightarrow> string" where
  "file_name p = last (split_on (CHR ''/'') p)"

definition extension :: "string \<Rightarrow> string option" where
  "extension name =
     (let parts = split_on (CHR ''.'') name
      in if length parts < 2 \<or> (length parts = 2 \<and> hd parts = []) then None else Some (last parts))"

definition display :: "string \<Rightarrow> string" where
  "display p = from_utf8_lossy (map of_char p)"

fun take_chars :: "nat \<Rightarrow> string \<Rightarrow> string" where
  "take_chars n [] = []"
| "take_chars n (c # cs) =
     (if is_cont (of_char c) then c # take_chars n cs
      else if n = 0 then [] else c # take_chars (n - 1) cs)"

section \<open>Package manifests\<close>

record manifest =
  mf_owned :: "string list"
  mf_source :: "string option"

definition dpkg_entry :: "disk \<Rightarrow> string \<times> ftype option \<Rightarrow> string list \<times> bool \<Rightarrow> string list \<times> bool" where
  "dpkg_entry d = (\<lambda>(name, _) (owned, any).
     if extension name \<noteq> Some ''list'' then (owned, any)
     else (case dk_content d (path_join ''/var/lib/dpkg/info'' name) of None \<Rightarrow> (owned, any)
       | Some s \<Rightarrow> (fold (\<lambda>l o'. if l \<noteq> [] then List.insert l o' else o') (file_lines s) owned, True)))"

definition pacman_line :: "string \<Rightarrow> string list \<times> bool \<Rightarrow> string list \<times> bool" where
  "pacman_line line = (\<lambda>(owned, in_files).
     if starts_with ''%'' line then (owned, trim line = ''%FILES%'')
     else if \<not> in_files \<or> line = [] \<or> ends_with ''/'' line then (owned, in_files)
     else (List.insert (''/'' @ line) owned, in_files))"

definition pacman_entry :: "disk \<Rightarrow> string \<times> ftype option \<Rightarrow> string list \<times> bool \<Rightarrow> string list \<times> bool" where
  "pacman_entry d = (\<lambda>(name, _) (owned, any).
     case dk_content d (path_join (path_join ''/var/lib/pacman/local'' name) ''files'') of None \<Rightarrow> (owned, any)
     | Some s \<Rightarrow> (fst (fold pacman_line (file_lines s) (owned, False)), True))"

definition manifest_load :: "disk \<Rightarrow> manifest" where
  "manifest_load d =
     (let (owned, src) = (case dk_read_dir d ''/var/lib/dpkg/info'' of None \<Rightarrow> ([], None)
            | Some es \<Rightarrow> (case fold (dpkg_entry d) es ([], False) of (o', any) \<Rightarrow> (o', if any then Some ''dpkg'' else None)));
          (owned, src) = (if src \<noteq> None then (owned, src)
            else (case dk_read_dir d ''/var/lib/pacman/local'' of None \<Rightarrow> (owned, src)
              | Some es \<Rightarrow> (case fold (pacman_entry d) es (owned, False) of (o', any) \<Rightarrow> (o', if any then Some ''pacman'' else src))))
      in \<lparr>mf_owned = owned, mf_source = src\<rparr>)"

definition knows :: "manifest \<Rightarrow> bool" where
  "knows m \<longleftrightarrow> mf_source m \<noteq> None"

definition manifest_source :: "manifest \<Rightarrow> string" where
  "manifest_source m = (case mf_source m of None \<Rightarrow> ''none'' | Some s \<Rightarrow> s)"

definition owns :: "string \<Rightarrow> manifest \<Rightarrow> bool" where
  "owns p m \<longleftrightarrow> (case to_str p of None \<Rightarrow> False | Some s \<Rightarrow> s \<in> set (mf_owned m))"

section \<open>Walking\<close>

definition SUID_ROOTS :: "string list" where
  "SUID_ROOTS = [''/usr'', ''/opt'', ''/srv'', ''/var'', ''/home'', ''/root'', ''/tmp'']"

definition IMAGE_STORES :: "string list" where
  "IMAGE_STORES = [''/var/lib/docker'', ''/var/lib/containerd'', ''/var/lib/containers'', ''/var/lib/lxc'', ''/var/lib/lxd'',
     ''/var/lib/machines'', ''/var/lib/snapd'', ''/snap'']"

definition is_image_store :: "string \<Rightarrow> bool" where
  "is_image_store path =
     (case to_str path of None \<Rightarrow> False
      | Some p \<Rightarrow> list_ex (\<lambda>s. p = s \<or> starts_with (s @ ''/'') p) IMAGE_STORES \<or> contains ''/.local/share/containers/'' p)"

text \<open>The visitor is a function on a state that the walk threads through.\<close>

function walk_files :: "disk \<Rightarrow> string \<Rightarrow> nat \<Rightarrow> u64 \<Rightarrow> (string \<Rightarrow> meta \<Rightarrow> 's \<Rightarrow> 's) \<Rightarrow> 's \<Rightarrow> 's" where
  "walk_files d dir depth device visit st =
     (if depth > 16 then st
      else (case dk_read_dir d dir of None \<Rightarrow> st
        | Some es \<Rightarrow> fold (\<lambda>(name, ft) st.
            let path = path_join dir name
            in case ft of
                 None \<Rightarrow> st
               | Some FSymlink \<Rightarrow> st
               | Some FDir \<Rightarrow>
                   if is_image_store path then st
                   else if map_option mt_dev (dk_lstat d path) = Some device then walk_files d path (depth + 1) device visit st
                   else st
               | Some FFile \<Rightarrow> (case dk_lstat d path of None \<Rightarrow> st | Some md \<Rightarrow> visit path md st)
               | Some FOther \<Rightarrow> st) es st))"
  by pat_completeness auto
termination by (relation "measure (\<lambda>(_, _, depth, _). 17 - depth)") auto

function list_entries :: "disk \<Rightarrow> string \<Rightarrow> nat \<Rightarrow> string list \<Rightarrow> string list" where
  "list_entries d dir depth out =
     (if depth > 8 then out
      else (case dk_read_dir d dir of None \<Rightarrow> out
        | Some es \<Rightarrow> fold (\<lambda>(name, ft) out.
            let path = path_join dir name
            in case ft of
                 None \<Rightarrow> out
               | Some FSymlink \<Rightarrow> out @ [path]
               | Some FFile \<Rightarrow> out @ [path]
               | Some FDir \<Rightarrow> list_entries d path (depth + 1) out
               | Some FOther \<Rightarrow> out) es out))"
  by pat_completeness auto
termination by (relation "measure (\<lambda>(_, _, depth, _). 9 - depth)") auto

declare walk_files.simps [simp del] list_entries.simps [simp del]

definition list_files :: "disk \<Rightarrow> string \<Rightarrow> string list" where
  "list_files d dir =
     (case dk_lstat d dir of None \<Rightarrow> []
      | Some m \<Rightarrow> walk_files d dir 0 (mt_dev m) (\<lambda>p _ out. out @ [p]) [])"

section \<open>The checks\<close>

datatype finding = Clear string | Notice string "string list" | Suspect string "string list" | Unknown string

definition octal4 :: "u32 \<Rightarrow> string" where
  "octal4 w = (let n = unat w in map digit_char [n div 512 mod 8, n div 64 mod 8, n div 8 mod 8, n mod 8])"

definition visit_suid :: "manifest \<Rightarrow> string \<Rightarrow> meta \<Rightarrow> nat \<times> string list \<Rightarrow> nat \<times> string list" where
  "visit_suid m path md = (\<lambda>(total, unowned).
     if and (mt_mode md) 0xC00 = 0 then (total, unowned)
     else (Suc total, if owns path m then unowned
        else unowned @ [display path @ '' mode '' @ octal4 (and (mt_mode md) 0xFFF) @ '' uid '' @ show_word (mt_uid md)]))"

definition suid :: "disk \<Rightarrow> manifest \<Rightarrow> finding" where
  "suid d m =
     (if \<not> knows m then Unknown ''no package manifests to compare against''
      else
        let (total, unowned) = fold (\<lambda>dir st. case dk_lstat d dir of None \<Rightarrow> st
              | Some md \<Rightarrow> walk_files d dir 0 (mt_dev md) (visit_suid m) st) SUID_ROOTS (0, []);
            skipped = filter (dk_is_dir d) IMAGE_STORES;
            nt = (if skipped = [] then [] else '' (image stores not examined: '' @ join '', '' skipped @ '')'')
        in if unowned = [] then Clear (show_nat total @ '' setuid/setgid files, all package-owned'' @ nt)
           else Suspect (show_nat total @ '' setuid/setgid files, '' @ show_nat (length unowned) @ '' owned by no package'' @ nt) unowned)"

definition PERSISTENCE_DIRS :: "string list" where
  "PERSISTENCE_DIRS = [''/etc/cron.d'', ''/etc/cron.daily'', ''/etc/cron.hourly'', ''/etc/cron.weekly'', ''/etc/cron.monthly'',
     ''/etc/systemd/system'', ''/usr/local/lib/systemd/system'', ''/etc/pam.d'', ''/etc/profile.d'', ''/etc/ld.so.conf.d'',
     ''/etc/update-motd.d'', ''/etc/sudoers.d'', ''/etc/init.d'']"

text \<open>Paths are compared by component: repeated separators and \<^verbatim>\<open>.\<close> do not count.\<close>

definition is_dev_null :: "string \<Rightarrow> bool" where
  "is_dev_null p \<longleftrightarrow> starts_with ''/'' p \<and> filter (\<lambda>c. c \<noteq> [] \<and> c \<noteq> ''.'') (split_on (CHR ''/'') p) = [''dev'', ''null'']"

definition systemd_link_explained :: "string \<Rightarrow> bool \<Rightarrow> bool" where
  "systemd_link_explained tgt target_is_packaged = (if is_dev_null tgt then True else target_is_packaged)"

definition explained_pam :: "disk \<Rightarrow> string \<Rightarrow> bool" where
  "explained_pam d s =
     (if starts_with ''/etc/pam.d/'' s
      then (case strip_prefix ''common-'' (file_name s) of None \<Rightarrow> False | Some stem \<Rightarrow> dk_exists d (''/var/lib/pam/'' @ stem))
      else False)"

definition explained :: "disk \<Rightarrow> string \<Rightarrow> manifest \<Rightarrow> bool" where
  "explained d path m =
     (case to_str path of None \<Rightarrow> False
      | Some s \<Rightarrow>
          if (starts_with ''/etc/systemd/system'' s \<or> starts_with ''/usr/local/lib/systemd/system'' s)
             \<and> (case dk_lstat d path of None \<Rightarrow> False | Some md \<Rightarrow> mt_symlink md)
          then
            let tgt = (case dk_read_link d path of None \<Rightarrow> [] | Some t \<Rightarrow> t);
                packaged = (case dk_canonicalize d path of None \<Rightarrow> False | Some r \<Rightarrow> owns r m)
            in systemd_link_explained tgt packaged
          else explained_pam d s)"

definition age_text :: "string \<Rightarrow> string \<Rightarrow> nat option \<Rightarrow> string" where
  "age_text unit_text missing a = (case a of None \<Rightarrow> missing | Some secs \<Rightarrow> show_nat (secs div 86400) @ unit_text)"

definition persistence :: "disk \<Rightarrow> manifest \<Rightarrow> finding" where
  "persistence d m =
     (if \<not> knows m then Unknown ''no package manifests to compare against''
      else
        let files = concat (map (\<lambda>dir. if dk_is_dir d dir then list_entries d dir 0 [] else []) PERSISTENCE_DIRS);
            total = length files;
            found = map (\<lambda>path. display path @ '' ('' @ age_text ''d old'' ''age unknown'' (dk_lage d path) @ '')'')
              (filter (\<lambda>path. \<not> (owns path m \<or> explained d path m)) files)
        in if found = []
           then Clear (show_nat total @ '' files across '' @ show_nat (length PERSISTENCE_DIRS) @ '' directories, all accounted for'')
           else Notice (show_nat total @ '' files, '' @ show_nat (length found) @ '' not from a package'') found)"

definition is_pid :: "string \<Rightarrow> bool" where
  "is_pid name \<longleftrightarrow> list_all is_ascii_digit name"

definition running_deleted :: "disk \<Rightarrow> string \<Rightarrow> string option" where
  "running_deleted d pid =
     (case dk_read_link d (''/proc/'' @ pid @ ''/exe'') of None \<Rightarrow> None
      | Some t \<Rightarrow>
          let exe = display t
          in if ends_with '' (deleted)'' exe \<or> contains ''memfd:'' exe
             then
               let cmd = take_chars 60 (trim (map (\<lambda>c. if c = CHR 0x00 then CHR '' '' else c)
                     (case read_to_string d (''/proc/'' @ pid @ ''/cmdline'') of None \<Rightarrow> [] | Some s \<Rightarrow> s)))
               in Some (''pid '' @ pid @ '' '' @ exe @ '' ['' @ cmd @ '']'')
             else None)"

definition deleted_executables :: "disk \<Rightarrow> finding" where
  "deleted_executables d =
     (case dk_read_dir d ''/proc'' of None \<Rightarrow> Unknown ''/proc is not readable''
      | Some es \<Rightarrow>
          let pids = filter is_pid (map fst es);
              total = length pids;
              found = List.map_filter (running_deleted d) pids
          in if found = [] then Clear (show_nat total @ '' processes, every executable still on disk'')
             else Suspect (show_nat total @ '' processes, '' @ show_nat (length found) @ '' running a deleted or anonymous executable'') found)"

definition dash_to_underscore :: "string \<Rightarrow> string" where
  "dash_to_underscore s = map (\<lambda>c. if c = CHR ''-'' then CHR ''_'' else c) s"

definition module_stem :: "string \<Rightarrow> string option" where
  "module_stem p = map_option (\<lambda>n. dash_to_underscore (hd (split_on (CHR ''.'') n))) (to_str (file_name p))"

definition module_names :: "string \<Rightarrow> string list" where
  "module_names t = List.map_filter (\<lambda>line. case split_whitespace line of [] \<Rightarrow> None | w # _ \<Rightarrow> Some w) (lines t)"

definition module_base :: "disk \<Rightarrow> string" where
  "module_base d = ''/lib/modules/'' @ trim (case read_to_string d ''/proc/sys/kernel/osrelease'' of None \<Rightarrow> [] | Some s \<Rightarrow> s)"

definition modules :: "disk \<Rightarrow> finding" where
  "modules d =
     (case read_to_string d ''/proc/modules'' of None \<Rightarrow> Unknown ''/proc/modules is not readable''
      | Some t \<Rightarrow>
          let base = module_base d
          in if \<not> dk_is_dir d base then Unknown (base @ '' is absent, so modules cannot be checked'')
             else
               let on_disk = List.map_filter module_stem (list_files d base);
                   names = module_names t;
                   missing = filter (\<lambda>n. dash_to_underscore n \<notin> set on_disk) names
               in if missing = [] then Clear (show_nat (length names) @ '' loaded, every one backed by a file'')
                  else Suspect (show_nat (length names) @ '' loaded, '' @ show_nat (length missing) @ '' with no file under /lib/modules'') missing)"

definition HATCH_DEFAULTS :: "(string \<times> string) list" where
  "HATCH_DEFAULTS = [(''/proc/sys/kernel/modprobe'', ''/sbin/modprobe''), (''/proc/sys/kernel/poweroff_cmd'', ''/sbin/poweroff''),
     (''/proc/sys/kernel/core_pattern'', ''core'')]"

definition hatch_set :: "string \<Rightarrow> string \<Rightarrow> string option" where
  "hatch_set path content =
     (let v = trim content
      in if (path, v) \<in> set HATCH_DEFAULTS then None
         else if v \<noteq> [] \<and> (starts_with ''|'' v \<or> contains ''/'' v) then Some (path @ '' = '' @ v)
         else None)"

definition escape_hatches :: "disk \<Rightarrow> finding" where
  "escape_hatches d =
     (let readable = List.map_filter (\<lambda>path. map_option (Pair path) (read_to_string d path)) ESCAPE_HATCHES;
          checked = length readable;
          found = List.map_filter (\<lambda>(path, content). hatch_set path content) readable
      in if checked = 0 then Unknown ''no escape hatches readable on this kernel''
         else if found = [] then Clear (show_nat checked @ '' checked, none naming a program'')
         else Notice (show_nat checked @ '' checked, '' @ show_nat (length found) @ '' naming a program'') found)"

definition KEY_TYPES :: "string list" where
  "KEY_TYPES = [''ssh-rsa'', ''ssh-dss'', ''ssh-ed25519'', ''ssh-ed25519-cert-v01@openssh.com'', ''sk-ssh-ed25519@openssh.com'',
     ''sk-ecdsa-sha2-nistp256@openssh.com'', ''ecdsa-sha2-nistp256'', ''ecdsa-sha2-nistp384'', ''ecdsa-sha2-nistp521'']"

datatype auth_line = Key string string string | Unparsed string

definition is_key_type :: "string \<Rightarrow> bool" where
  "is_key_type t \<longleftrightarrow> t \<in> set KEY_TYPES \<or> starts_with ''sk-'' t \<or> starts_with ''ecdsa-'' t"

definition parse_key_line :: "string \<Rightarrow> auth_line" where
  "parse_key_line line =
     (let tokens = split_whitespace line; n = length (takeWhile (\<lambda>t. \<not> is_key_type t) tokens)
      in if n = length tokens then Unparsed line
         else if length tokens < n + 2 then Unparsed line
         else Key (if n = 0 then [] else hd tokens) (tokens ! n) (if n + 2 < length tokens then tokens ! (n + 2) else []))"

definition key_file :: "string \<Rightarrow> string \<Rightarrow> string \<Rightarrow> string list \<times> string list" where
  \<comment> \<open>the keys and the odd lines of one file\<close>
  "key_file path age content =
     (let ls = filter (\<lambda>l. \<not> (l = [] \<or> starts_with ''#'' l)) (map trim (lines content))
      in (List.map_filter (\<lambda>l. case parse_key_line l of Unparsed _ \<Rightarrow> None
            | Key opts kind comment \<Rightarrow> Some (display path @ '' '' @ EM_DASH @ '' '' @ kind @ '' ''
                @ (if comment = [] then ''(no comment)'' else comment)
                @ (if opts = [] then [] else '' ['' @ opts @ '']'') @ '' (file '' @ age @ '' old)'')) ls,
          List.map_filter (\<lambda>l. case parse_key_line l of Key _ _ _ \<Rightarrow> None
            | Unparsed raw \<Rightarrow> Some (display path @ '' '' @ EM_DASH @ '' line OpenSSH will ignore: '' @ take_chars 40 raw)) ls))"

definition authorized_keys :: "disk \<Rightarrow> finding" where
  "authorized_keys d =
     (let homes = ''/root'' # (case dk_read_dir d ''/home'' of None \<Rightarrow> [] | Some es \<Rightarrow> map (\<lambda>(n, _). path_join ''/home'' n) es);
          paths = concat (map (\<lambda>h. map (path_join (path_join h ''.ssh'')) [''authorized_keys'', ''authorized_keys2'']) homes);
          found = List.map_filter (\<lambda>p. map_option (key_file p (age_text ''d'' ''?'' (dk_age d p))) (read_to_string d p)) paths;
          files = length found; keys = concat (map fst found); odd = concat (map snd found)
      in if keys @ odd = [] then Clear (show_nat files @ '' authorized_keys files, no keys'')
         else Notice (show_nat (length keys) @ '' keys across '' @ show_nat files @ '' files''
                @ (if odd = [] then [] else '', '' @ show_nat (length odd) @ '' unparseable line(s)'')) (keys @ odd))"

section \<open>The sweep\<close>

definition is_suspect :: "finding \<Rightarrow> bool" where
  "is_suspect f = (case f of Suspect _ _ \<Rightarrow> True | _ \<Rightarrow> False)"

record sweep =
  sw_checks :: "(string \<times> finding) list"
  sw_source :: string
  sw_paths :: nat

definition sweep_run :: "disk \<Rightarrow> sweep" where
  "sweep_run d =
     (let m = manifest_load d
      in \<lparr>sw_checks = [(''setuid binaries'', suid d m), (''persistence'', persistence d m), (''running processes'', deleted_executables d),
            (''kernel modules'', modules d), (''escape hatches'', escape_hatches d), (''ssh authorized keys'', authorized_keys d)],
          sw_source = manifest_source m, sw_paths = length (mf_owned m)\<rparr>)"

definition needs_attention :: "sweep \<Rightarrow> bool" where
  "needs_attention s = list_ex (\<lambda>(_, f). is_suspect f) (sw_checks s)"

definition finding_tag :: "finding \<Rightarrow> string" where
  "finding_tag f = (case f of Clear _ \<Rightarrow> ESC # ''[32m[ ok ]'' | Notice _ _ \<Rightarrow> ESC # ''[33m[note]''
     | Suspect _ _ \<Rightarrow> ESC # ''[31m[ !! ]'' | Unknown _ \<Rightarrow> ESC # ''[33m[ ?? ]'') @ (ESC # ''[0m'')"

definition finding_summary :: "finding \<Rightarrow> string" where
  "finding_summary f = (case f of Clear s \<Rightarrow> s | Unknown s \<Rightarrow> s | Notice s _ \<Rightarrow> s | Suspect s _ \<Rightarrow> s)"

definition finding_items :: "finding \<Rightarrow> string list" where
  "finding_items f = (case f of Notice _ i \<Rightarrow> i | Suspect _ i \<Rightarrow> i | _ \<Rightarrow> [])"

definition render_sweep :: "sweep \<Rightarrow> string" where
  "render_sweep s =
     ''kernelsentinel sweep'' @ nl @ nl
     @ concat (map (\<lambda>(name, f). pad_right 22 name @ '' '' @ finding_tag f @ '' '' @ finding_summary f @ nl
         @ concat (map (\<lambda>item. ''                            '' @ item @ nl) (finding_items f))) (sw_checks s))
     @ nl @ ''compared against '' @ sw_source s @ '' ('' @ show_nat (sw_paths s) @ '' paths)'' @ nl
     @ nl @ ''This reads the kernel it is auditing: a rootkit that hides a module or a'' @ nl
     @ ''process from /proc hides it here too. Nothing found means the artifacts'' @ nl
     @ ''this knows about are absent, not that the host is clean.'' @ nl"

end
