(* ===== verification/Yara.thy ===== *)
theory Yara
  imports Sweep
begin

text \<open>
  Content scanning (\<^verbatim>\<open>src/yara.rs\<close>): which rule files are loaded and what becomes of a target. The rule compiler and the
  pattern matcher are a library and parameters here, as is what opening and reading a file gives.
\<close>

definition MAX_SCAN_BYTES :: nat where "MAX_SCAN_BYTES = 32 * 1024 * 1024"

datatype yara_outcome = Matched "string list" | Clean | Raced string

record 'r scanner =
  yx_rules :: 'r
  yx_count :: nat

text \<open>
  Compiling: the sources are added in path order. An error of the directory, of a file or of the compiler ends it, and
  a directory without rule files is refused.
\<close>

fun load_sources :: "(string \<Rightarrow> string option) \<Rightarrow> (string \<Rightarrow> 'c \<Rightarrow> string + 'c) \<Rightarrow> string list \<Rightarrow> 'c \<Rightarrow> nat \<Rightarrow> string + 'c \<times> nat" where
  "load_sources read add [] c n = Inr (c, n)"
| "load_sources read add (p # ps) c n =
     (case read p of None \<Rightarrow> Inl (''reading '' @ display p)
      | Some src \<Rightarrow> (case add src c of Inl e \<Rightarrow> Inl (''compiling '' @ display p @ '': '' @ e) | Inr c' \<Rightarrow> load_sources read add ps c' (Suc n)))"

definition rule_files :: "string \<Rightarrow> (string \<times> ftype option) list \<Rightarrow> string list" where
  "rule_files dir es = sort (map (path_join dir) (filter (\<lambda>n. extension n = Some ''yar'' \<or> extension n = Some ''yara'') (map fst es)))"

definition scanner_load :: "disk \<Rightarrow> 'c \<Rightarrow> (string \<Rightarrow> 'c \<Rightarrow> string + 'c) \<Rightarrow> ('c \<Rightarrow> 'r) \<Rightarrow> string \<Rightarrow> string + 'r scanner" where
  "scanner_load d new add build dir =
     (case dk_read_dir d dir of None \<Rightarrow> Inl (''reading YARA rules directory '' @ dir)
      | Some es \<Rightarrow>
          (case load_sources (read_to_string d) add (rule_files dir es) new 0 of
             Inl e \<Rightarrow> Inl e
           | Inr (c, n) \<Rightarrow> if n = 0 then Inl (''no .yar/.yara files in '' @ dir) else Inr \<lparr>yx_rules = build c, yx_count = n\<rparr>))"

text \<open>Reading a target: opening may fail with an error, and what is read is capped.\<close>

definition scan_read :: "(string \<Rightarrow> string + u8 list) \<Rightarrow> string \<Rightarrow> string + u8 list" where
  "scan_read open_file path =
     (case open_file path of Inl _ \<Rightarrow> Inl (''opening '' @ path)
      | Inr content \<Rightarrow>
          let buf = take MAX_SCAN_BYTES content
          in if buf = [] then Inl (path @ '' was empty or already gone'') else Inr buf)"

definition scan_path :: "(string \<Rightarrow> string + u8 list) \<Rightarrow> ('r \<Rightarrow> u8 list \<Rightarrow> string + string list) \<Rightarrow> 'r scanner \<Rightarrow> string \<Rightarrow> yara_outcome" where
  "scan_path open_file scan y tgt =
     (case scan_read open_file tgt of Inl e \<Rightarrow> Raced e
      | Inr bytes \<Rightarrow>
          (case scan (yx_rules y) bytes of
             Inr rules \<Rightarrow> if rules = [] then Clean else Matched rules
           | Inl e \<Rightarrow> Raced (''scan failed: '' @ e)))"

section \<open>Enrichment\<close>

lemma enrich_go_targets:
  "map yr_target (enrich_go f seen ss) = filter (\<lambda>t. t \<notin> set seen) (rev (remdups (rev (List.map_filter s_target ss))))"
proof (induction f seen ss rule: enrich_go.induct)
  case (2 f seen s ss)
  have dedup: "rev (remdups (xs @ [x])) = x # filter (\<lambda>t. t \<noteq> x) (rev (remdups xs))" for x :: string and xs
    by (induction xs) auto
  show ?case
  proof (cases "s_target s")
    case (Some t)
    then show ?thesis using 2 by (auto simp: List.map_filter_simps dedup filter_filter intro!: filter_cong)
  qed (use 2 in \<open>simp add: List.map_filter_simps\<close>)
qed (simp add: List.map_filter_simps)

lemma enrich_go_outcome: "r \<in> set (enrich_go f seen ss) \<Longrightarrow> yr_outcome r = f (yr_target r)"
  by (induction f seen ss rule: enrich_go.induct) (auto split: option.splits if_splits)

text \<open>
  Scanning identifies, it does not judge. Enriching a record scans each file a signal named exactly once, in the order
  of first mention, records of each whether it matched, was clean or was gone, and leaves severity, score and signals as they were.
\<close>

theorem enrichment_identifies:
  "map yr_target (ir_yara (enrich (scan_path open_file scan y) inc r))
     = map yr_target (ir_yara r) @ rev (remdups (rev (List.map_filter s_target (inc_signals inc))))
   \<and> map yr_outcome (drop (length (ir_yara r)) (ir_yara (enrich (scan_path open_file scan y) inc r)))
     = map (scan_path open_file scan y) (rev (remdups (rev (List.map_filter s_target (inc_signals inc)))))
   \<and> (enrich (scan_path open_file scan y) inc r)\<lparr>ir_yara := []\<rparr> = r\<lparr>ir_yara := []\<rparr>"
proof -
  let ?f = "scan_path open_file scan y" and ?ss = "inc_signals inc"
  have "map yr_outcome (enrich_go ?f [] ?ss) = map ?f (map yr_target (enrich_go ?f [] ?ss))"
    using enrich_go_outcome by auto
  then show ?thesis using enrich_go_targets [of ?f "[]" ?ss] by (simp add: enrich_def)
qed

end
