(* ===== verification/Doctor.thy ===== *)
theory Doctor
  imports Sweep
begin

text \<open>
  The preflight checks (\<^verbatim>\<open>src/doctor.rs\<close>). The files they read are those of the \<open>disk\<close>; the effective user and the
  memory limit are arguments.
\<close>

datatype status = Ok_s string | Warn string | Fail string

definition render_status :: "status \<Rightarrow> string" where
  "render_status s = (case s of
       Ok_s m \<Rightarrow> ''  '' @ (ESC # ''[32m[ ok ]'') @ (ESC # ''[0m '') @ m
     | Warn m \<Rightarrow> ''  '' @ (ESC # ''[33m[warn]'') @ (ESC # ''[0m '') @ m
     | Fail m \<Rightarrow> ''  '' @ (ESC # ''[31m[fail]'') @ (ESC # ''[0m '') @ m)"

definition fatal :: "(string \<times> status) list \<Rightarrow> bool" where
  "fatal checks = list_ex (\<lambda>(_, s). case s of Fail _ \<Rightarrow> True | _ \<Rightarrow> False) checks"

definition uname_release :: "disk \<Rightarrow> string" where
  "uname_release d = (case read_to_string d ''/proc/sys/kernel/osrelease'' of Some s \<Rightarrow> trim s | None \<Rightarrow> ''unknown'')"

text \<open>\<^verbatim>\<open>split(['.', '-'])\<close>: at either character.\<close>

definition split_version :: "string \<Rightarrow> string list" where
  "split_version s = split_on (CHR ''.'') (map (\<lambda>c. if c = CHR ''-'' then CHR ''.'' else c) s)"

definition parse_version :: "string \<Rightarrow> (u32 \<times> u32) option" where
  "parse_version release =
     (case split_version release of
        a # b # _ \<Rightarrow> (case parse_u32 a of None \<Rightarrow> None | Some maj \<Rightarrow> map_option (Pair maj) (parse_u32 b))
      | _ \<Rightarrow> None)"

definition at_least :: "u32 \<times> u32 \<Rightarrow> u32 \<times> u32 \<Rightarrow> bool" where
  "at_least v w \<longleftrightarrow> fst v > fst w \<or> fst v = fst w \<and> snd v \<ge> snd w"

definition kernel_check :: "disk \<Rightarrow> status" where
  "kernel_check d =
     (let release = uname_release d
      in case parse_version release of
           Some v \<Rightarrow> if at_least v (5, 11) then Ok_s (release @ '' (5.11+, all BPF features present)'')
              else Fail (release @ '' '' @ EM_DASH @ '' kernel 5.11+ required (bpf_get_current_task_btf, used by every program)'')
         | None \<Rightarrow> Warn (release @ '' '' @ EM_DASH @ '' could not parse version''))"

definition btf_check :: "disk \<Rightarrow> status" where
  "btf_check d =
     (if dk_exists d ''/sys/kernel/btf/vmlinux'' then Ok_s ''/sys/kernel/btf/vmlinux present (CO-RE enabled)''
      else Fail (''no kernel BTF '' @ EM_DASH @ '' rebuild with CONFIG_DEBUG_INFO_BTF=y''))"

definition priv_check :: "u32 \<Rightarrow> status" where
  "priv_check euid =
     (if euid = 0 then Ok_s ''running as root'' else Fail (''not root '' @ EM_DASH @ '' need CAP_BPF+CAP_PERFMON (or run with sudo)''))"

definition lsm_has_bpf :: "string \<Rightarrow> bool" where
  "lsm_has_bpf l \<longleftrightarrow> ''bpf'' \<in> set (split_on (CHR '','') (trim l))"

definition bpf_lsm_active :: "disk \<Rightarrow> bool option" where
  "bpf_lsm_active d = map_option lsm_has_bpf (read_to_string d ''/sys/kernel/security/lsm'')"

definition lsm_check :: "disk \<Rightarrow> status" where
  "lsm_check d =
     (case read_to_string d ''/sys/kernel/security/lsm'' of
        Some l \<Rightarrow>
          if lsm_has_bpf l then Ok_s (''bpf LSM active ('' @ trim l @ '')'')
          else Warn (''bpf LSM not active ('' @ trim l @ '') '' @ EM_DASH @ '' the six lsm/ sensors still attach, but their ''
            @ ''hooks are only invoked when `bpf` is in this list, so file, ''
            @ ''credential-theft, fileless-exec and socket detections are very likely ''
            @ ''inert. `scripts/compat-probe.sh` provokes each sensor and reports which ''
            @ ''ones answered; add `bpf` to the lsm= kernel command line to enable them.'')
      | None \<Rightarrow> Warn (''securityfs not mounted '' @ EM_DASH @ '' cannot determine LSM list''))"

definition RLIM_INFINITY :: u64 where "RLIM_INFINITY = - 1"

definition memlock_check :: "u64 \<Rightarrow> status" where
  "memlock_check rlim_cur =
     (if rlim_cur = RLIM_INFINITY then Ok_s ''RLIMIT_MEMLOCK unlimited''
      else Ok_s (''RLIMIT_MEMLOCK '' @ show_word (rlim_cur div 1024) @ '' KiB (kernel 5.11+ uses memcg accounting)''))"

definition trusted_check :: "host_fs \<Rightarrow> status" where
  "trusted_check fs =
     (let t = resolve_host fs; msg = tb_summary t
      in if hm_len (by_id t) = 0 then Warn (msg @ '' -- nothing recognised, so every authentication read will alert'') else Ok_s msg)"

definition doctor_run :: "disk \<Rightarrow> host_fs \<Rightarrow> u32 \<Rightarrow> u64 \<Rightarrow> (string \<times> status) list" where
  "doctor_run d fs euid rlim =
     [(''kernel'', kernel_check d), (''btf'', btf_check d), (''privileges'', priv_check euid), (''bpf lsm'', lsm_check d),
      (''memlock'', memlock_check rlim), (''trusted binaries'', trusted_check fs)]"

definition render_report :: "(string \<times> status) list \<Rightarrow> string" where
  "render_report checks = ''kernelsentinel doctor'' @ nl @ nl
     @ concat (map (\<lambda>(name, s). pad_right 22 name @ '' '' @ render_status s @ nl) checks) @ nl"

text \<open>The first two numbers of a release are its version.\<close>

lemma parse_version_release:
  assumes "a < 2 ^ 32" and "b < 2 ^ 32"
  shows "parse_version (show_nat a @ ''.'' @ show_nat b @ CHR ''.'' # rest) = Some (of_nat a, of_nat b)"
    and "parse_version (show_nat a @ ''.'' @ show_nat b @ CHR ''-'' # rest) = Some (of_nat a, of_nat b)"
proof -
  let ?m = "map (\<lambda>c. if c = CHR ''-'' then CHR ''.'' else c)"
  have d: "CHR ''.'' \<notin> set (show_nat n)" "CHR ''-'' \<notin> set (show_nat n)" for n
    using show_nat_digits [of _ n] by (force simp: is_ascii_digit_def)+
  then have m: "?m (show_nat n) = show_nat n" for n by (induction "show_nat n") (auto intro!: map_idI)
  have "split_version (show_nat a @ ''.'' @ show_nat b @ c # rest) = show_nat a # show_nat b # split_on (CHR ''.'') (?m rest)"
    if "c = CHR ''.'' \<or> c = CHR ''-''" for c
    using that d by (auto simp: split_version_def m split_on_append)
  then show "parse_version (show_nat a @ ''.'' @ show_nat b @ CHR ''.'' # rest) = Some (of_nat a, of_nat b)"
    "parse_version (show_nat a @ ''.'' @ show_nat b @ CHR ''-'' # rest) = Some (of_nat a, of_nat b)"
    using assms by (simp_all add: parse_version_def parse_u32_def parse_unsigned_show_nat del: append_Cons append.simps)
qed

text \<open>
  The preflight is fatal exactly when a start cannot work: a kernel whose version is known to be below 5.11, no type
  information, or no root. A list of security modules or a version that cannot be read is only a warning.
\<close>

theorem doctor_fatal_iff:
  "fatal (doctor_run d fs euid rlim) \<longleftrightarrow>
     (\<exists>v. parse_version (uname_release d) = Some v \<and> \<not> at_least v (5, 11)) \<or> dk_exists d ''/sys/kernel/btf/vmlinux'' = False \<or> 0 < euid"
  by (auto simp: fatal_def doctor_run_def kernel_check_def btf_check_def priv_check_def lsm_check_def memlock_check_def trusted_check_def
      Let_def word_gt_0 split: option.splits if_splits)

end
