(* ===== verification/Wire.thy ===== *)
theory Wire
  imports Report
begin

text \<open>
  The JSON form of what the program writes and reads back: recorded events (\<^verbatim>\<open>src/decoded.rs\<close>), heartbeats
  (\<^verbatim>\<open>src/heartbeat.rs\<close>) and learned baselines (\<^verbatim>\<open>src/detect/baseline.rs\<close>). The mapping between a struct and a JSON
  tree is what the \<^verbatim>\<open>serde\<close> attributes of the source say, field by field; printing and parsing the text of a tree is
  the JSON library and a parameter where it is used.
\<close>

section \<open>JSON values\<close>

datatype json = JNull | JBool bool | JPos u64 | JNeg int | JFloat rat | JStr string | JArr "json list"
  | JObj "(string \<times> json) list"

fun json_get :: "string \<Rightarrow> json \<Rightarrow> json option" where
  "json_get k (JObj kvs) = map_of kvs k"
| "json_get k _ = None"

fun as_str :: "json \<Rightarrow> string option" where
  "as_str (JStr s) = Some s" | "as_str _ = None"

fun as_u64 :: "json \<Rightarrow> u64 option" where
  "as_u64 (JPos n) = Some n" | "as_u64 _ = None"

fun as_bool :: "json \<Rightarrow> bool option" where
  "as_bool (JBool b) = Some b" | "as_bool _ = None"

fun as_array :: "json \<Rightarrow> json list option" where
  "as_array (JArr xs) = Some xs" | "as_array _ = None"

section \<open>Fields\<close>

text \<open>
  A field of a struct: its name, what is written for it (nothing when it is skipped), and how reading it changes the
  struct under construction. The attributes of a field are its default (a field without one is mandatory) and the test
  for being skipped.
\<close>

type_synonym 'r field = "string \<times> ('r \<Rightarrow> json option) \<times> (json option \<Rightarrow> 'r \<Rightarrow> 'r option)"

definition json_field :: "('a \<Rightarrow> json) \<Rightarrow> (json \<Rightarrow> 'a option) \<Rightarrow> 'a option \<Rightarrow> ('a \<Rightarrow> bool)
    \<Rightarrow> string \<Rightarrow> ('r \<Rightarrow> 'a) \<Rightarrow> (('a \<Rightarrow> 'a) \<Rightarrow> 'r \<Rightarrow> 'r) \<Rightarrow> 'r field" where
  "json_field ser de dflt skip n get upd =
     (n, \<lambda>r. if skip (get r) then None else Some (ser (get r)),
      \<lambda>j r. map_option (\<lambda>x. upd (\<lambda>_. x) r) (case j of None \<Rightarrow> dflt | Some v \<Rightarrow> de v))"

definition ser_word :: "'w :: len word \<Rightarrow> json" where
  "ser_word x = JPos (ucast x)"

fun de_word :: "json \<Rightarrow> 'w :: len word option" where
  "de_word (JPos n) = (if unat n < 2 ^ LENGTH('w) then Some (ucast n) else None)"
| "de_word _ = None"

fun de_option :: "(json \<Rightarrow> 'a option) \<Rightarrow> json \<Rightarrow> 'a option option" where
  "de_option de JNull = Some None"
| "de_option de v = map_option Some (de v)"

fun de_all :: "(json \<Rightarrow> 'a option) \<Rightarrow> json list \<Rightarrow> 'a list option" where
  "de_all de [] = Some []"
| "de_all de (x # xs) = (case (de x, de_all de xs) of (Some y, Some ys) \<Rightarrow> Some (y # ys) | _ \<Rightarrow> None)"

definition de_vec :: "(json \<Rightarrow> 'a option) \<Rightarrow> json \<Rightarrow> 'a list option" where
  "de_vec de v = Option.bind (as_array v) (de_all de)"

section \<open>Structs\<close>

text \<open>
  A struct is written as an object with its fields in order. It is read from an object, where unknown names are ignored
  and a known name may not come twice, or from an array no longer than the struct, where the fields are taken by position.
\<close>

definition encode_struct :: "'r field list \<Rightarrow> 'r \<Rightarrow> json" where
  "encode_struct fs r = JObj (List.map_filter (\<lambda>(n, put, _). map_option (Pair n) (put r)) fs)"

fun struct_members :: "string list \<Rightarrow> json \<Rightarrow> (string \<rightharpoonup> json) option" where
  "struct_members names (JObj kvs) = (if distinct (filter (\<lambda>k. k \<in> set names) (map fst kvs)) then Some (map_of kvs) else None)"
| "struct_members names (JArr xs) = (if length xs \<le> length names then Some (map_of (zip names xs)) else None)"
| "struct_members names _ = None"

fun take_fields :: "'r field list \<Rightarrow> (string \<rightharpoonup> json) \<Rightarrow> 'r \<Rightarrow> 'r option" where
  "take_fields [] m r = Some r"
| "take_fields ((n, _, take_field) # fs) m r = Option.bind (take_field (m n) r) (take_fields fs m)"

definition decode_struct :: "'r field list \<Rightarrow> 'r \<Rightarrow> json \<Rightarrow> 'r option" where
  "decode_struct fs r0 v = Option.bind (struct_members (map fst fs) v) (\<lambda>m. take_fields fs m r0)"

section \<open>Events\<close>

text \<open>The five kinds of attributes of \<^verbatim>\<open>Event\<close>, and \<^verbatim>\<open>deserialize_with\<close> for the arguments.\<close>

definition must_num :: "string \<Rightarrow> ('r \<Rightarrow> 'w :: len word) \<Rightarrow> (('w word \<Rightarrow> 'w word) \<Rightarrow> 'r \<Rightarrow> 'r) \<Rightarrow> 'r field" where
  "must_num = json_field ser_word de_word None (\<lambda>_. False)"

definition opt_num :: "string \<Rightarrow> ('r \<Rightarrow> 'w :: len word) \<Rightarrow> (('w word \<Rightarrow> 'w word) \<Rightarrow> 'r \<Rightarrow> 'r) \<Rightarrow> 'r field" where
  "opt_num = json_field ser_word de_word (Some 0) (\<lambda>x. x = 0)"

definition opt_str :: "string \<Rightarrow> ('r \<Rightarrow> string) \<Rightarrow> ((string \<Rightarrow> string) \<Rightarrow> 'r \<Rightarrow> 'r) \<Rightarrow> 'r field" where
  "opt_str = json_field JStr as_str (Some []) (\<lambda>s. s = [])"

definition opt_flag :: "string \<Rightarrow> ('r \<Rightarrow> bool) \<Rightarrow> ((bool \<Rightarrow> bool) \<Rightarrow> 'r \<Rightarrow> 'r) \<Rightarrow> 'r field" where
  "opt_flag = json_field JBool as_bool (Some False) (\<lambda>b. \<not> b)"

definition EVENT_FIELDS :: "event field list" where
  "EVENT_FIELDS =
    [must_num ''ts_ns'' ev_ts_ns ev_ts_ns_update, must_num ''type'' ev_type ev_type_update,
     must_num ''tgid'' ev_tgid ev_tgid_update, must_num ''ppid'' ev_ppid ev_ppid_update,
     must_num ''start_boottime'' ev_start_boottime ev_start_boottime_update,
     opt_num ''uid'' ev_uid ev_uid_update, opt_num ''gid'' ev_gid ev_gid_update,
     opt_num ''euid'' ev_euid ev_euid_update, opt_num ''egid'' ev_egid ev_egid_update,
     opt_num ''cgroup_id'' ev_cgroup_id ev_cgroup_id_update,
     opt_str ''comm'' ev_comm ev_comm_update, opt_str ''filename'' ev_filename ev_filename_update,
     json_field (\<lambda>xs. JArr (map JStr xs)) (\<lambda>v. map_option Redact.argv (de_vec as_str v)) (Some []) (\<lambda>xs. xs = [])
       ''argv'' ev_argv ev_argv_update,
     opt_flag ''truncated'' ev_truncated ev_truncated_update, opt_flag ''escape_target'' ev_escape_target ev_escape_target_update,
     json_field JBool as_bool (Some False) (\<lambda>_. False) ''socket_stdio'' ev_socket_stdio ev_socket_stdio_update,
     opt_flag ''denied'' ev_denied ev_denied_update, opt_flag ''would_deny'' ev_would_deny ev_would_deny_update,
     opt_num ''exit_code'' ev_exit_code ev_exit_code_update, opt_num ''child_pid'' ev_child_pid ev_child_pid_update,
     opt_num ''child_start_boottime'' ev_child_start_boottime ev_child_start_boottime_update,
     opt_num ''old_uid'' ev_old_uid ev_old_uid_update, opt_num ''old_gid'' ev_old_gid ev_old_gid_update,
     opt_num ''old_euid'' ev_old_euid ev_old_euid_update, opt_num ''old_egid'' ev_old_egid ev_old_egid_update,
     opt_num ''cap_effective'' ev_cap_effective ev_cap_effective_update,
     opt_num ''old_cap_effective'' ev_old_cap_effective ev_old_cap_effective_update,
     opt_num ''file_mode'' ev_file_mode ev_file_mode_update, opt_num ''old_file_mode'' ev_old_file_mode ev_old_file_mode_update,
     opt_num ''watch_id'' ev_watch_id ev_watch_id_update, opt_num ''mnt_ns'' ev_mnt_ns ev_mnt_ns_update,
     opt_num ''pid_ns'' ev_pid_ns ev_pid_ns_update, opt_num ''net_ns'' ev_net_ns ev_net_ns_update,
     opt_flag ''degraded_path'' ev_degraded_path ev_degraded_path_update,
     opt_num ''target_pid'' ev_target_pid ev_target_pid_update, opt_num ''aux'' ev_aux ev_aux_update,
     opt_str ''container'' ev_container ev_container_update,
     opt_num ''exe_ino'' ev_exe_ino ev_exe_ino_update, opt_num ''exe_dev'' ev_exe_dev ev_exe_dev_update,
     opt_str ''exe_trusted'' ev_exe_trusted ev_exe_trusted_update]"

text \<open>Every field of the result is set, so where the decoder starts from does not matter.\<close>

definition event_zero :: event where
  "event_zero =
     \<lparr>ev_ts_ns = 0, ev_type = 0, ev_tgid = 0, ev_ppid = 0, ev_start_boottime = 0, ev_uid = 0, ev_gid = 0, ev_euid = 0,
      ev_egid = 0, ev_cgroup_id = 0, ev_comm = [], ev_filename = [], ev_argv = [], ev_truncated = False,
      ev_escape_target = False, ev_socket_stdio = False, ev_denied = False, ev_would_deny = False, ev_exit_code = 0,
      ev_child_pid = 0, ev_child_start_boottime = 0, ev_old_uid = 0, ev_old_gid = 0, ev_old_euid = 0, ev_old_egid = 0,
      ev_cap_effective = 0, ev_old_cap_effective = 0, ev_file_mode = 0, ev_old_file_mode = 0, ev_watch_id = 0,
      ev_mnt_ns = 0, ev_pid_ns = 0, ev_net_ns = 0, ev_degraded_path = False, ev_target_pid = 0, ev_aux = 0,
      ev_container = [], ev_exe_ino = 0, ev_exe_dev = 0, ev_exe_trusted = []\<rparr>"

definition event_to_json :: "event \<Rightarrow> json" where
  "event_to_json = encode_struct EVENT_FIELDS"

definition event_from_json :: "json \<Rightarrow> event option" where
  "event_from_json = decode_struct EVENT_FIELDS event_zero"

section \<open>Heartbeats\<close>

text \<open>Of the optional fields only the canary's answer is ever left out.\<close>

definition full_num :: "string \<Rightarrow> ('r \<Rightarrow> 'w :: len word) \<Rightarrow> (('w word \<Rightarrow> 'w word) \<Rightarrow> 'r \<Rightarrow> 'r) \<Rightarrow> 'r field" where
  "full_num = json_field ser_word de_word (Some 0) (\<lambda>_. False)"

definition must_str :: "string \<Rightarrow> ('r \<Rightarrow> string) \<Rightarrow> ((string \<Rightarrow> string) \<Rightarrow> 'r \<Rightarrow> 'r) \<Rightarrow> 'r field" where
  "must_str = json_field JStr as_str None (\<lambda>_. False)"

definition HEARTBEAT_FIELDS :: "heartbeat_record field list" where
  "HEARTBEAT_FIELDS =
    [must_str ''schema'' hb_schema hb_schema_update, must_num ''ts'' hb_ts hb_ts_update,
     must_num ''uptime_secs'' hb_uptime_secs hb_uptime_secs_update,
     must_str ''agent_version'' hb_agent_version hb_agent_version_update,
     must_num ''events'' hb_events hb_events_update, must_num ''drops'' hb_drops hb_drops_update,
     must_num ''decode_panics'' hb_decode_panics hb_decode_panics_update,
     json_field (\<lambda>x. case x of None \<Rightarrow> JNull | Some b \<Rightarrow> JBool b) (de_option as_bool) (Some None) (\<lambda>x. x = None)
       ''sensors_verified'' hb_sensors_verified hb_sensors_verified_update,
     full_num ''attestation_misses'' hb_attestation_misses hb_attestation_misses_update,
     full_num ''sensors_active'' hb_sensors_active hb_sensors_active_update,
     full_num ''sensors_total'' hb_sensors_total hb_sensors_total_update]"

definition heartbeat_zero :: heartbeat_record where
  "heartbeat_zero =
     \<lparr>hb_schema = [], hb_ts = 0, hb_uptime_secs = 0, hb_agent_version = [], hb_events = 0, hb_drops = 0,
      hb_decode_panics = 0, hb_sensors_verified = None, hb_attestation_misses = 0, hb_sensors_active = 0,
      hb_sensors_total = 0\<rparr>"

definition heartbeat_to_json :: "heartbeat_record \<Rightarrow> json" where
  "heartbeat_to_json = encode_struct HEARTBEAT_FIELDS"

definition heartbeat_from_json :: "json \<Rightarrow> heartbeat_record option" where
  "heartbeat_from_json = decode_struct HEARTBEAT_FIELDS heartbeat_zero"

section \<open>Baselines\<close>

definition ENTRY_FIELDS :: "entry field list" where
  "ENTRY_FIELDS =
    [must_str ''signal'' e_signal e_signal_update, must_str ''exe'' e_exe e_exe_update,
     must_num ''count'' e_count e_count_update, full_num ''first_ns'' e_first_ns e_first_ns_update,
     full_num ''last_ns'' e_last_ns e_last_ns_update]"

definition entry_zero :: entry where
  "entry_zero = \<lparr>e_signal = [], e_exe = [], e_count = 0, e_first_ns = 0, e_last_ns = 0\<rparr>"

definition BASELINE_FIELDS :: "baseline field list" where
  "BASELINE_FIELDS =
    [must_num ''version'' b_version b_version_update, full_num ''events_observed'' b_events_observed b_events_observed_update,
     full_num ''learned_at_ms'' b_learned_at_ms b_learned_at_ms_update, full_num ''window_ns'' b_window_ns b_window_ns_update,
     json_field (\<lambda>es. JArr (map (encode_struct ENTRY_FIELDS) es)) (de_vec (decode_struct ENTRY_FIELDS entry_zero)) None (\<lambda>_. False)
       ''entries'' b_entries b_entries_update]"

text \<open>The fields that are never written take their defaults.\<close>

definition baseline_zero :: baseline where
  "baseline_zero =
     \<lparr>b_version = 0, b_events_observed = 0, b_learned_at_ms = 0, b_window_ns = 0, b_entries = [], b_index = hm_empty,
      b_window_lo = 0, b_window_hi = 0, b_evaluated_at_ms = 0\<rparr>"

definition baseline_to_json :: "baseline \<Rightarrow> json" where
  "baseline_to_json b = encode_struct BASELINE_FIELDS (baseline_saved b)"

definition baseline_from_json :: "u64 \<Rightarrow> json \<Rightarrow> baseline option" where
  "baseline_from_json now_ms v = map_option (baseline_loaded now_ms) (decode_struct BASELINE_FIELDS baseline_zero v)"

section \<open>Reading back what was written\<close>

lemma de_ser_word [simp]: "de_word (ser_word (x :: 'w :: len word)) = (Some x :: 'w word option)" if "LENGTH('w) \<le> 64"
proof -
  have "unat (ucast x :: u64) = unat x"
    using that by transfer (simp add: min_def)
  moreover have "ucast (ucast x :: u64) = x" using that by transfer (simp add: min_def)
  ultimately show ?thesis using unsigned_less [of x, where ?'a = nat] by (simp add: ser_word_def)
qed

lemma de_all_map: "(\<And>x. x \<in> set xs \<Longrightarrow> de (ser x) = Some (f x)) \<Longrightarrow> de_all de (map ser xs) = Some (map f xs)"
  by (induction xs) auto

lemma de_vec_map: "(\<And>x. de (ser x) = Some (f x)) \<Longrightarrow> de_vec de (JArr (map ser xs)) = Some (map f xs)"
  by (simp add: de_vec_def de_all_map)

text \<open>What reading a field makes of what was written for it.\<close>

definition reread :: "'r field \<Rightarrow> 'r \<Rightarrow> 'r \<Rightarrow> 'r option" where
  "reread f r r0 = snd (snd f) (fst (snd f) r) r0"

lemma reread_field:
  assumes "\<not> skip (get r) \<Longrightarrow> de (ser (get r)) = Some x" and "skip (get r) \<Longrightarrow> dflt = Some x"
  shows "reread (json_field ser de dflt skip n get upd) r r0 = Some (upd (\<lambda>_. x) r0)"
  using assms by (auto simp: reread_def json_field_def)

lemma reread_word [simp]:
  fixes get :: "'r \<Rightarrow> 'w :: len word"
  assumes "LENGTH('w) \<le> 64"
  shows "reread (must_num n get upd) r r0 = Some (upd (\<lambda>_. get r) r0)"
    and "reread (opt_num n get upd) r r0 = Some (upd (\<lambda>_. get r) r0)"
    and "reread (full_num n get upd) r r0 = Some (upd (\<lambda>_. get r) r0)"
  using assms by (auto simp: must_num_def opt_num_def full_num_def intro!: reread_field)

lemma reread_plain [simp]:
  "reread (opt_str n sget supd) r r0 = Some (supd (\<lambda>_. sget r) r0)"
  "reread (must_str n sget supd) r r0 = Some (supd (\<lambda>_. sget r) r0)"
  "reread (opt_flag n bget bupd) r r0 = Some (bupd (\<lambda>_. bget r) r0)"
  "reread (json_field JBool as_bool d (\<lambda>_. False) n bget bupd) r r0 = Some (bupd (\<lambda>_. bget r) r0)"
  by (auto simp: opt_str_def must_str_def opt_flag_def intro!: reread_field)

lemma member_names: "map fst (List.map_filter (\<lambda>(n, put, _). map_option (Pair n) (put r)) fs) = map fst (filter (\<lambda>f. fst (snd f) r \<noteq> None) fs)"
  by (induction fs) (auto simp: map_filter_simps split: option.splits)

lemma encoded_member:
  assumes "distinct (map fst fs)" and "(n, put, get) \<in> set fs"
  shows "map_of (List.map_filter (\<lambda>(n, put, _). map_option (Pair n) (put r)) fs) n = put r"
  using assms
proof (induction fs)
  case (Cons f fs)
  have out: "map_of (List.map_filter (\<lambda>(n, put, _). map_option (Pair n) (put r)) fs) n = None" if "n \<notin> fst ` set fs"
    proof -
    have "n \<notin> set (map fst (List.map_filter (\<lambda>(n, put, _). map_option (Pair n) (put r)) fs))" using that unfolding member_names by auto
    then show ?thesis by (simp add: map_of_eq_None_iff)
  qed
  have "fst f = n \<Longrightarrow> n \<notin> fst ` set fs" and "fst f \<noteq> n \<Longrightarrow> (n, put, get) \<in> set fs" using Cons.prems by auto
  then show ?case using Cons out by (cases f) (force simp: map_filter_simps split: option.splits)
qed simp

lemma take_encoded:
  fixes fs :: "'a field list"
  assumes "distinct (map fst all)" and "set fs \<subseteq> set all"
  shows "take_fields fs (map_of (List.map_filter (\<lambda>(n, put, _). map_option (Pair n) (put r)) all)) r0
    = fold (\<lambda>f acc. Option.bind acc (reread f r)) fs (Some r0)"
  using assms(2)
proof (induction fs arbitrary: r0)
  case (Cons f fs)
  obtain n put get where f: "f = (n, put, get)" by (metis prod_cases3)
  have none: "fold (\<lambda>f acc. Option.bind acc (reread f r)) fs None = None" for fs :: "'a field list"
    by (induction fs) auto
  show ?case using Cons f none reread_def [of f r] encoded_member [OF assms(1), of n put get r] by (cases "get (put r) r0") auto
qed simp

text \<open>The contract of a table of fields: no name comes twice.\<close>

locale codec =
  fixes fields :: "'r field list"
  assumes names: "distinct (map fst fields)"
begin

lemma decode_encode: "decode_struct fields r0 (encode_struct fields r) = fold (\<lambda>f acc. Option.bind acc (reread f r)) fields (Some r0)"
proof -
  have "distinct (filter (\<lambda>k. k \<in> set (map fst fields)) (map fst (List.map_filter (\<lambda>(n, put, _). map_option (Pair n) (put r)) fields)))"
    unfolding member_names using names by (simp add: distinct_map_filter)
  then show ?thesis using take_encoded [OF names, of fields r r0] by (simp add: decode_struct_def encode_struct_def)
qed

end

lemmas field_names = must_num_def opt_num_def opt_str_def opt_flag_def full_num_def must_str_def

lemma fst_field [simp]: "fst (json_field ser de dflt skip n get upd) = n"
  by (simp add: json_field_def)

interpretation event_codec: codec EVENT_FIELDS
  by unfold_locales (simp add: EVENT_FIELDS_def field_names)

interpretation heartbeat_codec: codec HEARTBEAT_FIELDS
  by unfold_locales (simp add: HEARTBEAT_FIELDS_def field_names)

interpretation entry_codec: codec ENTRY_FIELDS
  by unfold_locales (simp add: ENTRY_FIELDS_def field_names)

interpretation baseline_codec: codec BASELINE_FIELDS
  by unfold_locales (simp add: BASELINE_FIELDS_def field_names)

lemma event_reread:
  "event_from_json (event_to_json ev) = Some (ev\<lparr>ev_argv := Redact.argv (ev_argv ev)\<rparr>)"
proof -
  have argv: "reread (json_field (\<lambda>xs. JArr (map JStr xs)) (\<lambda>v. map_option Redact.argv (de_vec as_str v)) (Some []) (\<lambda>xs. xs = []) n get upd) r r0
      = Some (upd (\<lambda>_. Redact.argv (get r)) r0)" for n and get :: "event \<Rightarrow> string list" and upd r r0
    by (rule reread_field) (simp_all add: de_vec_map [of as_str JStr "\<lambda>x. x"] Redact.argv_def)
  have "event_from_json (event_to_json ev) = fold (\<lambda>f acc. Option.bind acc (reread f ev)) EVENT_FIELDS (Some event_zero)"
    by (simp add: event_from_json_def event_to_json_def event_codec.decode_encode)
  also have "\<dots> = Some (ev\<lparr>ev_argv := Redact.argv (ev_argv ev)\<rparr>)"
    by (cases ev) (simp add: EVENT_FIELDS_def argv event_zero_def)
  finally show ?thesis .
qed

lemma heartbeat_reread: "heartbeat_from_json (heartbeat_to_json hb) = Some hb"
proof -
  have verified: "reread (json_field (\<lambda>x. case x of None \<Rightarrow> JNull | Some b \<Rightarrow> JBool b) (de_option as_bool) (Some None) (\<lambda>x. x = None) n get upd) r r0
      = Some (upd (\<lambda>_. get r) r0)" for n and get :: "heartbeat_record \<Rightarrow> bool option" and upd r r0
    by (rule reread_field) auto
  show ?thesis
    unfolding heartbeat_from_json_def heartbeat_to_json_def heartbeat_codec.decode_encode
    by (cases hb) (simp add: HEARTBEAT_FIELDS_def verified heartbeat_zero_def)
qed

lemma entry_reread: "decode_struct ENTRY_FIELDS entry_zero (encode_struct ENTRY_FIELDS e) = Some e"
  unfolding entry_codec.decode_encode by (cases e) (simp add: ENTRY_FIELDS_def entry_zero_def)

lemma baseline_reread:
  "baseline_from_json now (baseline_to_json b) = Some (baseline_loaded now (baseline_saved b))"
proof -
  have entries: "reread (json_field (\<lambda>es. JArr (map (encode_struct ENTRY_FIELDS) es)) (de_vec (decode_struct ENTRY_FIELDS entry_zero)) None (\<lambda>_. False) n get upd) r r0
      = Some (upd (\<lambda>_. get r) r0)" for n and get :: "baseline \<Rightarrow> entry list" and upd r r0
    by (rule reread_field) (simp_all add: de_vec_map [of _ _ "\<lambda>x. x"] entry_reread)
  show ?thesis
    unfolding baseline_from_json_def baseline_to_json_def baseline_codec.decode_encode
    by (cases "baseline_saved b") (simp add: BASELINE_FIELDS_def entries baseline_zero_def baseline_loaded_def reindex_def)
qed

end
