(* ===== verification/Startup.thy ===== *)
theory Startup
  imports Agent Yara Doctor Wire
begin

text \<open>
  What \<^verbatim>\<open>run\<close> of \<^verbatim>\<open>src/main.rs\<close> does before a sensor is attached: the options, the preflight, the baseline, the rules
  (\<^verbatim>\<open>load_dir\<close> of \<^verbatim>\<open>src/detect/rule.rs\<close>) and the content scanner. The text of JSON and YAML and the rule compiler are libraries
  and parameters.
\<close>

section \<open>Rule directories\<close>

definition is_yaml :: "string \<Rightarrow> bool" where
  "is_yaml name \<longleftrightarrow> extension name = Some ''yaml'' \<or> extension name = Some ''yml''"

definition load_rule :: "disk \<Rightarrow> (string \<Rightarrow> string + rule) \<Rightarrow> string \<Rightarrow> string + rule" where
  "load_rule d yaml p =
     (case read_to_string d p of None \<Rightarrow> Inl (''reading '' @ display p)
      | Some s \<Rightarrow>
          (case yaml s of Inl e \<Rightarrow> Inl (''parsing '' @ display p @ '': '' @ e)
           | Inr r \<Rightarrow> (case Rule.validate r of Inl e \<Rightarrow> Inl e | Inr _ \<Rightarrow> Inr r)))"

fun load_rules :: "disk \<Rightarrow> (string \<Rightarrow> string + rule) \<Rightarrow> string list \<Rightarrow> string + rule list" where
  "load_rules d yaml [] = Inr []"
| "load_rules d yaml (p # ps) =
     (case load_rule d yaml p of Inl e \<Rightarrow> Inl e
      | Inr r \<Rightarrow> (case load_rules d yaml ps of Inl e \<Rightarrow> Inl e | Inr rs \<Rightarrow> Inr (r # rs)))"

definition load_dir :: "disk \<Rightarrow> (string \<Rightarrow> string + rule) \<Rightarrow> string \<Rightarrow> string + rule list" where
  "load_dir d yaml dir =
     (case dk_read_dir d dir of None \<Rightarrow> Inl (''reading '' @ dir)
      | Some es \<Rightarrow> load_rules d yaml (map (path_join dir) (filter is_yaml (map fst es))))"

lemma load_rule_Inr:
  "load_rule d yaml p = Inr r \<longleftrightarrow> (\<exists>s. read_to_string d p = Some s \<and> yaml s = Inr r \<and> Rule.validate r = Inr ())"
  by (auto simp: load_rule_def split: option.splits sum.splits)

lemma load_rules_Inr: "load_rules d yaml ps = Inr rs \<longleftrightarrow> list_all2 (\<lambda>p r. load_rule d yaml p = Inr r) ps rs"
proof (induction ps arbitrary: rs)
  case (Cons p ps)
  then show ?case unfolding list_all2_Cons1 Cons.IH [symmetric] by (auto split: sum.splits)
qed auto

text \<open>
  A rule directory loads whole or not at all. It loads exactly if it can be listed and each of its YAML files can be
  read, parses and is valid; the rules are then those of the files, one each, in the order of the listing.
\<close>

theorem load_dir_exact:
  "load_dir d yaml dir = Inr rs \<longleftrightarrow>
     (\<exists>es. dk_read_dir d dir = Some es
       \<and> list_all2 (\<lambda>n r. \<exists>s. read_to_string d (path_join dir n) = Some s \<and> yaml s = Inr r \<and> Rule.validate r = Inr ())
           (filter is_yaml (map fst es)) rs)"
  by (auto simp: load_dir_def load_rules_Inr load_rule_Inr list_all2_map1 split: option.splits)

section \<open>Getting ready\<close>

text \<open>The question mark operator.\<close>

definition and_then :: "'e + 'a \<Rightarrow> ('a \<Rightarrow> 'e + 'b) \<Rightarrow> 'e + 'b" where
  "and_then x f = (case x of Inl e \<Rightarrow> Inl e | Inr v \<Rightarrow> f v)"

lemma and_then_Inr: "and_then x f = Inr z \<longleftrightarrow> (\<exists>v. x = Inr v \<and> f v = Inr z)"
  by (auto simp: and_then_def split: sum.splits)

definition given :: "('p \<Rightarrow> 'e + 'a) \<Rightarrow> 'p option \<Rightarrow> 'e + 'a option" where
  \<comment> \<open>an option that is only loaded when it is given\<close>
  "given load x = (case x of None \<Rightarrow> Inr None | Some p \<Rightarrow> and_then (load p) (\<lambda>v. Inr (Some v)))"

lemma given_Inr: "given load x = Inr y \<longleftrightarrow> (case x of None \<Rightarrow> y = None | Some p \<Rightarrow> \<exists>v. load p = Inr v \<and> y = Some v)"
  by (auto simp: given_def and_then_Inr split: option.splits)

record run_args =
  ra_max_processes :: nat
  ra_retain_secs :: nat
  ra_json :: bool
  ra_baseline :: "string option"
  ra_rules :: "string option"
  ra_yara :: "string option"
  ra_enforce :: string
  ra_min_severity :: string

record 'r ready =
  re_floor :: severity
  re_enforce :: enforce
  re_baseline :: "baseline option"
  re_rules :: "rule list option"
  re_scanner :: "'r scanner option"

definition load_baseline :: "disk \<Rightarrow> (string \<Rightarrow> json option) \<Rightarrow> u64 \<Rightarrow> string \<Rightarrow> string + baseline" where
  "load_baseline d parse now_ms p =
     (case Option.bind (read_to_string d p) (\<lambda>s. Option.bind (parse s) (baseline_from_json now_ms)) of
        None \<Rightarrow> Inl (''loading baseline '' @ p) | Some b \<Rightarrow> Inr b)"

definition run_prepare :: "disk \<Rightarrow> host_fs \<Rightarrow> u32 \<Rightarrow> u64 \<Rightarrow> (string \<Rightarrow> json option) \<Rightarrow> u64 \<Rightarrow> (string \<Rightarrow> string + rule)
    \<Rightarrow> (string \<Rightarrow> string + 'r scanner) \<Rightarrow> run_args \<Rightarrow> string + 'r ready" where
  "run_prepare d fs euid rlim parse now_ms yaml scanner a =
     and_then (parse_severity (ra_min_severity a)) (\<lambda>fl.
     and_then (parse_enforce (ra_enforce a)) (\<lambda>en.
     if fatal (doctor_run d fs euid rlim) then Inl ''preflight checks failed''
     else
       and_then (given (load_baseline d parse now_ms) (ra_baseline a)) (\<lambda>b.
       and_then (given (load_dir d yaml) (ra_rules a)) (\<lambda>rs.
       and_then (given scanner (ra_yara a)) (\<lambda>sc.
         Inr \<lparr>re_floor = fl, re_enforce = en, re_baseline = b, re_rules = rs, re_scanner = sc\<rparr>)))))"

text \<open>
  The agent and what the kernel is told: nothing unless all of the above is in order. The scan of \<^verbatim>\<open>/proc\<close> comes before the sensors.
\<close>

definition run_start :: "disk \<Rightarrow> host_fs \<Rightarrow> procfs \<Rightarrow> int \<Rightarrow> u32 \<Rightarrow> u64 \<Rightarrow> (string \<Rightarrow> json option) \<Rightarrow> u64 \<Rightarrow> (string \<Rightarrow> string + rule)
    \<Rightarrow> (string \<Rightarrow> string + 'r scanner) \<Rightarrow> (string \<Rightarrow> string option) \<Rightarrow> run_args
    \<Rightarrow> (string + 'r ready \<times> agent \<times> armed) \<times> (u32 \<times> u32) option" where
  "run_start d fs pf hz euid rlim parse now_ms yaml scanner attach a =
     (case run_prepare d fs euid rlim parse now_ms yaml scanner a of
        Inl e \<Rightarrow> (Inl e, None)
      | Inr re \<Rightarrow>
          let ag = agent_start (ra_max_processes a) (ra_retain_secs a) (re_floor re) (re_baseline re) (re_rules re) pf fs hz
          in (case sensors_start (re_enforce re) (host_mnt_ns pf) attach (bpf_lsm_active d) of
                (Inl e, cfg) \<Rightarrow> (Inl e, cfg)
              | (Inr ar, cfg) \<Rightarrow> (Inr (re, ag, ar), cfg)))"


definition bare_disk :: disk where
  "bare_disk = \<lparr>dk_read_dir = (\<lambda>_. None), dk_lstat = (\<lambda>_. None), dk_content = (\<lambda>_. None), dk_read_link = (\<lambda>_. None),
     dk_canonicalize = (\<lambda>_. None), dk_is_dir = (\<lambda>_. False), dk_exists = (\<lambda>_. True), dk_lage = (\<lambda>_. None), dk_age = (\<lambda>_. None)\<rparr>"

definition plain_args :: run_args where
  "plain_args = \<lparr>ra_max_processes = 9, ra_retain_secs = 300, ra_json = True, ra_baseline = None, ra_rules = None, ra_yara = None,
     ra_enforce = ''Off'', ra_min_severity = ''medium''\<rparr>"


end
