(* ===== verification/Loop.thy ===== *)
theory Loop
  imports Sensors
begin

text \<open>
  The event loop of \<^verbatim>\<open>run\<close> in \<^verbatim>\<open>src/sensors.rs\<close>: draining the ring buffer through a callback that survives a panic, the
  refresh of the watches under \<^verbatim>\<open>/home\<close>, the liveness tick and the counters read from the kernel. The loop is the same for
  every caller, so the callbacks are parameters over a state of the caller's; theory Daemon gives them the agent's. What the
  environment does in one turn of the loop (the stop flag, the records polled, the clock, the listing of \<^verbatim>\<open>/home\<close>, the
  kernel's counters) is a record, and a run is over a list of turns.
\<close>

section \<open>Counters\<close>

record sensor_stats =
  st_emitted :: u64
  st_drops :: u64
  st_decode_panics :: u64
  st_sensors_active :: u32
  st_sensors_total :: u32

text \<open>\<open>look\<close> is the lookup in the kernel's map: an error and a missing entry are both \<open>None\<close>.\<close>

definition stat_at :: "(u8 list \<Rightarrow> u8 list option) \<Rightarrow> u32 \<Rightarrow> u64" where
  "stat_at look i = (case look (le_bytes 4 i) of None \<Rightarrow> 0 | Some v \<Rightarrow> if length v < 8 then 0 else of_le_bytes (take 8 v))"

definition read_stats :: "(u8 list \<Rightarrow> u8 list option) \<Rightarrow> sensor_stats" where
  "read_stats look = \<lparr>st_emitted = stat_at look 0, st_drops = stat_at look 1, st_decode_panics = 0,
     st_sensors_active = 0, st_sensors_total = 0\<rparr>"

section \<open>The environment\<close>

datatype poll_result = Poll_ok | Poll_interrupted | Poll_failed string

text \<open>Instants are in nanoseconds; a check and the reset after it read the clock anew.\<close>

record turn =
  tu_stop :: bool
  tu_data :: "u8 list list"
  tu_poll :: poll_result
  tu_refresh_check :: nat
  tu_refresh_reset :: nat
  tu_homes :: "string list option"
  tu_tick_check :: nat
  tu_tick_reset :: nat
  tu_look :: "u8 list \<Rightarrow> u8 list option"

text \<open>What the loop has told its caller: an event and whether handling it panicked, or a tick.\<close>

datatype told = Told_event raw_event bool | Told_tick sensor_stats

record ('s, 'm) looping =
  lo_app :: 's
  lo_panics :: u64
  lo_watched :: "string set"
  lo_map :: 'm
  lo_last_tick :: nat
  lo_last_refresh :: nat
  lo_told :: "told list"  \<comment> \<open>history, for the statements only\<close>

text \<open>
  The caller's side. A callback may not return (\<open>None\<close>); otherwise it says whether it panicked and in what state it left the
  caller. The stop flag can also be set from inside a callback.
\<close>

record 's caller =
  cl_event :: "raw_event \<Rightarrow> 's \<Rightarrow> (bool \<times> 's) option"
  cl_tick :: "sensor_stats \<Rightarrow> 's \<Rightarrow> 's"
  cl_stopped :: "'s \<Rightarrow> bool"

record sensor_config =
  sn_tick_every :: nat
  sn_active :: u32
  sn_total :: u32

section \<open>The loop\<close>

definition WATCH_REFRESH :: nat where "WATCH_REFRESH = 15 * 10 ^ 9"

definition on_record :: "'s caller \<Rightarrow> u8 list \<Rightarrow> ('s, 'm) looping \<Rightarrow> ('s, 'm) looping option" where
  "on_record cl data l =
     (case from_bytes data of None \<Rightarrow> Some l
      | Some ev \<Rightarrow>
          map_option (\<lambda>(panicked, s). l\<lparr>lo_app := s, lo_panics := lo_panics l + (if panicked then 1 else 0),
              lo_told := lo_told l @ [Told_event ev panicked]\<rparr>) (cl_event cl ev (lo_app l)))"

fun on_records :: "'s caller \<Rightarrow> u8 list list \<Rightarrow> ('s, 'm) looping \<Rightarrow> ('s, 'm) looping option" where
  "on_records cl [] l = Some l"
| "on_records cl (d # ds) l = Option.bind (on_record cl d l) (on_records cl ds)"

definition refresh :: "(u8 list \<Rightarrow> u32 \<Rightarrow> 'm \<Rightarrow> 'm option) \<Rightarrow> turn \<Rightarrow> ('s, 'm) looping \<Rightarrow> ('s, 'm) looping" where
  "refresh update t l =
     (if tu_refresh_check t - lo_last_refresh l \<ge> WATCH_REFRESH
      then (case refresh_watches update (tu_homes t) (lo_watched l, lo_map l) of
              (watched, m) \<Rightarrow> l\<lparr>lo_last_refresh := tu_refresh_reset t, lo_watched := watched, lo_map := m\<rparr>)
      else l)"

definition stats_now :: "sensor_config \<Rightarrow> turn \<Rightarrow> ('s, 'm) looping \<Rightarrow> sensor_stats" where
  "stats_now cfg t l = (read_stats (tu_look t))\<lparr>st_decode_panics := lo_panics l, st_sensors_active := sn_active cfg,
     st_sensors_total := sn_total cfg\<rparr>"

definition tick :: "'s caller \<Rightarrow> sensor_config \<Rightarrow> turn \<Rightarrow> ('s, 'm) looping \<Rightarrow> ('s, 'm) looping" where
  "tick cl cfg t l =
     (if sn_tick_every cfg \<noteq> 0 \<and> tu_tick_check t - lo_last_tick l \<ge> sn_tick_every cfg
      then l\<lparr>lo_app := cl_tick cl (stats_now cfg t l) (lo_app l), lo_last_tick := tu_tick_reset t,
             lo_told := lo_told l @ [Told_tick (stats_now cfg t l)]\<rparr>
      else l)"

text \<open>What \<^verbatim>\<open>run\<close> returns at the end does not carry the numbers of sensors.\<close>

definition stats_end :: "turn \<Rightarrow> ('s, 'm) looping \<Rightarrow> sensor_stats" where
  "stats_end t l = (read_stats (tu_look t))\<lparr>st_decode_panics := lo_panics l\<rparr>"

text \<open>
  The outer \<open>None\<close> is a callback that never returns; the inner one a loop that is still running when the turns are used up.
\<close>

fun run_loop :: "'s caller \<Rightarrow> sensor_config \<Rightarrow> (u8 list \<Rightarrow> u32 \<Rightarrow> 'm \<Rightarrow> 'm option) \<Rightarrow> turn list \<Rightarrow> ('s, 'm) looping
    \<Rightarrow> ((string + sensor_stats) option \<times> ('s, 'm) looping) option" where
  "run_loop cl cfg update [] l = Some (None, l)"
| "run_loop cl cfg update (t # ts) l =
     (if tu_stop t \<or> cl_stopped cl (lo_app l) then Some (Some (Inr (stats_end t l)), l)
      else case on_records cl (tu_data t) l of None \<Rightarrow> None
        | Some l1 \<Rightarrow>
            (case tu_poll t of
               Poll_interrupted \<Rightarrow> Some (Some (Inr (stats_end t l1)), l1)
             | Poll_failed e \<Rightarrow> Some (Some (Inl (''polling ring buffer: '' @ e)), l1)
             | Poll_ok \<Rightarrow> run_loop cl cfg update ts (tick cl cfg t (refresh update t l1))))"

definition loop_start :: "'s \<Rightarrow> string set \<Rightarrow> 'm \<Rightarrow> nat \<Rightarrow> nat \<Rightarrow> ('s, 'm) looping" where
  "loop_start s watched m tick0 refresh0 = \<lparr>lo_app = s, lo_panics = 0, lo_watched = watched, lo_map = m,
     lo_last_tick = tick0, lo_last_refresh = refresh0, lo_told = []\<rparr>"

section \<open>A caller that keeps its promises\<close>

definition turn_ok :: "(raw_event \<Rightarrow> bool) \<Rightarrow> turn \<Rightarrow> bool" where
  "turn_ok good_record t \<longleftrightarrow> list_all (\<lambda>d. case from_bytes d of None \<Rightarrow> True | Some ev \<Rightarrow> good_record ev) (tu_data t)"

text \<open>
  The contract of a caller: from a good state and on a good record its callback returns and leaves a good state, and so does
  its tick.
\<close>

locale sound_caller =
  fixes cl :: "'s caller" and good_record :: "raw_event \<Rightarrow> bool" and good :: "'s \<Rightarrow> bool"
  assumes event_returns: "good s \<Longrightarrow> good_record ev \<Longrightarrow> \<exists>p s'. cl_event cl ev s = Some (p, s') \<and> good s'"
    and tick_good: "good s \<Longrightarrow> good (cl_tick cl st s)"
begin

lemma on_records_return:
  "good (lo_app l) \<Longrightarrow> (\<And>d ev. d \<in> set ds \<Longrightarrow> from_bytes d = Some ev \<Longrightarrow> good_record ev) \<Longrightarrow>
   \<exists>l'. on_records cl ds l = Some l' \<and> good (lo_app l')"
proof (induction ds arbitrary: l)
  case (Cons d ds)
  have "\<exists>l1. on_record cl d l = Some l1 \<and> good (lo_app l1)"
  proof (cases "from_bytes d")
    case (Some ev)
    then obtain p s' where "cl_event cl ev (lo_app l) = Some (p, s')" "good s'"
      using event_returns [OF Cons.prems(1) Cons.prems(2) [OF _ Some]] by auto
    then show ?thesis using Some by (simp add: on_record_def)
  qed (simp add: on_record_def Cons.prems(1))
  then obtain l1 where l1: "on_record cl d l = Some l1" "good (lo_app l1)" by blast
  have "\<exists>l'. on_records cl ds l1 = Some l' \<and> good (lo_app l')"
    by (rule Cons.IH [OF l1(2)]) (use Cons.prems(2) in auto)
  then show ?case using l1(1) by simp
qed simp

lemma loop_returns:
  "good (lo_app l) \<Longrightarrow> list_all (turn_ok good_record) ts \<Longrightarrow> \<exists>r l'. run_loop cl cfg update ts l = Some (r, l') \<and> good (lo_app l')"
proof (induction ts arbitrary: l)
  case (Cons t ts)
  from Cons.prems(2) have "turn_ok good_record t" and rest: "list_all (turn_ok good_record) ts" by simp_all
  then obtain l1 where l1: "on_records cl (tu_data t) l = Some l1" "good (lo_app l1)"
    using on_records_return [OF Cons.prems(1), of "tu_data t"] by (auto simp: turn_ok_def list_all_iff split: option.splits)
  have "good (lo_app (tick cl cfg t (refresh update t l1)))"
    using l1(2) tick_good by (auto simp: tick_def refresh_def case_prod_beta)
  from Cons.IH [OF this rest] show ?case using l1 Cons.prems(1) by (auto split: poll_result.splits)
qed simp

end

section \<open>What the caller is told\<close>

definition events_of :: "told list \<Rightarrow> raw_event list" where
  "events_of xs = List.map_filter (\<lambda>x. case x of Told_event ev _ \<Rightarrow> Some ev | Told_tick _ \<Rightarrow> None) xs"

definition panics_of :: "told list \<Rightarrow> nat" where
  "panics_of xs = length (filter (\<lambda>x. case x of Told_event _ p \<Rightarrow> p | Told_tick _ \<Rightarrow> False) xs)"

lemma told_append [simp]:
  "events_of (xs @ ys) = events_of xs @ events_of ys" "panics_of (xs @ ys) = panics_of xs + panics_of ys"
  "events_of [Told_event ev p] = [ev]" "events_of [Told_tick st] = []" "events_of [] = []" "panics_of [] = 0"
  "panics_of [Told_event ev p] = (if p then 1 else 0)" "panics_of [Told_tick st] = 0"
  by (simp_all add: events_of_def panics_of_def List.map_filter_def)

text \<open>The caller's state is what its callbacks make of what it was told.\<close>

fun retell :: "'s caller \<Rightarrow> told list \<Rightarrow> 's \<Rightarrow> 's option" where
  "retell cl [] s = Some s"
| "retell cl (Told_event ev p # xs) s =
     (case cl_event cl ev s of Some (p', s') \<Rightarrow> if p' = p then retell cl xs s' else None | None \<Rightarrow> None)"
| "retell cl (Told_tick st # xs) s = retell cl xs (cl_tick cl st s)"

lemma retell_append: "retell cl (xs @ ys) s = Option.bind (retell cl xs s) (retell cl ys)"
  by (induction cl xs s rule: retell.induct) (auto split: option.splits)

definition faithful :: "'s caller \<Rightarrow> 's \<Rightarrow> ('s, 'm) looping \<Rightarrow> bool" where
  "faithful cl s0 l \<longleftrightarrow> retell cl (lo_told l) s0 = Some (lo_app l) \<and> lo_panics l = of_nat (panics_of (lo_told l))"

lemma on_records_faithful:
  "on_records cl ds l = Some l' \<Longrightarrow> faithful cl s0 l \<Longrightarrow>
   faithful cl s0 l' \<and> events_of (lo_told l') = events_of (lo_told l) @ List.map_filter from_bytes ds"
proof (induction ds arbitrary: l)
  case (Cons d ds)
  then obtain l1 where l1: "on_record cl d l = Some l1" "on_records cl ds l1 = Some l'" by (auto simp: bind_eq_Some_conv)
  have "faithful cl s0 l1 \<and> events_of (lo_told l1) = events_of (lo_told l) @ List.map_filter from_bytes [d]"
    using l1(1) Cons.prems(2)
    by (auto simp: on_record_def faithful_def retell_append List.map_filter_def split: option.splits)
  with Cons.IH [OF l1(2)] show ?case by (simp add: List.map_filter_def split: option.splits)
qed (simp add: List.map_filter_def)

lemma tick_faithful:
  "faithful cl s0 l \<Longrightarrow> faithful cl s0 (tick cl cfg t l) \<and> events_of (lo_told (tick cl cfg t l)) = events_of (lo_told l)"
  by (simp add: tick_def faithful_def retell_append)

lemma refresh_keeps [simp]:
  "lo_app (refresh update t l) = lo_app l" "lo_told (refresh update t l) = lo_told l" "lo_panics (refresh update t l) = lo_panics l"
  "lo_last_tick (refresh update t l) = lo_last_tick l"
  by (simp_all add: refresh_def case_prod_beta)

lemma run_loop_faithful:
  "run_loop cl cfg update ts l = Some (r, l') \<Longrightarrow> faithful cl s0 l \<Longrightarrow>
   faithful cl s0 l' \<and> (\<exists>n \<le> length ts. (r = None \<longrightarrow> n = length ts)
     \<and> events_of (lo_told l') = events_of (lo_told l) @ List.map_filter from_bytes (concat (map tu_data (take n ts))))"
proof (induction ts arbitrary: l)
  case (Cons t ts)
  show ?case
  proof (cases "tu_stop t \<or> cl_stopped cl (lo_app l)")
    case True
    then show ?thesis using Cons.prems by (auto simp: List.map_filter_def intro: exI [of _ 0])
  next
    case False
    then obtain l1 where l1: "on_records cl (tu_data t) l = Some l1" using Cons.prems(1) by (auto split: option.splits)
    note f1 = on_records_faithful [OF l1 Cons.prems(2)]
    show ?thesis
    proof (cases "tu_poll t = Poll_ok")
      case True
      let ?l2 = "tick cl cfg t (refresh update t l1)"
      have f2: "faithful cl s0 ?l2" "events_of (lo_told ?l2) = events_of (lo_told l1)"
        using tick_faithful [of cl s0 "refresh update t l1" cfg t] f1 by (simp_all add: faithful_def)
      have "run_loop cl cfg update ts ?l2 = Some (r, l')" using Cons.prems(1) False l1 True by simp
      from Cons.IH [OF this f2(1)] obtain n where "faithful cl s0 l'" "n \<le> length ts" "r = None \<longrightarrow> n = length ts"
        "events_of (lo_told l') = events_of (lo_told l1) @ List.map_filter from_bytes (concat (map tu_data (take n ts)))"
        using f2(2) by auto
      then show ?thesis using f1 by (auto simp: List.map_filter_def intro!: exI [of _ "Suc n"])
    next
      case False
      then have "l' = l1" "r \<noteq> None" using Cons.prems(1) \<open>\<not> (tu_stop t \<or> cl_stopped cl (lo_app l))\<close> l1
        by (auto split: poll_result.splits)
      then show ?thesis using f1 by (intro conjI exI [of _ "Suc 0"]) auto
    qed
  qed
qed (auto simp: List.map_filter_def)

text \<open>
  A bad event costs one event. Whatever the callback does with them, the records that decode are handed to it
  each once and in order, up to the turn in which the loop ends; the state of the caller is exactly what its callbacks made of
  that, and the panics are counted one by one.
\<close>

theorem loop_hands_on:
  assumes "run_loop cl cfg update ts (loop_start s watched m t0 r0) = Some (r, l)"
  shows "\<exists>n \<le> length ts. (r = None \<longrightarrow> n = length ts)
    \<and> events_of (lo_told l) = List.map_filter from_bytes (concat (map tu_data (take n ts)))
    \<and> retell cl (lo_told l) s = Some (lo_app l) \<and> lo_panics l = of_nat (panics_of (lo_told l))"
proof -
  have "faithful cl s (loop_start s watched m t0 r0)" by (simp add: faithful_def loop_start_def)
  from run_loop_faithful [OF assms this] show ?thesis by (auto simp: faithful_def loop_start_def)
qed

section \<open>Reporting in\<close>

text \<open>The clock of the loop does not run backwards: a check is not before the reset it looks back to, nor after its own reset.\<close>

definition ticks_of :: "told list \<Rightarrow> sensor_stats list" where
  "ticks_of xs = List.map_filter (\<lambda>x. case x of Told_event _ _ \<Rightarrow> None | Told_tick st \<Rightarrow> Some st) xs"

lemma ticks_append [simp]:
  "ticks_of (xs @ ys) = ticks_of xs @ ticks_of ys" "ticks_of [Told_event ev p] = []" "ticks_of [Told_tick st] = [st]" "ticks_of [] = []"
  by (simp_all add: ticks_of_def List.map_filter_def)

definition paced :: "sensor_config \<Rightarrow> nat \<Rightarrow> ('s, 'm) looping \<Rightarrow> bool" where
  "paced cfg t0 l \<longleftrightarrow> t0 + sn_tick_every cfg * length (ticks_of (lo_told l)) \<le> lo_last_tick l
     \<and> list_all (\<lambda>st. st_sensors_active st = sn_active cfg \<and> st_sensors_total st = sn_total cfg) (ticks_of (lo_told l))
     \<and> (sn_tick_every cfg = 0 \<longrightarrow> ticks_of (lo_told l) = [])"

lemma on_records_paced: "on_records cl ds l = Some l' \<Longrightarrow> lo_last_tick l' = lo_last_tick l \<and> ticks_of (lo_told l') = ticks_of (lo_told l)"
proof (induction ds arbitrary: l)
  case (Cons d ds)
  then obtain l1 where l1: "on_record cl d l = Some l1" "on_records cl ds l1 = Some l'" by (auto simp: bind_eq_Some_conv)
  have "lo_last_tick l1 = lo_last_tick l \<and> ticks_of (lo_told l1) = ticks_of (lo_told l)"
    using l1(1) by (auto simp: on_record_def split: option.splits)
  with Cons.IH [OF l1(2)] show ?case by simp
qed simp

lemma tick_paced:
  assumes "paced cfg t0 l" and "tu_tick_check t \<le> tu_tick_reset t"
  shows "paced cfg t0 (tick cl cfg t l)"
    and "sn_tick_every cfg \<noteq> 0 \<Longrightarrow> tu_tick_check t < lo_last_tick (tick cl cfg t l) + sn_tick_every cfg"
  using assms by (auto simp: paced_def tick_def stats_now_def algebra_simps)

lemma run_loop_paced:
  "run_loop cl cfg update ts l = Some (r, l') \<Longrightarrow> paced cfg t0 l \<Longrightarrow> list_all (\<lambda>t. tu_tick_check t \<le> tu_tick_reset t) ts \<Longrightarrow>
   paced cfg t0 l' \<and> (r = None \<and> ts \<noteq> [] \<and> sn_tick_every cfg \<noteq> 0 \<longrightarrow> tu_tick_check (last ts) < lo_last_tick l' + sn_tick_every cfg)"
proof (induction ts arbitrary: l)
  case (Cons t ts)
  show ?case
  proof (cases "tu_stop t \<or> cl_stopped cl (lo_app l)")
    case False
    then obtain l1 where l1: "on_records cl (tu_data t) l = Some l1" using Cons.prems(1) by (auto split: option.splits)
    have p1: "paced cfg t0 l1" "paced cfg t0 (refresh update t l1)"
      using on_records_paced [OF l1] Cons.prems(2) by (simp_all add: paced_def)
    note tk = tick_paced [OF p1(2), of t cl]
    show ?thesis
    proof (cases "tu_poll t = Poll_ok")
      case True
      then have "run_loop cl cfg update ts (tick cl cfg t (refresh update t l1)) = Some (r, l')"
        using Cons.prems(1) False l1 by simp
      from Cons.IH [OF this] tk this Cons.prems(3) show ?thesis by (cases "ts = []") auto
    next
      case not_ok: False
      then show ?thesis using Cons.prems(1) False l1 p1(1) by (auto split: poll_result.splits)
    qed
  qed (use Cons.prems in auto)
qed simp

text \<open>
  An idle host still reports in, and not more often than it should. Over any run with a clock that does not run backwards, each
  tick says how many sensors are active of how many there are; consecutive ticks are an interval apart, so there are at most as many as
  intervals have passed; and whenever a turn of the loop has been completed, the last tick is less than an interval before its check.
\<close>

theorem loop_reports_in:
  assumes "run_loop cl cfg update ts (loop_start s watched m t0 r0) = Some (r, l)"
    and "list_all (\<lambda>t. tu_tick_check t \<le> tu_tick_reset t) ts"
  shows "t0 + sn_tick_every cfg * length (ticks_of (lo_told l)) \<le> lo_last_tick l
    \<and> list_all (\<lambda>st. st_sensors_active st = sn_active cfg \<and> st_sensors_total st = sn_total cfg) (ticks_of (lo_told l))
    \<and> (r = None \<and> ts \<noteq> [] \<and> sn_tick_every cfg \<noteq> 0 \<longrightarrow> tu_tick_check (last ts) < lo_last_tick l + sn_tick_every cfg)"
proof -
  have "paced cfg t0 (loop_start s watched m t0 r0)" by (simp add: paced_def loop_start_def)
  from run_loop_paced [OF assms(1) this assms(2)] show ?thesis by (simp add: paced_def)
qed

section \<open>New homes\<close>

text \<open>
  What a trie may hold: entries of watches that are built in or of the home of some name; and what it must hold: an entry for
  every prefix the agent takes for watched.
\<close>

definition default_like :: "watch \<Rightarrow> bool" where
  "default_like w \<longleftrightarrow> (\<exists>n. CHR ''/'' \<notin> set n \<and> w \<in> set (default_watches (Some [n])))"

definition stocked :: "('m \<Rightarrow> u8 list \<Rightarrow> u32 option) \<Rightarrow> 'm \<Rightarrow> bool" where
  "stocked entries m \<longleftrightarrow> (\<forall>k v. entries m k = Some v \<longrightarrow> (\<exists>w. default_like w \<and> encode_key (w_prefix w) = Some k \<and> w_flags w = v))"

definition backed :: "('m \<Rightarrow> u8 list \<Rightarrow> u32 option) \<Rightarrow> string set \<Rightarrow> 'm \<Rightarrow> bool" where
  "backed entries watched m \<longleftrightarrow> (\<forall>p \<in> watched. \<forall>k. encode_key p = Some k \<longrightarrow> entries m k \<noteq> None)"

lemma default_watches_like: "dir_names homes \<Longrightarrow> w \<in> set (default_watches homes) \<Longrightarrow> default_like w"
  unfolding default_like_def
  by (cases homes) (fastforce simp: default_watches_def home_watches_def dir_names_def intro: exI [of _ "[]"])+

lemma like_comparable:
  assumes "default_like w" and "default_like w'" and "starts_with (w_prefix w) (w_prefix w')" and "w_prefix w \<noteq> ''/root/.ssh/''"
  shows "and (w_flags w) (w_flags w') = w_flags w"
proof -
  obtain n n' where n: "CHR ''/'' \<notin> set n" "w \<in> set (default_watches (Some [n]))" "CHR ''/'' \<notin> set n'" "w' \<in> set (default_watches (Some [n']))"
    using assms(1,2) unfolding default_like_def by blast
  have "dir_names (Some [n, n'])" using n by (simp add: dir_names_def)
  moreover have "w \<in> set (default_watches (Some [n, n']))" "w' \<in> set (default_watches (Some [n, n']))"
    using n by (auto simp: default_watches_def home_watches_def)
  ultimately show ?thesis using default_comparable assms(3,4) by blast
qed

lemma tick_keeps [simp]: "lo_map (tick cl cfg t l) = lo_map l" "lo_watched (tick cl cfg t l) = lo_watched l"
  by (simp_all add: tick_def)

lemma on_records_keep: "on_records cl ds l = Some l' \<Longrightarrow> lo_map l' = lo_map l \<and> lo_watched l' = lo_watched l"
  by (induction ds arbitrary: l) (auto simp: on_record_def bind_eq_Some_conv split: option.splits)

context lpm_trie
begin

definition in_order :: "string set \<Rightarrow> 'm \<Rightarrow> bool" where
  "in_order watched m \<longleftrightarrow> ok m \<and> stocked entries m \<and> backed entries watched m"

lemma populate_stocks:
  "ok m \<Longrightarrow> stocked entries m \<Longrightarrow> list_all default_like ws \<Longrightarrow> populate_watches update ws n m = (r, m') \<Longrightarrow>
   ok m' \<and> stocked entries m' \<and> (\<forall>k. entries m k \<noteq> None \<longrightarrow> entries m' k \<noteq> None)
   \<and> (\<forall>c. r = Inr c \<longrightarrow> backed entries (w_prefix ` set ws) m')"
proof (induction ws arbitrary: n m)
  case (Cons w ws)
  show ?case
  proof (cases "encode_key (w_prefix w)")
    case None
    then show ?thesis using Cons.IH [of m n] Cons.prems by (auto simp: backed_def)
  next
    case (Some k)
    show ?thesis
    proof (cases "update k (w_flags w) m")
      case None
      then show ?thesis using Cons.prems Some by auto
    next
      case up: (Some m1)
      note e = entries_update [OF Cons.prems(1) up]
      have "stocked entries m1" using Cons.prems(2,3) Some e by (auto simp: stocked_def)
      moreover have "populate_watches update ws (Suc n) m1 = (r, m')" using Cons.prems(4) Some up by simp
      ultimately show ?thesis using Cons.IH [of m1 "Suc n"] update_ok [OF Cons.prems(1) up] Cons.prems(3) Some e
        by (auto simp: backed_def)
    qed
  qed
qed (auto simp: backed_def)

lemma refresh_in_order:
  assumes "in_order (lo_watched l) (lo_map l)" and "dir_names (tu_homes t)"
  shows "in_order (lo_watched (refresh update t l)) (lo_map (refresh update t l))"
proof -
  let ?f = "fresh_watches (lo_watched l) (tu_homes t)"
  obtain r m' where p: "populate_watches update ?f 0 (lo_map l) = (r, m')" by fastforce
  have "list_all default_like ?f"
    using default_watches_like [OF assms(2)] by (auto simp: list_all_iff fresh_watches_def default_watches_def)
  with populate_stocks [OF _ _ _ p] assms(1) show ?thesis
    by (cases r) (auto simp: refresh_def refresh_watches_def Let_def p in_order_def backed_def)
qed

lemma run_loop_in_order:
  "run_loop cl cfg update ts l = Some (r, l') \<Longrightarrow> in_order (lo_watched l) (lo_map l) \<Longrightarrow> list_all (\<lambda>t. dir_names (tu_homes t)) ts \<Longrightarrow>
   in_order (lo_watched l') (lo_map l')"
proof (induction ts arbitrary: l)
  case (Cons t ts)
  show ?case
  proof (cases "tu_stop t \<or> cl_stopped cl (lo_app l)")
    case False
    then obtain l1 where l1: "on_records cl (tu_data t) l = Some l1" using Cons.prems(1) by (auto split: option.splits)
    have b1: "in_order (lo_watched l1) (lo_map l1)" using on_records_keep [OF l1] Cons.prems(2) by simp
    show ?thesis using Cons.IH [of "tick cl cfg t (refresh update t l1)"] refresh_in_order [OF b1, of t] b1 Cons.prems(1,3) False l1
      by (auto split: poll_result.splits)
  qed (use Cons.prems in auto)
qed simp

text \<open>In a trie that is in order, a watch that has its entry works, whatever more specific watch takes its place.\<close>

lemma in_order_reports:
  assumes ord: "in_order watched m" and like: "default_like w" and pw: "w_prefix w \<in> watched" and len: "length path < MAX_WATCH_PATH"
    and sw: "starts_with (w_prefix w) path" and ne: "w_prefix w \<noteq> ''/root/.ssh/''" and dir: "direction f_mode (w_flags w) \<noteq> 0"
  shows "watch_flags look m ids f_mode path fid \<noteq> 0"
proof -
  have m: "ok m" "stocked entries m" "backed entries watched m" using ord by (simp_all add: in_order_def)
  have sound: "\<exists>w. default_like w \<and> length (w_prefix w) < MAX_WATCH_PATH \<and> e = open_key (w_prefix w) \<and> w_flags w = v"
    if "entries m e = Some v" for e v
    using m(2) that unfolding stocked_def by (metis encode_key_Some)
  have whole: "whole_bytes (entries m)" unfolding whole_bytes_def using sound by (fastforce simp: key_bits_open)
  have "length (w_prefix w) \<le> length path" using sw by (auto simp: starts_with_iff)
  then have wl: "length (w_prefix w) < MAX_WATCH_PATH" using len by simp
  then have present: "entries m (open_key (w_prefix w)) \<noteq> None"
    using m(3) pw unfolding backed_def by (metis encode_key_Some)
  have "look m (open_key path) \<noteq> None"
    using look_None [OF m(1) whole, of "open_key path"] present covers_open [OF wl len] sw by blast
  then obtain v where v: "look m (open_key path) = Some v" by blast
  from look_Some [OF m(1) whole v] obtain e where e: "entries m e = Some v" "covers e (open_key path)"
    "\<And>e'. entries m e' \<noteq> None \<Longrightarrow> covers e' (open_key path) \<Longrightarrow> key_bits e' \<le> key_bits e" by blast
  from sound [OF e(1)] obtain w' where w': "default_like w'" "length (w_prefix w') < MAX_WATCH_PATH"
    "e = open_key (w_prefix w')" "w_flags w' = v" by blast
  have "length (w_prefix w) \<le> length (w_prefix w')"
    using e(3) [OF present] covers_open [OF wl len] sw w' wl by (simp add: key_bits_open)
  moreover have "starts_with (w_prefix w') path" using e(2) w' covers_open [OF w'(2) len] by simp
  ultimately have "starts_with (w_prefix w) (w_prefix w')" using prefixes_comparable [OF sw] by simp
  from direction_mono [OF dir like_comparable [OF like w'(1) this ne]] show ?thesis
    using v w'(4) by (simp add: watch_flags_def)
qed

end


definition idle_turn :: turn where
  "idle_turn = \<lparr>tu_stop = False, tu_data = [], tu_poll = Poll_ok, tu_refresh_check = 20 * 10 ^ 9, tu_refresh_reset = 20 * 10 ^ 9,
     tu_homes = Some [''bob''], tu_tick_check = 20 * 10 ^ 9, tu_tick_reset = 20 * 10 ^ 9, tu_look = (\<lambda>_. None)\<rparr>"

definition noting_caller :: "raw_event list caller" where
  "noting_caller = \<lparr>cl_event = (\<lambda>ev s. Some (True, s @ [ev])), cl_tick = (\<lambda>_ s. s), cl_stopped = (\<lambda>_. False)\<rparr>"

lemma example_raw_ok: "raw_ok (example_raw 1 [])"
  by (simp add: raw_ok_def example_raw_def TASK_COMM_LEN_def MAX_FILENAME_def MAX_ARGV_def MAX_CGROUP_NAME_def)

lemma example_raw_decodes: "from_bytes (raw_bytes (example_raw 1 [])) = Some (example_raw 1 [])"
  using from_bytes_raw [OF example_raw_ok, of "[]"] by simp

theorem loop_hands_on_witness:
  "\<exists>r l. run_loop noting_caller \<lparr>sn_tick_every = 0, sn_active = 5, sn_total = 13\<rparr> (\<lambda>_ _ (m :: nat). Some m)
      [idle_turn\<lparr>tu_data := [raw_bytes (example_raw 1 [])]\<rparr>] (loop_start [] {} 0 0 0) = Some (r, l)
    \<and> events_of (lo_told l) = [example_raw 1 []] \<and> lo_panics l = 1"
proof -
  let ?ts = "[idle_turn\<lparr>tu_data := [raw_bytes (example_raw 1 [])]\<rparr>]"
  obtain l where l: "run_loop noting_caller \<lparr>sn_tick_every = 0, sn_active = 5, sn_total = 13\<rparr> (\<lambda>_ _ (m :: nat). Some m) ?ts (loop_start [] {} 0 0 0) = Some (None, l)"
    and p: "lo_panics l = 1"
    by (simp add: idle_turn_def noting_caller_def on_record_def example_raw_decodes loop_start_def tick_def refresh_def case_prod_beta)
  from loop_hands_on [OF l] have "events_of (lo_told l) = List.map_filter from_bytes (concat (map tu_data ?ts))" by auto
  then show ?thesis using l p by (simp add: List.map_filter_def example_raw_decodes idle_turn_def)
qed

theorem loop_reports_in_witness:
  "\<exists>l. run_loop noting_caller \<lparr>sn_tick_every = 10 ^ 9, sn_active = 5, sn_total = 13\<rparr> (\<lambda>_ _ (m :: nat). Some m) [idle_turn] (loop_start [] {} 0 0 0) = Some (None, l)
     \<and> 20 * 10 ^ 9 < lo_last_tick l + 10 ^ 9"
proof -
  obtain l where l: "run_loop noting_caller \<lparr>sn_tick_every = 10 ^ 9, sn_active = 5, sn_total = 13\<rparr> (\<lambda>_ _ (m :: nat). Some m) [idle_turn] (loop_start [] {} 0 0 0) = Some (None, l)"
    by (simp add: idle_turn_def noting_caller_def loop_start_def)
  from loop_reports_in [OF l] l show ?thesis by (simp add: idle_turn_def)
qed

lemma populate_len:
  "hm_ok m \<Longrightarrow> populate_watches trie_update ws n m = (r, m') \<Longrightarrow> hm_ok m' \<and> hm_len m' \<le> hm_len m + length ws"
proof (induction ws arbitrary: n m)
  case (Cons w ws)
  show ?case
  proof (cases "encode_key (w_prefix w)")
    case None
    then show ?thesis using Cons.IH [of m n] Cons.prems by simp
  next
    case (Some k)
    show ?thesis
    proof (cases "trie_update k (w_flags w) m")
      case None
      then show ?thesis using Cons.prems Some by simp
    next
      case up: (Some m1)
      have "hm_ok m1" using tr.update_ok [OF Cons.prems(1) up] .
      moreover have "hm_len m1 \<le> Suc (hm_len m)" using up hm.len_insert_le [of m k "w_flags w"] Cons.prems(1) by (auto simp: trie_update_def split: if_splits)
      ultimately show ?thesis using Cons.IH [of m1 "Suc n"] Cons.prems(2) Some up by simp
    qed
  qed
qed simp


end
