(* ===== verification/RateLimit.thy ===== *)
theory RateLimit
  imports Hash_Map
begin

text \<open>
  Brute-force protection of the login endpoint (\<^verbatim>\<open>src/src/server/ratelimit.rs\<close>). An \<^verbatim>\<open>Instant\<close> is a
  number of nanoseconds on the monotonic clock; \<open>'ip\<close> stands for the address type. The order of the
  list is the (open) iteration order of the table.
\<close>

section \<open>Model\<close>

definition MAX_FAILURES :: u32 where "MAX_FAILURES = 5"
definition WINDOW :: nat where "WINDOW = 300 * 10 ^ 9"
definition LOCKOUT :: nat where "LOCKOUT = 900 * 10 ^ 9"
definition MAX_TRACKED :: nat where "MAX_TRACKED = 10000"

record attempt =
  at_failures :: u32
  at_first :: nat
  at_locked_until :: "nat option"

type_synonym 'ip limiter = "('ip, attempt) hm"

text \<open>Locked out at a moment; \<open>duration_since\<close> is zero for a moment that has not come yet.\<close>

definition locked_at :: "nat \<Rightarrow> attempt \<Rightarrow> bool" where
  "locked_at now a = (case at_locked_until a of None \<Rightarrow> False | Some u \<Rightarrow> u > now)"

definition locked_for :: "nat \<Rightarrow> 'ip \<Rightarrow> 'ip limiter \<Rightarrow> nat option" where
  "locked_for now ip seen =
     (case hm_get seen ip of None \<Rightarrow> None
      | Some a \<Rightarrow>
          (case at_locked_until a of None \<Rightarrow> None
           | Some until \<Rightarrow> if until > now then Some (max ((until - now) div 10 ^ 9) 1) else None))"

definition limiter_evict :: "nat \<Rightarrow> 'ip limiter \<Rightarrow> 'ip limiter" where
  "limiter_evict now seen =
     (let kept = hm_retain (\<lambda>_ a. locked_at now a \<or> now - at_first a \<le> WINDOW) seen
      in if hm_len kept > MAX_TRACKED then hm_retain (\<lambda>_ a. locked_at now a) kept else kept)"

definition count_failure :: "nat \<Rightarrow> attempt \<Rightarrow> attempt" where
  "count_failure now a0 =
     (let a = (if now - at_first a0 > WINDOW
               then a0\<lparr>at_failures := 0, at_first := now, at_locked_until := None\<rparr> else a0);
          n = at_failures a + 1
      in a\<lparr>at_failures := n,
           at_locked_until := (if n \<ge> MAX_FAILURES then Some (now + LOCKOUT) else at_locked_until a)\<rparr>)"

definition fresh_attempt :: "nat \<Rightarrow> attempt" where
  "fresh_attempt now = \<lparr>at_failures = 0, at_first = now, at_locked_until = None\<rparr>"

definition record_failure :: "nat \<Rightarrow> 'ip \<Rightarrow> 'ip limiter \<Rightarrow> nat option \<times> 'ip limiter" where
  "record_failure now ip seen0 =
     (let seen = limiter_evict now seen0;
          a = count_failure now (case hm_get seen ip of None \<Rightarrow> fresh_attempt now | Some a \<Rightarrow> a)
      in (if at_failures a \<ge> MAX_FAILURES then Some (LOCKOUT div 10 ^ 9) else None, hm_insert ip a seen))"

definition record_success :: "'ip \<Rightarrow> 'ip limiter \<Rightarrow> 'ip limiter" where
  "record_success ip seen = hm_remove ip seen"

text \<open>
  What the login handler does with the limiter: an address that is locked out is refused before its
  password is looked at; otherwise the outcome is recorded. The result is whether the password was looked at.
\<close>

definition guarded_login :: "nat \<Rightarrow> 'ip \<Rightarrow> bool \<Rightarrow> 'ip limiter \<Rightarrow> bool \<times> 'ip limiter" where
  "guarded_login now ip good seen =
     (case locked_for now ip seen of
        Some _ \<Rightarrow> (False, seen)
      | None \<Rightarrow> (True, if good then record_success ip seen else snd (record_failure now ip seen)))"

fun logins :: "(nat \<times> 'ip \<times> bool) list \<Rightarrow> 'ip limiter \<Rightarrow> (nat \<times> 'ip \<times> bool) list \<times> 'ip limiter" where
  \<comment> \<open>the attempts whose password was looked at, and the final table\<close>
  "logins [] seen = ([], seen)"
| "logins ((now, ip, good) # as) seen =
     (case guarded_login now ip good seen of
        (tried, seen') \<Rightarrow> (case logins as seen' of
          (ts, seen'') \<Rightarrow> ((if tried then [(now, ip, good)] else []) @ ts, seen'')))"

section \<open>A lockout holds\<close>

lemma limiter_ok:
  "hm_ok seen \<Longrightarrow> hm_ok (limiter_evict now seen)"
  "hm_ok seen \<Longrightarrow> hm_ok (snd (record_failure now ip seen))"
  "hm_ok seen \<Longrightarrow> hm_ok (record_success ip seen)"
  by (simp_all add: limiter_evict_def record_failure_def record_success_def Let_def)

lemma evict_keeps_locked:
  "hm_ok seen \<Longrightarrow> hm_get seen ip = Some a \<Longrightarrow> locked_at now a \<Longrightarrow> hm_get (limiter_evict now seen) ip = Some a"
  by (simp add: limiter_evict_def Let_def hm_get_retain)

lemma locked_for_iff: "locked_for now ip seen \<noteq> None \<longleftrightarrow> (\<exists>a. hm_get seen ip = Some a \<and> locked_at now a)"
  by (auto simp: locked_for_def locked_at_def split: option.splits)

lemma guarded_keeps_locked:
  assumes "hm_ok seen" and a: "hm_get seen ip = Some a" and "locked_at now a"
  shows "hm_get (snd (guarded_login now ip' good seen)) ip = Some a
    \<and> (ip' = ip \<longrightarrow> \<not> fst (guarded_login now ip' good seen)) \<and> hm_ok (snd (guarded_login now ip' good seen))"
proof (cases "ip' = ip")
  case True
  then have "locked_for now ip' seen \<noteq> None" using assms locked_for_iff by metis
  then show ?thesis using assms by (auto simp: guarded_login_def)
next
  case False
  then show ?thesis using assms evict_keeps_locked [OF assms]
    by (auto simp: guarded_login_def record_failure_def record_success_def Let_def limiter_ok split: option.splits)
qed

lemma logins_keep_locked:
  assumes "hm_ok seen" and "hm_get seen ip = Some a" and "at_locked_until a = Some u"
    and "list_all (\<lambda>(t, _). t < u) as" and "logins as seen = (tried, seen')"
  shows "hm_get seen' ip = Some a \<and> list_all (\<lambda>(_, ip', _). ip' \<noteq> ip) tried"
  using assms
proof (induction as arbitrary: seen tried)
  case (Cons x as)
  obtain t ip' good where x: "x = (t, ip', good)" by (cases x) auto
  obtain b s1 where g: "guarded_login t ip' good seen = (b, s1)" by fastforce
  obtain ts where l: "logins as s1 = (ts, seen')" using Cons.prems(5) by (auto simp: x g split: prod.splits)
  have "locked_at t a" using Cons.prems(3,4) by (simp add: locked_at_def x)
  note k = guarded_keeps_locked [OF Cons.prems(1,2) this, of ip' good, unfolded g]
  then have "hm_get seen' ip = Some a \<and> list_all (\<lambda>(_, ip', _). ip' \<noteq> ip) ts"
    using Cons.IH [OF _ _ Cons.prems(3) _ l] Cons.prems(4) by simp
  then show ?case using Cons.prems(5) k by (auto simp: x g l)
qed simp

lemma record_failure_locks:
  "record_failure now ip seen = (Some s, seen') \<Longrightarrow>
   s = 900 \<and> (\<exists>a. hm_get seen' ip = Some a \<and> at_locked_until a = Some (now + LOCKOUT))"
  by (auto simp: record_failure_def count_failure_def Let_def LOCKOUT_def split: if_splits)

text \<open>
  A lockout holds whatever the rest of the world does. Once an address has been locked out, none of its
  attempts is looked at for fifteen minutes, right passwords included, however many other addresses
  fail, succeed or overflow the table in the meantime.
\<close>

theorem lockout_holds:
  assumes "hm_ok seen" and "record_failure now ip seen = (Some s, seen1)"
    and "list_all (\<lambda>(t, _). t < now + 900 * 10 ^ 9) as" and "logins as seen1 = (tried, seen2)"
  shows "s = 900 \<and> list_all (\<lambda>(_, ip', _). ip' \<noteq> ip) tried
    \<and> (t < now + 900 * 10 ^ 9 \<longrightarrow> locked_for t ip seen2 \<noteq> None)"
proof -
  from record_failure_locks [OF assms(2)] obtain a where
    s: "s = 900" and a: "hm_get seen1 ip = Some a" "at_locked_until a = Some (now + LOCKOUT)" by blast
  have "hm_ok seen1" using limiter_ok(2) [OF assms(1), of now ip] assms(2) by simp
  from logins_keep_locked [OF this a _ assms(4)] assms(3)
  have "hm_get seen2 ip = Some a \<and> list_all (\<lambda>(_, ip', _). ip' \<noteq> ip) tried" by (simp add: LOCKOUT_def)
  then show ?thesis using s a locked_for_iff [of t ip seen2] by (auto simp: locked_at_def LOCKOUT_def)
qed

section \<open>Guessing is locked out\<close>

text \<open>
  Between two overflows of the table, and within the window of an address's first failure, its counter
  is exactly the number of its failed attempts that were looked at.
\<close>

definition counting :: "'ip \<Rightarrow> nat \<Rightarrow> nat \<Rightarrow> 'ip limiter \<Rightarrow> bool" where
  "counting ip t0 n seen = (\<exists>a. hm_get seen ip = Some a \<and> at_first a = t0 \<and> at_failures a = of_nat n
      \<and> at_locked_until a = None)"

lemma evict_small: "hm_ok seen \<Longrightarrow> hm_len seen \<le> MAX_TRACKED \<Longrightarrow> hm_get seen ip = Some a \<Longrightarrow>
    now - at_first a \<le> WINDOW \<Longrightarrow> hm_get (limiter_evict now seen) ip = Some a"
  using hm_len_retain_le [of "\<lambda>_ a. locked_at now a \<or> now - at_first a \<le> WINDOW" seen]
  by (auto simp: limiter_evict_def Let_def hm_get_retain)

lemma record_failure_counts:
  assumes "hm_ok seen" and "hm_len seen \<le> MAX_TRACKED" and "counting ip t0 n seen" and "now - t0 \<le> WINDOW"
  shows "hm_get (snd (record_failure now ip seen)) ip
      = Some \<lparr>at_failures = of_nat (Suc n), at_first = t0,
             at_locked_until = (if of_nat (Suc n) \<ge> MAX_FAILURES then Some (now + LOCKOUT) else None)\<rparr>"
    and "ip' \<noteq> ip \<Longrightarrow> counting ip t0 n (snd (record_failure now ip' seen))"
    and "ip' \<noteq> ip \<Longrightarrow> counting ip t0 n (record_success ip' seen)"
proof -
  from assms(3) obtain a where a: "hm_get seen ip = Some a" "at_first a = t0" "at_failures a = of_nat n"
    "at_locked_until a = None" by (auto simp: counting_def)
  have e: "hm_get (limiter_evict now seen) ip = Some a" using evict_small [OF assms(1,2) a(1)] assms(4) a(2) by simp
  show "hm_get (snd (record_failure now ip seen)) ip
      = Some \<lparr>at_failures = of_nat (Suc n), at_first = t0,
             at_locked_until = (if of_nat (Suc n) \<ge> MAX_FAILURES then Some (now + LOCKOUT) else None)\<rparr>"
    using e a assms(4) by (simp add: record_failure_def count_failure_def Let_def add.commute)
  show "ip' \<noteq> ip \<Longrightarrow> counting ip t0 n (snd (record_failure now ip' seen))"
    using e a by (auto simp: record_failure_def counting_def Let_def)
  show "ip' \<noteq> ip \<Longrightarrow> counting ip t0 n (record_success ip' seen)"
    using a by (auto simp: record_success_def counting_def)
qed

lemma guarded_keys:
  "hm_get (snd (guarded_login now ip good seen)) k \<noteq> None \<Longrightarrow> hm_ok seen \<Longrightarrow> k = ip \<or> hm_get seen k \<noteq> None"
  by (auto simp: guarded_login_def record_failure_def record_success_def limiter_evict_def Let_def hm_get_retain
      split: option.splits if_splits)

lemma guarded_ok: "hm_ok seen \<Longrightarrow> hm_ok (snd (guarded_login now ip good seen))"
  by (simp add: guarded_login_def limiter_ok split: option.splits)

abbreviation by_ip :: "'ip \<Rightarrow> (nat \<times> 'ip \<times> bool) list \<Rightarrow> (nat \<times> 'ip \<times> bool) list" where
  "by_ip ip \<equiv> filter (\<lambda>(_, i, _). i = ip)"

text \<open>The three situations of an address inside one window: no failure yet, counting, locked out.\<close>

definition phase :: "'ip \<Rightarrow> nat \<Rightarrow> nat \<Rightarrow> 'ip limiter \<Rightarrow> bool" where
  "phase ip T n seen =
     (if n = 0 then hm_get seen ip = None
      else if n < 5 then \<exists>t0. T \<le> t0 \<and> counting ip t0 n seen
      else \<exists>a u. hm_get seen ip = Some a \<and> at_locked_until a = Some u \<and> T + WINDOW < u)"

lemma record_failure_first:
  "hm_ok seen \<Longrightarrow> hm_get seen ip = None \<Longrightarrow> counting ip now 1 (snd (record_failure now ip seen))"
  by (simp add: record_failure_def count_failure_def fresh_attempt_def counting_def limiter_evict_def Let_def
      hm_get_retain MAX_FAILURES_def word_le_nat_alt)

lemma absent_stays_absent:
  assumes "hm_ok seen" and "hm_get seen ip = None" and "ip' \<noteq> ip"
  shows "hm_get (snd (guarded_login now ip' good seen)) ip = None"
  using guarded_keys [OF _ assms(1)] assms(2,3) by metis

lemma phase_step:
  assumes ok: "hm_ok seen" and len: "hm_len seen \<le> MAX_TRACKED" and ph: "phase ip T n seen" and n: "n \<le> 5"
    and t: "T \<le> now" "now \<le> T + WINDOW" and good: "ip' = ip \<longrightarrow> \<not> good"
  shows "if ip' = ip then fst (guarded_login now ip' good seen) = (n < 5)
            \<and> phase ip T (min 5 (Suc n)) (snd (guarded_login now ip' good seen))
         else phase ip T n (snd (guarded_login now ip' good seen))"
proof -
  consider (absent) "n = 0" "hm_get seen ip = None"
    | (count) t0 where "0 < n" "n < 5" "T \<le> t0" "counting ip t0 n seen"
    | (locked) a u where "n = 5" "hm_get seen ip = Some a" "at_locked_until a = Some u" "T + WINDOW < u"
    using ph n by (auto simp: phase_def split: if_splits)
  then show ?thesis
  proof cases
    case absent
    then show ?thesis using record_failure_first [OF ok absent(2), of now] absent_stays_absent [OF ok absent(2)] good t(1)
      by (auto simp: phase_def guarded_login_def locked_for_def)
  next
    case count
    have free: "locked_for now ip seen = None" using count(4) by (auto simp: counting_def locked_for_def)
    have win: "now - t0 \<le> WINDOW" using t count(3) by simp
    note rc = record_failure_counts [OF ok len count(4) win]
    show ?thesis
    proof (cases "ip' = ip")
      case True
      have "n \<in> {1, 2, 3, 4}" using count(1,2) by auto
      then show ?thesis using True good free rc(1) count t
        by (auto simp: guarded_login_def phase_def counting_def MAX_FAILURES_def LOCKOUT_def WINDOW_def)
    next
      case False
      then show ?thesis using rc(2,3) count
        by (auto simp: guarded_login_def phase_def split: option.splits)
    qed
  next
    case locked
    then have "locked_at now a" using t(2) by (simp add: locked_at_def)
    from guarded_keeps_locked [OF ok locked(2) this] locked show ?thesis by (auto simp: phase_def)
  qed
qed

lemma logins_phase:
  assumes "hm_ok seen" and "phase ip T n seen" and "n \<le> 5" and "finite A" and "card A \<le> MAX_TRACKED"
    and "\<And>k. hm_get seen k \<noteq> None \<Longrightarrow> k \<in> A"
    and "list_all (\<lambda>(t, i, good). T \<le> t \<and> t \<le> T + WINDOW \<and> i \<in> A \<and> (i = ip \<longrightarrow> \<not> good)) as"
  shows "length (by_ip ip (fst (logins as seen))) = min (5 - n) (length (by_ip ip as))"
  using assms
proof (induction as arbitrary: seen n)
  case (Cons x as)
  obtain t i good where x: "x = (t, i, good)" by (cases x) auto
  obtain b s1 where g: "guarded_login t i good seen = (b, s1)" by fastforce
  obtain ts s2 where l: "logins as s1 = (ts, s2)" by fastforce
  have len: "hm_len seen \<le> MAX_TRACKED"
    using hm_len_le_card [OF Cons.prems(1,4)] Cons.prems(5,6) by (metis le_trans option.distinct(1))
  note st = phase_step [OF Cons.prems(1) len Cons.prems(2,3), of t i good, unfolded g]
  have ok: "hm_ok s1" using guarded_ok [OF Cons.prems(1), of t i good] g by simp
  have keys: "k \<in> A" if "hm_get s1 k \<noteq> None" for k
    using guarded_keys [of t i good seen k] that Cons.prems(1,6,7) by (auto simp: g x)
  have rest: "list_all (\<lambda>(t, i, good). T \<le> t \<and> t \<le> T + WINDOW \<and> i \<in> A \<and> (i = ip \<longrightarrow> \<not> good)) as"
    using Cons.prems(7) by simp
  have eq: "fst (logins (x # as) seen) = (if b then [x] else []) @ ts" by (simp add: x g l)
  note IH = Cons.IH [OF ok _ _ Cons.prems(4,5) keys rest]
  show ?case
  proof (cases "i = ip")
    case True
    then have "b = (n < 5)" "phase ip T (min 5 (Suc n)) s1" using st Cons.prems(7) by (auto simp: x)
    then show ?thesis using IH [of "min 5 (Suc n)"] True Cons.prems(3) unfolding eq by (auto simp: x l min_def)
  next
    case False
    then show ?thesis using IH [of n] st Cons.prems(3,7) unfolding eq by (auto simp: x l)
  qed
qed simp



theorem lockout_holds_witness:
  "\<exists>seen1. record_failure 90 (7::nat) [(7, \<lparr>at_failures = 4, at_first = 5, at_locked_until = None\<rparr>)] = (Some 900, seen1)
    \<and> locked_for 99 7 (snd (logins [(95, 7, True), (96, 8, False)] seen1)) \<noteq> None"
proof -
  let ?s = "[(7::nat, \<lparr>at_failures = 4, at_first = 5, at_locked_until = None\<rparr>)]"
  obtain r s1 where r: "record_failure 90 7 ?s = (r, s1)" by fastforce
  have c: "counting 7 5 4 ?s" by (simp add: counting_def hm_get_def)
  have f: "fst (record_failure 90 (7::nat) ?s) = Some 900"
    by (simp add: record_failure_def count_failure_def limiter_evict_def hm_retain_def hm_len_def hm_get_def locked_at_def
        Let_def WINDOW_def MAX_FAILURES_def MAX_TRACKED_def LOCKOUT_def)
  have r9: "record_failure 90 7 ?s = (Some 900, s1)" using r f by simp
  obtain tr s2 where l: "logins [(95, 7, True), (96, 8, False)] s1 = (tr, s2)" by fastforce
  have "locked_for 99 7 s2 \<noteq> None"
    using lockout_holds [OF _ r9 _ l, of 99] by (simp add: hm_ok_def)
  then show ?thesis using r9 l by auto
qed

end
