(* ===== verification/Keys.thy ===== *)
theory Keys
  imports Session
begin

text \<open>
  Per-agent ingest keys (\<^verbatim>\<open>src/src/server/keys.rs\<close>): the keys file and the resolution of a presented
  key to its host. The file's text and its mode are parameters; the group warning is output only.
\<close>

section \<open>Model\<close>

datatype key_error = Unreadable | World_readable | Already_bound nat string | Bad_line nat | No_entries

type_synonym agent_keys = "(string, string) hm"

datatype key_line = Skip | Bind string string | Malformed

definition key_line_of :: "string \<Rightarrow> key_line" where
  "key_line_of line =
     (if trim line = [] \<or> starts_with ''#'' (trim line) then Skip
      else (case split_whitespace (trim line) of h # k # _ \<Rightarrow> if k \<noteq> [] then Bind h k else Malformed | _ \<Rightarrow> Malformed))"

fun load_lines :: "nat \<Rightarrow> string list \<Rightarrow> agent_keys \<Rightarrow> key_error + agent_keys" where
  "load_lines n [] ks = Inr ks"
| "load_lines n (line # ls) ks =
     (case key_line_of line of
        Skip \<Rightarrow> load_lines (Suc n) ls ks
      | Malformed \<Rightarrow> Inl (Bad_line (Suc n))
      | Bind h k \<Rightarrow>
          (case hm_get ks k of
             Some first \<Rightarrow> Inl (Already_bound (Suc n) first)
           | None \<Rightarrow> load_lines (Suc n) ls (hm_insert k h ks)))"

definition keys_load :: "string option \<Rightarrow> u32 option \<Rightarrow> key_error + agent_keys" where
  "keys_load content mode =
     (case content of None \<Rightarrow> Inl Unreadable
      | Some s \<Rightarrow>
          if (case mode of None \<Rightarrow> False | Some m \<Rightarrow> and (and m 0x1FF) 4 \<noteq> 0) then Inl World_readable
          else (case load_lines 0 (lines s) hm_empty of
                  Inl e \<Rightarrow> Inl e
                | Inr ks \<Rightarrow> if ks = hm_empty then Inl No_entries else Inr ks))"

definition keys_resolve :: "string \<Rightarrow> agent_keys \<Rightarrow> string option" where
  "keys_resolve presented ks = fold (\<lambda>(key, host) found. if ct_eq key presented then Some host else found) ks None"

section \<open>A key determines its host\<close>

lemma resolve_is_get: "hm_ok ks \<Longrightarrow> keys_resolve k ks = hm_get ks k"
proof -
  assume ok: "hm_ok ks"
  have "fold (\<lambda>(key, host) found. if ct_eq key k then Some host else found) xs acc
      = (case map_of (rev xs) k of None \<Rightarrow> acc | Some h \<Rightarrow> Some h)" for xs :: agent_keys and acc
    by (induction xs arbitrary: acc) (auto simp: ct_eq_iff map_add_def split: option.splits)
  moreover have "map_of (rev ks) = map_of ks" 
    using ok map_of_inject_set [of "rev ks" ks] by (simp add: hm_ok_def rev_map [symmetric])
  ultimately show ?thesis by (simp add: keys_resolve_def hm_get_def split: option.splits)
qed

definition line_keys :: "string \<Rightarrow> string list" where
  "line_keys l = (case key_line_of l of Bind h k \<Rightarrow> [k] | _ \<Rightarrow> [])"

lemma load_lines_facts:
  "load_lines n ls ks = Inr ks' \<Longrightarrow> hm_ok ks \<Longrightarrow>
   hm_ok ks' \<and> (\<forall>h k. hm_get ks' k = Some h \<longleftrightarrow> hm_get ks k = Some h \<or> (\<exists>l \<in> set ls. key_line_of l = Bind h k))
   \<and> distinct (concat (map line_keys ls)) \<and> (\<forall>k \<in> set (concat (map line_keys ls)). hm_get ks k = None)"
proof (induction n ls ks rule: load_lines.induct)
  case (2 n line ls ks)
  show ?case
  proof (cases "key_line_of line")
    case Skip
    then show ?thesis using 2 by (simp add: line_keys_def)
  next
    case (Bind h k)
    then have new: "hm_get ks k = None" using 2(3) by (cases "hm_get ks k") simp_all
    have l: "load_lines (Suc n) ls (hm_insert k h ks) = Inr ks'" using 2(3) Bind new by simp
    have ok: "hm_ok (hm_insert k h ks)" using 2(4) by simp
    note IH = 2(2) [OF Bind new l ok]
    have lk: "line_keys line = [k]" by (simp add: line_keys_def Bind)
    have notin: "k \<notin> set (concat (map line_keys ls))" using IH by (metis hm_get_insert option.distinct(1))
    have old: "hm_get ks k' = None" if "k' \<in> set (concat (map line_keys ls))" for k'
      using IH that notin by (metis hm_get_insert)
    have "hm_get ks' k' = Some h' \<longleftrightarrow> hm_get ks k' = Some h' \<or> (\<exists>l \<in> set (line # ls). key_line_of l = Bind h' k')" for h' k'
      using IH new Bind by (cases "k' = k") auto
    then show ?thesis using IH notin old new by (simp add: lk)
  qed (use 2 in simp)
qed simp

text \<open>
  C30 (functional): A key stands for one host. When the keys file is accepted it is not world-readable, no key in it is
  bound twice, and a presented key resolves to a host exactly if a line of the file binds it to that host.
\<close>

theorem keys_exact:
  assumes "keys_load content mode = Inr ks"
  shows "\<exists>s. content = Some s \<and> (mode = None \<or> (\<exists>m. mode = Some m \<and> \<not> bit m 2))
    \<and> distinct (concat (map line_keys (lines s)))
    \<and> (\<forall>k h. keys_resolve k ks = Some h \<longleftrightarrow> (\<exists>l \<in> set (lines s). key_line_of l = Bind h k))"
proof -
  obtain s where s: "content = Some s" using assms by (cases content) (simp_all add: keys_load_def)
  have l: "load_lines 0 (lines s) hm_empty = Inr ks"
    using assms by (auto simp: keys_load_def s split: if_splits sum.splits)
  note f = load_lines_facts [OF l hm_ok_empty]
  have "\<not> bit m 2" if "mode = Some m" for m
  proof -
    have "and (and m 0x1FF) 4 = 0" using assms that by (auto simp: keys_load_def s split: if_splits)
    moreover have "bit (and (and m 0x1FF) (4 :: u32)) 2 = bit m 2"
      by (simp add: bit_and_iff)
    ultimately show ?thesis by simp
  qed
  then show ?thesis using f resolve_is_get [of ks] s by (cases mode) simp_all
qed

theorem keys_exact_witness:
  "\<exists>ks. keys_load (Some ''a k1'') (Some 0x180) = Inr ks \<and> keys_resolve ''k1'' ks = Some ''a'' \<and> keys_resolve ''a'' ks = None"
proof -
  have k: "key_line_of ''a k1'' = Bind ''a'' ''k1''"
  proof -
    have t: "trim ''a k1'' = ''a k1''" by (rule trim_plain) (simp_all add: plain_char_def)
    have "split_whitespace (join '' '' [''a'', ''k1'']) = [''a'', ''k1'']"
      by (rule split_whitespace_join) (simp add: plain_char_def)
    then show ?thesis by (simp add: key_line_of_def t starts_with_def)
  qed
  have ls: "lines ''a k1'' = [''a k1'']" by (simp add: lines_def strip_suffix_def strip_prefix_def starts_with_def)
  obtain ks where ks: "keys_load (Some ''a k1'') (Some 0x180) = Inr ks"
    by (simp add: keys_load_def ls k hm_get_def hm_empty_def hm_insert_def)
  have "\<forall>k' h. keys_resolve k' ks = Some h \<longleftrightarrow> key_line_of ''a k1'' = Bind h k'"
    using keys_exact [OF ks] ls by auto
  then have r: "keys_resolve k' ks = Some h \<longleftrightarrow> h = ''a'' \<and> k' = ''k1''" for k' h by (simp only: k) auto
  have "keys_resolve ''a'' ks = None" using r [of "''a''"] by (cases "keys_resolve ''a'' ks") auto
  then show ?thesis using ks r by auto
qed

end
