(* ===== verification/Store.thy ===== *)
theory Store
  imports Session Wire
begin

text \<open>
  The fleet server's store (\<^verbatim>\<open>src/src/server/store.rs\<close>): the bounded working set in memory, the
  SQLite journal beside it, liveness, triage, the baselines operators teach, and the user accounts.

  The SQL statements of the source are translated into list operations on the tables; the tables hold
  what this program writes. An SQL integer is a signed 64-bit value, so a stored \<^verbatim>\<open>u64\<close> is read back by
  reinterpretation. A statement fails only by violating a key, which is what the source's ignored
  errors are about; a failing disk is not modelled. Parsing and printing JSON (\<^verbatim>\<open>serde_json\<close>), password
  hashing (\<^verbatim>\<open>argon2\<close>), random bytes and the wall clock (in seconds) are parameters.
\<close>

section \<open>Looking into JSON values\<close>

definition get_str :: "string \<Rightarrow> json \<Rightarrow> string option" where
  "get_str k v = Option.bind (json_get k v) as_str"

definition get_u64 :: "string \<Rightarrow> json \<Rightarrow> u64 option" where
  "get_u64 k v = Option.bind (json_get k v) as_u64"

definition get_bool :: "string \<Rightarrow> json \<Rightarrow> bool option" where
  "get_bool k v = Option.bind (json_get k v) as_bool"

definition unwrap_or :: "'a \<Rightarrow> 'a option \<Rightarrow> 'a" where
  "unwrap_or d x = (case x of None \<Rightarrow> d | Some v \<Rightarrow> v)"

definition field_str :: "json \<Rightarrow> string \<Rightarrow> string \<Rightarrow> string" where
  "field_str v k d = unwrap_or d (get_str k v)"

definition subject_comm :: "json \<Rightarrow> string" where
  "subject_comm v = unwrap_or [] (Option.bind (json_get ''subject'' v) (get_str ''comm''))"

text \<open>\<^verbatim>\<open>as_object_mut\<close> and \<^verbatim>\<open>insert\<close>: only an object is extended.\<close>

fun json_insert :: "(string \<times> json) list \<Rightarrow> json \<Rightarrow> json" where
  "json_insert kvs (JObj kvs0) = JObj (fold (\<lambda>(k, v). AList.update k v) kvs kvs0)"
| "json_insert kvs v = v"

section \<open>State\<close>

record stored_incident =
  si_id :: u64
  si_severity :: string
  si_score :: u32
  si_record :: json
  si_received :: u64
  si_resolved :: bool
  si_resolved_by :: string
  si_resolved_at :: u64
  si_note :: string

record host_state =
  hs_incidents :: "stored_incident list"
  hs_last_seen :: u64
  hs_kernel :: string
  hs_ip :: string
  hs_first_seen :: u64
  hs_last_heartbeat :: u64
  hs_agent_version :: string
  hs_uptime_secs :: u64
  hs_attestation_misses :: u64
  hs_events :: u64
  hs_drops :: u64
  hs_decode_panics :: u64
  hs_sensors_verified :: "bool option"
  hs_sensors_active :: u32
  hs_sensors_total :: u32

definition host_default :: host_state where
  "host_default = \<lparr>hs_incidents = [], hs_last_seen = 0, hs_kernel = [], hs_ip = [], hs_first_seen = 0,
     hs_last_heartbeat = 0, hs_agent_version = [], hs_uptime_secs = 0, hs_attestation_misses = 0, hs_events = 0,
     hs_drops = 0, hs_decode_panics = 0, hs_sensors_verified = None, hs_sensors_active = 0, hs_sensors_total = 0\<rparr>"

text \<open>The tables of the journal.\<close>

record incident_row =
  rw_id :: int
  rw_host :: string
  rw_kernel :: string
  rw_ip :: string
  rw_received :: int
  rw_severity :: string
  rw_score :: int
  rw_record :: string
  rw_resolved :: int
  rw_resolved_by :: string
  rw_resolved_at :: int
  rw_note :: string

record host_row =
  hr_host :: string
  hr_first_seen :: int
  hr_last_seen :: int
  hr_last_heartbeat :: int
  hr_kernel :: string
  hr_ip :: string
  hr_agent_version :: string
  hr_uptime_secs :: int
  hr_events :: int
  hr_drops :: int
  hr_decode_panics :: int
  hr_sensors_verified :: "int option"
  hr_attestation_misses :: int
  hr_sensors_active :: int
  hr_sensors_total :: int

record expected_row =
  ex_host :: string
  ex_signal :: string
  ex_exe :: string
  ex_count :: int
  ex_first_ns :: int
  ex_last_ns :: int
  ex_added_by :: string
  ex_added_at :: int

record user_row =
  us_username :: string
  us_pw_hash :: string
  us_role :: string
  us_created_at :: int

record db =
  db_version :: int
  db_incidents :: "incident_row list"
  db_hosts :: "host_row list"
  db_expected :: "expected_row list"
  db_users :: "user_row list"
  db_secret :: "string option"

record store =
  so_hosts :: "(string, host_state) hm"
  so_db :: "db option"
  so_next_id :: u64
  so_since_prune :: u64
  so_retain_days :: u64

definition STALE_AFTER_SECS :: u64 where "STALE_AFTER_SECS = INTERVAL_SECS * 3"
definition SILENT_AFTER_SECS :: u64 where "SILENT_AFTER_SECS = INTERVAL_SECS * 10"
definition MAX_PER_HOST :: nat where "MAX_PER_HOST = 500"
definition SCHEMA_VERSION :: int where "SCHEMA_VERSION = 4"
definition MAX_STORED_INCIDENTS :: nat where "MAX_STORED_INCIDENTS = 200000"
definition PRUNE_EVERY :: u64 where "PRUNE_EVERY = 500"

text \<open>\<^verbatim>\<open>x as i64\<close> and back.\<close>

definition i64 :: "u64 \<Rightarrow> int" where "i64 w = sint w"
definition u64 :: "int \<Rightarrow> u64" where "u64 i = of_int i"
definition u32 :: "int \<Rightarrow> u32" where "u32 i = of_int i"

section \<open>Liveness and bands\<close>

definition agent_status :: "host_state \<Rightarrow> u64 \<Rightarrow> string" where
  "agent_status st now =
     (if hs_sensors_verified st = Some False then ''blind''
      else if hs_last_heartbeat st = 0 then ''unknown''
      else let d = saturating_sub now (hs_last_heartbeat st)
           in if d \<le> STALE_AFTER_SECS then ''live'' else if d \<le> SILENT_AFTER_SECS then ''stale'' else ''silent'')"

definition band :: "u32 \<Rightarrow> string" where
  "band s = (if s = 0 then ''OK'' else if s \<le> 24 then ''INFO'' else if s \<le> 49 then ''LOW''
     else if s \<le> 74 then ''MEDIUM'' else if s \<le> 89 then ''HIGH'' else ''CRITICAL'')"

section \<open>Pruning\<close>

definition row_order :: "incident_row list \<Rightarrow> incident_row list" where
  \<comment> \<open>\<^verbatim>\<open>ORDER BY received ASC, id ASC\<close>\<close>
  "row_order rows = sort_key rw_received (sort_key rw_id rows)"

definition prune_rows :: "u64 \<Rightarrow> u64 \<Rightarrow> incident_row list \<Rightarrow> incident_row list" where
  "prune_rows now retain_days rows0 =
     (let rows = (if retain_days > 0
                  then filter (\<lambda>r. \<not> rw_received r < i64 (saturating_sub now (retain_days * 86400))) rows0 else rows0);
          total = length rows
      in if total > MAX_STORED_INCIDENTS
         then filter (\<lambda>r. rw_id r \<notin> set (map rw_id (take (total - MAX_STORED_INCIDENTS) (row_order rows)))) rows
         else rows)"

definition prune :: "u64 \<Rightarrow> u64 \<Rightarrow> db \<Rightarrow> db" where
  "prune now retain_days d = d\<lparr>db_incidents := prune_rows now retain_days (db_incidents d)\<rparr>"

definition maybe_prune :: "u64 \<Rightarrow> store \<Rightarrow> store" where
  "maybe_prune now s =
     (case so_db s of None \<Rightarrow> s
      | Some d \<Rightarrow>
          let n = so_since_prune s + 1
          in if n < PRUNE_EVERY then s\<lparr>so_since_prune := n\<rparr>
             else s\<lparr>so_since_prune := 0, so_db := Some (prune now (so_retain_days s) d)\<rparr>)"

section \<open>Ingest\<close>

definition push_incident :: "string \<Rightarrow> string \<Rightarrow> u64 \<Rightarrow> stored_incident \<Rightarrow> host_state \<Rightarrow> host_state" where
  "push_incident kern ip now inc st =
     (let incs = hs_incidents st @ [inc]
      in st\<lparr>hs_last_seen := max (hs_last_seen st) now,
            hs_kernel := (if kern \<noteq> [] then kern else hs_kernel st),
            hs_ip := (if ip \<noteq> [] then ip else hs_ip st),
            hs_incidents := (if length incs > MAX_PER_HOST then drop (length incs - MAX_PER_HOST) incs else incs)\<rparr>)"

definition apply_incident :: "string \<Rightarrow> string \<Rightarrow> string \<Rightarrow> u64 \<Rightarrow> stored_incident \<Rightarrow> store \<Rightarrow> store" where
  "apply_incident host kern ip now inc s =
     s\<lparr>so_hosts := hm_entry host host_default (push_incident kern ip now inc) (so_hosts s)\<rparr>"

definition incident_of :: "u64 \<Rightarrow> u64 \<Rightarrow> json \<Rightarrow> stored_incident" where
  "incident_of i now v =
     \<lparr>si_id = i, si_severity = unwrap_or ''INFO'' (get_str ''severity'' v),
      si_score = ucast (unwrap_or 0 (get_u64 ''score'' v)), si_record = v, si_received = now,
      si_resolved = False, si_resolved_by = [], si_resolved_at = 0, si_note = []\<rparr>"

definition insert_row :: "incident_row \<Rightarrow> incident_row list \<Rightarrow> incident_row list" where
  \<comment> \<open>the primary key refuses a second row of the same id\<close>
  "insert_row r rows = (if rw_id r \<in> set (map rw_id rows) then rows else rows @ [r])"

definition ingest :: "(json \<Rightarrow> string) \<Rightarrow> u64 \<Rightarrow> string \<Rightarrow> string \<Rightarrow> string \<Rightarrow> json \<Rightarrow> store \<Rightarrow> store" where
  "ingest print now host kern ip v s0 =
     (let i = so_next_id s0;
          inc = incident_of i now v;
          s = maybe_prune now (s0\<lparr>so_next_id := i + 1\<rparr>);
          row = \<lparr>rw_id = i64 i, rw_host = host, rw_kernel = kern, rw_ip = ip, rw_received = i64 now,
                 rw_severity = si_severity inc, rw_score = uint (si_score inc), rw_record = print v,
                 rw_resolved = 0, rw_resolved_by = [], rw_resolved_at = 0, rw_note = []\<rparr>
      in apply_incident host kern ip now inc
           (s\<lparr>so_db := map_option (\<lambda>d. d\<lparr>db_incidents := insert_row row (db_incidents d)\<rparr>) (so_db s)\<rparr>))"

section \<open>Heartbeats\<close>

definition beat :: "string \<Rightarrow> string \<Rightarrow> u64 \<Rightarrow> heartbeat_record \<Rightarrow> host_state \<Rightarrow> host_state" where
  "beat kern ip now hb st =
     st\<lparr>hs_first_seen := (if hs_first_seen st = 0 then now else hs_first_seen st),
        hs_last_seen := max (hs_last_seen st) now, hs_last_heartbeat := now,
        hs_agent_version := hb_agent_version hb, hs_uptime_secs := hb_uptime_secs hb, hs_events := hb_events hb,
        hs_drops := hb_drops hb, hs_decode_panics := hb_decode_panics hb, hs_sensors_verified := hb_sensors_verified hb,
        hs_attestation_misses := hb_attestation_misses hb,
        hs_sensors_active := (if hb_sensors_total hb > 0 then hb_sensors_active hb else hs_sensors_active st),
        hs_sensors_total := (if hb_sensors_total hb > 0 then hb_sensors_total hb else hs_sensors_total st),
        hs_kernel := (if kern \<noteq> [] then kern else hs_kernel st),
        hs_ip := (if ip \<noteq> [] then ip else hs_ip st)\<rparr>"

definition beat_row :: "string \<Rightarrow> u64 \<Rightarrow> heartbeat_record \<Rightarrow> host_state \<Rightarrow> host_row" where
  "beat_row host now hb st =
     \<lparr>hr_host = host, hr_first_seen = i64 (hs_first_seen st), hr_last_seen = i64 now, hr_last_heartbeat = i64 now,
      hr_kernel = hs_kernel st, hr_ip = hs_ip st, hr_agent_version = hb_agent_version hb,
      hr_uptime_secs = i64 (hb_uptime_secs hb), hr_events = i64 (hb_events hb), hr_drops = i64 (hb_drops hb),
      hr_decode_panics = i64 (hb_decode_panics hb),
      hr_sensors_verified = map_option (\<lambda>b. if b then 1 else 0) (hb_sensors_verified hb),
      hr_attestation_misses = i64 (hb_attestation_misses hb), hr_sensors_active = uint (hs_sensors_active st),
      hr_sensors_total = uint (hs_sensors_total st)\<rparr>"

definition upsert_host :: "host_row \<Rightarrow> host_row list \<Rightarrow> host_row list" where
  \<comment> \<open>\<^verbatim>\<open>ON CONFLICT(host) DO UPDATE\<close> leaves \<^verbatim>\<open>first_seen\<close> alone\<close>
  "upsert_host r rows =
     (if hr_host r \<in> set (map hr_host rows)
      then map (\<lambda>q. if hr_host q = hr_host r then r\<lparr>hr_first_seen := hr_first_seen q\<rparr> else q) rows
      else rows @ [r])"

definition store_heartbeat :: "u64 \<Rightarrow> string \<Rightarrow> string \<Rightarrow> string \<Rightarrow> heartbeat_record \<Rightarrow> store \<Rightarrow> store" where
  "store_heartbeat now host kern ip hb s =
     (let st = beat kern ip now hb (unwrap_or host_default (hm_get (so_hosts s) host))
      in s\<lparr>so_hosts := hm_insert host st (so_hosts s),
           so_db := map_option (\<lambda>d. d\<lparr>db_hosts := upsert_host (beat_row host now hb st) (db_hosts d)\<rparr>) (so_db s)\<rparr>)"

section \<open>Triage\<close>

definition touch :: "u64 \<Rightarrow> string \<Rightarrow> string option \<Rightarrow> bool option \<Rightarrow> stored_incident \<Rightarrow> stored_incident" where
  "touch now by_user note resolved inc =
     inc\<lparr>si_note := unwrap_or (si_note inc) note, si_resolved := unwrap_or (si_resolved inc) resolved,
         si_resolved_by := by_user, si_resolved_at := now\<rparr>"

definition touch_row :: "u64 \<Rightarrow> string \<Rightarrow> string option \<Rightarrow> bool option \<Rightarrow> incident_row \<Rightarrow> incident_row" where
  "touch_row now by_user note resolved r =
     r\<lparr>rw_note := unwrap_or (rw_note r) note,
       rw_resolved := unwrap_or (rw_resolved r) (map_option (\<lambda>b. if b then 1 else 0) resolved),
       rw_resolved_by := by_user, rw_resolved_at := i64 now\<rparr>"

text \<open>\<^verbatim>\<open>iter_mut().find(..)\<close>: the first match is updated in place.\<close>

fun update_first :: "('a \<Rightarrow> bool) \<Rightarrow> ('a \<Rightarrow> 'a) \<Rightarrow> 'a list \<Rightarrow> 'a list option" where
  "update_first P f [] = None"
| "update_first P f (x # xs) = (if P x then Some (f x # xs) else map_option (\<lambda>ys. x # ys) (update_first P f xs))"

definition triage :: "u64 \<Rightarrow> string \<Rightarrow> u64 \<Rightarrow> string \<Rightarrow> string option \<Rightarrow> bool option \<Rightarrow> store \<Rightarrow> bool \<times> store" where
  "triage now host i by_user note resolved s =
     (case hm_get (so_hosts s) host of None \<Rightarrow> (False, s)
      | Some st \<Rightarrow>
          (case update_first (\<lambda>inc. si_id inc = i) (touch now by_user note resolved) (hs_incidents st) of
             None \<Rightarrow> (False, s)
           | Some incs \<Rightarrow>
               (True, s\<lparr>so_hosts := hm_insert host (st\<lparr>hs_incidents := incs\<rparr>) (so_hosts s),
                        so_db := map_option (\<lambda>d. d\<lparr>db_incidents :=
                          map (\<lambda>r. if rw_id r = i64 i then touch_row now by_user note resolved r else r) (db_incidents d)\<rparr>)
                          (so_db s)\<rparr>)))"

definition store_resolve :: "u64 \<Rightarrow> string \<Rightarrow> u64 \<Rightarrow> string \<Rightarrow> string \<Rightarrow> store \<Rightarrow> bool \<times> store" where
  "store_resolve now host i by_user note s = triage now host i by_user (Some note) (Some True) s"

section \<open>Teaching a baseline\<close>

definition incident_pairs :: "json \<Rightarrow> (string \<times> string \<times> u64) list" where
  "incident_pairs v =
     (let exe = unwrap_or [] (Option.bind (json_get ''subject'' v) (get_str ''exe''))
      in if exe = [] then []
         else case Option.bind (json_get ''signals'' v) as_array of
                None \<Rightarrow> []
              | Some sigs \<Rightarrow>
                  List.map_filter (\<lambda>sg. map_option (\<lambda>n. (n, exe, unwrap_or 0 (get_u64 ''ts_ns'' sg))) (get_str ''id'' sg)) sigs)"

definition expect_pair :: "u64 \<Rightarrow> string \<Rightarrow> string \<Rightarrow> string \<times> string \<times> u64 \<Rightarrow> expected_row list \<Rightarrow> expected_row list" where
  "expect_pair now host by_user = (\<lambda>(sg, exe, ts) rows.
     let t = i64 ts; hit = (\<lambda>r. ex_host r = host \<and> ex_signal r = sg \<and> ex_exe r = exe)
     in if list_ex hit rows
        then map (\<lambda>r. if hit r
                       then r\<lparr>ex_count := ex_count r + 1,
                              ex_first_ns := (if t > 0 \<and> (ex_first_ns r = 0 \<or> t < ex_first_ns r) then t else ex_first_ns r),
                              ex_last_ns := (if t > ex_last_ns r then t else ex_last_ns r)\<rparr>
                       else r) rows
        else rows @ [\<lparr>ex_host = host, ex_signal = sg, ex_exe = exe, ex_count = 1, ex_first_ns = t, ex_last_ns = t,
                      ex_added_by = by_user, ex_added_at = i64 now\<rparr>])"

definition mark_expected :: "u64 \<Rightarrow> string \<Rightarrow> u64 \<Rightarrow> string \<Rightarrow> store \<Rightarrow> nat \<times> store" where
  "mark_expected now host i by_user s =
     (case hm_get (so_hosts s) host of None \<Rightarrow> (0, s)
      | Some st \<Rightarrow>
          (case find (\<lambda>inc. si_id inc = i) (hs_incidents st) of None \<Rightarrow> (0, s)
           | Some inc \<Rightarrow>
               let pairs = incident_pairs (si_record inc)
               in (length pairs,
                   s\<lparr>so_db := map_option (\<lambda>d. d\<lparr>db_expected := fold (expect_pair now host by_user) pairs (db_expected d)\<rparr>)
                       (so_db s)\<rparr>)))"

text \<open>The file an operator can fetch; \<open>now_ms\<close> is the time it is made, in milliseconds.\<close>

definition entry_of_row :: "expected_row \<Rightarrow> entry" where
  "entry_of_row r = \<lparr>e_signal = ex_signal r, e_exe = ex_exe r, e_count = u64 (ex_count r),
     e_first_ns = u64 (ex_first_ns r), e_last_ns = u64 (ex_last_ns r)\<rparr>"

definition baseline_for :: "u64 \<Rightarrow> string \<Rightarrow> store \<Rightarrow> baseline option" where
  "baseline_for now_ms host s =
     (case so_db s of None \<Rightarrow> None
      | Some d \<Rightarrow>
          let rows = map entry_of_row (sort_key ex_signal (sort_key ex_exe (filter (\<lambda>r. ex_host r = host) (db_expected d))))
          in if rows = [] then None
             else
               let lo = (case filter (\<lambda>t. t > 0) (map e_first_ns rows) of [] \<Rightarrow> 0 | t # ts \<Rightarrow> fold min ts t);
                   hi = max_or 0 (map e_last_ns rows)
               in Some ((baseline_new now_ms)\<lparr>b_window_ns := saturating_sub hi lo,
                          b_events_observed := sum_list (map e_count rows), b_entries := rows\<rparr>))"

section \<open>Secrets and accounts\<close>

definition session_secret :: "u8 list \<Rightarrow> store \<Rightarrow> (u8 list \<times> store) outcome" where
  \<comment> \<open>\<open>fresh\<close> is 32 random bytes\<close>
  "session_secret fresh s =
     (case so_db s of None \<Rightarrow> Ret (fresh, s)
      | Some d \<Rightarrow>
          let make = Ret (fresh, s\<lparr>so_db := Some (d\<lparr>db_secret := Some (hex fresh)\<rparr>)\<rparr>)
          in (case db_secret d of None \<Rightarrow> make
              | Some v \<Rightarrow> bind_outcome (unhex v) (\<lambda>r. case r of Some b \<Rightarrow> Ret (b, s) | None \<Rightarrow> make)))"

definition has_users :: "store \<Rightarrow> bool" where
  "has_users s = (case so_db s of None \<Rightarrow> False | Some d \<Rightarrow> db_users d \<noteq> [])"

definition find_user :: "string \<Rightarrow> db \<Rightarrow> user_row option" where
  "find_user username d = find (\<lambda>u. us_username u = username) (db_users d)"

definition verify_user :: "(string \<Rightarrow> string \<Rightarrow> bool) \<Rightarrow> string \<Rightarrow> string \<Rightarrow> store \<Rightarrow> string option" where
  "verify_user verify_pw username password s =
     (case so_db s of None \<Rightarrow> None
      | Some d \<Rightarrow>
          (case find_user username d of
             Some u \<Rightarrow> if verify_pw password (us_pw_hash u) then Some (us_role u) else None
           | None \<Rightarrow> None))"

definition username_ok :: "string \<Rightarrow> bool" where
  "username_ok u \<longleftrightarrow> u \<noteq> [] \<and> length u \<le> 64 \<and> list_all (\<lambda>c. is_ascii_alphanumeric c \<or> c \<in> set ''._-@+'') u"

datatype user_error = Bad_username | Short_password | Needs_database | Name_taken | Last_admin

definition create_user :: "(string \<Rightarrow> string) \<Rightarrow> u64 \<Rightarrow> string \<Rightarrow> string \<Rightarrow> string \<Rightarrow> store \<Rightarrow> (user_error + unit) \<times> store" where
  "create_user hash_pw now username password role s =
     (if \<not> username_ok username then (Inl Bad_username, s)
      else if length password < 8 then (Inl Short_password, s)
      else
        let role = (if role = ''viewer'' then ''viewer'' else ''admin'')
        in (case so_db s of None \<Rightarrow> (Inl Needs_database, s)
            | Some d \<Rightarrow>
                if find_user username d \<noteq> None then (Inl Name_taken, s)
                else (Inr (), s\<lparr>so_db := Some (d\<lparr>db_users := db_users d @
                       [\<lparr>us_username = username, us_pw_hash = hash_pw password, us_role = role, us_created_at = i64 now\<rparr>]\<rparr>)\<rparr>)))"

definition list_users :: "store \<Rightarrow> (string \<times> string) list" where
  "list_users s = (case so_db s of None \<Rightarrow> []
     | Some d \<Rightarrow> map (\<lambda>u. (us_username u, us_role u)) (sort_key us_username (db_users d)))"

definition delete_user :: "string \<Rightarrow> store \<Rightarrow> (user_error + unit) \<times> store" where
  "delete_user username s =
     (case so_db s of None \<Rightarrow> (Inl Needs_database, s)
      | Some d \<Rightarrow>
          let admins = length (filter (\<lambda>u. us_role u = ''admin'') (db_users d));
              is_admin = (case find_user username d of None \<Rightarrow> False | Some u \<Rightarrow> us_role u = ''admin'')
          in if is_admin \<and> admins \<le> 1 then (Inl Last_admin, s)
             else (Inr (), s\<lparr>so_db := Some (d\<lparr>db_users := filter (\<lambda>u. us_username u \<noteq> username) (db_users d)\<rparr>)\<rparr>))"

section \<open>Opening a journal\<close>

definition store_new :: store where
  "store_new = \<lparr>so_hosts = hm_empty, so_db = None, so_next_id = 1, so_since_prune = 0, so_retain_days = 0\<rparr>"

definition empty_db :: db where
  "empty_db = \<lparr>db_version = 0, db_incidents = [], db_hosts = [], db_expected = [], db_users = [], db_secret = None\<rparr>"

definition migrate :: "db \<Rightarrow> db option" where
  "migrate d = (if db_version d > SCHEMA_VERSION then None else Some (d\<lparr>db_version := SCHEMA_VERSION\<rparr>))"

definition incident_of_row :: "(string \<Rightarrow> json option) \<Rightarrow> incident_row \<Rightarrow> stored_incident" where
  "incident_of_row parse r =
     (let v = unwrap_or JNull (parse (rw_record r))
      in \<lparr>si_id = u64 (rw_id r), si_severity = field_str v ''severity'' ''INFO'',
          si_score = ucast (unwrap_or 0 (get_u64 ''score'' v)), si_record = v, si_received = u64 (rw_received r),
          si_resolved = (rw_resolved r \<noteq> 0), si_resolved_by = rw_resolved_by r, si_resolved_at = u64 (rw_resolved_at r),
          si_note = rw_note r\<rparr>)"

definition load_row :: "(string \<Rightarrow> json option) \<Rightarrow> incident_row \<Rightarrow> store \<Rightarrow> store" where
  "load_row parse r s =
     apply_incident (rw_host r) (rw_kernel r) (rw_ip r) (u64 (rw_received r)) (incident_of_row parse r) s"

definition load_host :: "host_row \<Rightarrow> host_state \<Rightarrow> host_state" where
  "load_host r st =
     st\<lparr>hs_first_seen := u64 (hr_first_seen r), hs_last_seen := max (hs_last_seen st) (u64 (hr_last_seen r)),
        hs_last_heartbeat := u64 (hr_last_heartbeat r),
        hs_kernel := (if hr_kernel r \<noteq> [] then hr_kernel r else hs_kernel st),
        hs_ip := (if hr_ip r \<noteq> [] then hr_ip r else hs_ip st),
        hs_agent_version := hr_agent_version r, hs_uptime_secs := u64 (hr_uptime_secs r), hs_events := u64 (hr_events r),
        hs_drops := u64 (hr_drops r), hs_decode_panics := u64 (hr_decode_panics r),
        hs_sensors_verified := map_option (\<lambda>v. v \<noteq> 0) (hr_sensors_verified r),
        hs_attestation_misses := u64 (hr_attestation_misses r),
        hs_sensors_active := u32 (hr_sensors_active r), hs_sensors_total := u32 (hr_sensors_total r)\<rparr>"

definition persistent :: "(string \<Rightarrow> json option) \<Rightarrow> u64 \<Rightarrow> u64 \<Rightarrow> db \<Rightarrow> store option" where
  "persistent parse now retain_days d0 =
     (case migrate d0 of None \<Rightarrow> None
      | Some d1 \<Rightarrow>
          let d = prune now retain_days d1;
              rows = sort_key rw_id (db_incidents d);
              s = fold (load_row parse) rows store_new;
              s = s\<lparr>so_next_id := max_or 0 (map (\<lambda>r. u64 (rw_id r)) rows) + 1\<rparr>;
              hs = fold (\<lambda>r. hm_entry (hr_host r) host_default (load_host r)) (db_hosts d) (so_hosts s)
          in Some (s\<lparr>so_hosts := hs, so_db := Some d, so_retain_days := retain_days\<rparr>))"

section \<open>Views\<close>

definition host_score :: "host_state \<Rightarrow> u32" where
  "host_score st = max_or 0 (map si_score (filter (\<lambda>i. \<not> si_resolved i) (hs_incidents st)))"

record host_summary =
  sm_host :: string
  sm_score :: u32
  sm_band :: string
  sm_n :: nat
  sm_counts :: "(string, nat) hm"
  sm_status :: string
  sm_state :: host_state

text \<open>The remaining fields of a summary are copies of the host's; they are kept as \<open>sm_state\<close>.\<close>

definition summary_of :: "u64 \<Rightarrow> string \<times> host_state \<Rightarrow> host_summary" where
  "summary_of now = (\<lambda>(host, st).
     let live = filter (\<lambda>i. \<not> si_resolved i) (hs_incidents st)
     in \<lparr>sm_host = host, sm_score = host_score st, sm_band = band (host_score st), sm_n = length live,
         sm_counts = fold (\<lambda>i. hm_entry (si_severity i) 0 Suc) live hm_empty,
         sm_status = agent_status st now, sm_state = st\<rparr>)"

definition dark :: "string \<Rightarrow> bool" where
  "dark s \<longleftrightarrow> s \<in> set [''blind'', ''silent'', ''stale'']"

definition fleet :: "u64 \<Rightarrow> store \<Rightarrow> host_summary list" where
  "fleet now s =
     sort_key (\<lambda>h. - uint (sm_score h))
       (sort_key (\<lambda>h. \<not> dark (sm_status h)) (sort_key sm_host (map (summary_of now) (so_hosts s))))"

record audit_entry =
  au_host :: string
  au_id :: u64
  au_severity :: string
  au_score :: u32
  au_resolved_by :: string
  au_resolved_at :: u64
  au_note :: string
  au_subject :: string

definition audit_of :: "string \<Rightarrow> stored_incident \<Rightarrow> audit_entry" where
  "audit_of host i = \<lparr>au_host = host, au_id = si_id i, au_severity = si_severity i, au_score = si_score i,
     au_resolved_by = si_resolved_by i, au_resolved_at = si_resolved_at i, au_note = si_note i,
     au_subject = subject_comm (si_record i)\<rparr>"

definition audit_of_row :: "(string \<Rightarrow> json option) \<Rightarrow> incident_row \<Rightarrow> audit_entry" where
  "audit_of_row parse r = \<lparr>au_host = rw_host r, au_id = u64 (rw_id r), au_severity = rw_severity r, au_score = u32 (rw_score r),
     au_resolved_by = rw_resolved_by r, au_resolved_at = u64 (rw_resolved_at r), au_note = rw_note r,
     au_subject = subject_comm (unwrap_or JNull (parse (rw_record r)))\<rparr>"

definition audit :: "(string \<Rightarrow> json option) \<Rightarrow> nat \<Rightarrow> store \<Rightarrow> audit_entry list" where
  "audit parse limit s =
     (case so_db s of
        None \<Rightarrow> take limit (sort_key (\<lambda>a. - uint (au_resolved_at a))
                  (concat (map (\<lambda>(host, st). map (audit_of host) (filter si_resolved (hs_incidents st))) (so_hosts s))))
      | Some d \<Rightarrow> map (audit_of_row parse) (take limit (sort_key (\<lambda>r. - rw_resolved_at r)
                    (filter (\<lambda>r. rw_resolved r = 1) (db_incidents d)))))"

definition saturating_mul1000 :: "u64 \<Rightarrow> u64" where
  "saturating_mul1000 w = (if unat w * 1000 < 2 ^ 64 then w * 1000 else - 1)"

definition recent_incidents :: "nat \<Rightarrow> store \<Rightarrow> json list" where
  "recent_incidents limit s =
     (let rows = concat (map (\<lambda>(host, st). map (\<lambda>i.
            (unwrap_or (saturating_mul1000 (si_received i)) (get_u64 ''ts'' (si_record i)), si_id i,
             json_insert [(''_host'', JStr host), (''_id'', JPos (si_id i)), (''_received'', JPos (si_received i)),
                          (''_resolved'', JBool (si_resolved i))] (si_record i))) (hs_incidents st)) (so_hosts s))
      in map (\<lambda>(_, _, v). v) (take limit (sort_key (\<lambda>(t, _, _). - uint t) (sort_key (\<lambda>(_, i, _). - uint i) rows))))"

definition host_incidents :: "string \<Rightarrow> store \<Rightarrow> json list option" where
  "host_incidents host s =
     map_option (\<lambda>st. map (\<lambda>i.
       json_insert [(''_id'', JPos (si_id i)), (''_received'', JPos (si_received i)), (''_resolved'', JBool (si_resolved i)),
                    (''_resolved_by'', JStr (si_resolved_by i)), (''_resolved_at'', JPos (si_resolved_at i)),
                    (''_note'', JStr (si_note i))] (si_record i)) (rev (hs_incidents st)))
       (hm_get (so_hosts s) host)"

end
