(* ===== verification/Server.thy ===== *)
theory Server
  imports RateLimit Keys Notify Store
begin

text \<open>
  The fleet server's request handling (\<^verbatim>\<open>src/src/server/mod.rs\<close>). Sockets, TLS and the HTTP parser are a
  library's (\<^verbatim>\<open>tiny_http\<close>): a request is what they hand over and a response is what they are given. The
  other libraries the handler uses are the functions of \<open>libs\<close>, the clocks are \<open>times\<close>. JSON that is only printed
  into a response is kept as the value that is printed.
\<close>

section \<open>Requests, responses and state\<close>

datatype meth = GET | POST | Other_method

record 'ip request =
  rq_method :: meth
  rq_url :: string
  rq_headers :: "(string \<times> string) list"
  rq_peer :: "'ip option"
  rq_declared :: "nat option"
  rq_body :: "u8 list"

datatype body = Text string | Page | Event_msg string | Me string string | Fleet "host_summary list" | Incidents "json list"
  | Audit_log "audit_entry list" | Users "(string \<times> string) list" | Baseline_file string baseline

record response =
  rs_code :: nat
  rs_body :: body
  rs_headers :: "(string \<times> string) list"

record config =
  cf_admin_password :: string
  cf_ingest_key :: string
  cf_agent_keys :: "agent_keys option"

record libs =
  lb_parse :: "string \<Rightarrow> json option"
  lb_print :: "json \<Rightarrow> string"
  lb_verify_pw :: "string \<Rightarrow> string \<Rightarrow> bool"
  lb_hash_pw :: "string \<Rightarrow> string"
  lb_hmac :: mac

record times =
  tm_secs :: u64
  tm_ms :: u64
  tm_instant :: nat

text \<open>
  The broadcaster holds one channel per open poll: its number and the messages waiting in it. The
  notifier is its threshold and its queue.
\<close>

record bus =
  bu_clients :: "(u64 \<times> string list) list"
  bu_next_id :: u64

record 'ip server =
  sv_store :: store
  sv_limiter :: "'ip limiter"
  sv_bus :: bus
  sv_notifier :: "(u8 \<times> alert list) option"

definition MAX_INGEST_BODY :: nat where "MAX_INGEST_BODY = 8 * 1024 * 1024"
definition MAX_FORM_BODY :: nat where "MAX_FORM_BODY = 64 * 1024"

section \<open>Helpers\<close>

definition text_response :: "nat \<Rightarrow> string \<Rightarrow> response" where
  "text_response code s = \<lparr>rs_code = code, rs_body = Text s, rs_headers = []\<rparr>"

definition html_response :: "nat \<Rightarrow> response" where
  "html_response code = \<lparr>rs_code = code, rs_body = Page, rs_headers = [(''Content-Type'', ''text/html; charset=utf-8'')]\<rparr>"

definition json_response :: "nat \<Rightarrow> body \<Rightarrow> response" where
  "json_response code b = \<lparr>rs_code = code, rs_body = b, rs_headers = [(''Content-Type'', ''application/json'')]\<rparr>"

text \<open>At most one byte more than the limit is ever read.\<close>

definition read_capped :: "u8 list \<Rightarrow> nat option \<Rightarrow> nat \<Rightarrow> string option" where
  "read_capped arriving declared limit =
     (if (case declared of None \<Rightarrow> False | Some n \<Rightarrow> n > limit) then None
      else
        let got = take (limit + 1) arriving
        in if \<not> utf8_valid got then None
           else if length got > limit then None
           else Some (text_of got))"

definition read_body :: "'ip request \<Rightarrow> nat \<Rightarrow> string option" where
  "read_body req limit = read_capped (rq_body req) (rq_declared req) limit"

definition header :: "'ip request \<Rightarrow> string \<Rightarrow> string option" where
  "header req name =
     map_option snd (find (\<lambda>(f, _). to_ascii_lowercase f = to_ascii_lowercase name) (rq_headers req))"

definition cookie :: "'ip request \<Rightarrow> string \<Rightarrow> string option" where
  "cookie req name =
     (case header req ''Cookie'' of None \<Rightarrow> None
      | Some raw \<Rightarrow>
          map_option snd (find (\<lambda>(k, _). k = name)
            (List.map_filter (\<lambda>kv. split_once (CHR ''='') (trim kv)) (split_on (CHR '';'') raw))))"

definition session :: "libs \<Rightarrow> times \<Rightarrow> u8 list \<Rightarrow> 'ip request \<Rightarrow> (string \<times> string) option outcome" where
  "session lib tm secret req =
     (case cookie req ''ks_session'' of None \<Rightarrow> Ret None
      | Some token \<Rightarrow> validate (lb_hmac lib) (tm_secs tm) secret token)"

text \<open>\<^verbatim>\<open>out.push(c as char)\<close> for a byte: the code point of that number, in UTF-8.\<close>

definition latin1 :: "u8 \<Rightarrow> string" where
  "latin1 b = text_of (if b < 0x80 then [b] else [or 0xC0 (drop_bit 6 b), or 0x80 (and b 0x3F)])"

fun urldecode :: "string \<Rightarrow> string outcome" where
  "urldecode [] = Ret []"
| "urldecode (c # cs) =
     (if c = CHR ''+'' then bind_outcome (urldecode cs) (\<lambda>r. Ret (CHR '' '' # r))
      else if c = CHR ''%'' \<and> length cs \<ge> 2 then
        (case get_range 1 3 (c # cs) of None \<Rightarrow> Panic
         | Some p \<Rightarrow>
             (case from_hex p of
                Some b \<Rightarrow> bind_outcome (urldecode (drop 2 cs)) (\<lambda>r. Ret (latin1 b @ r))
              | None \<Rightarrow> urldecode cs))
      else bind_outcome (urldecode cs) (\<lambda>r. Ret (latin1 (of_char c) @ r)))"

definition form_field :: "string \<Rightarrow> string \<Rightarrow> string option outcome" where
  "form_field body key =
     (case find (\<lambda>(k, _). k = key) (List.map_filter (split_once (CHR ''='')) (split_on (CHR ''&'') body)) of
        None \<Rightarrow> Ret None
      | Some (_, v) \<Rightarrow> bind_outcome (urldecode v) (\<lambda>r. Ret (Some r)))"

definition alert_from :: "string \<Rightarrow> json \<Rightarrow> alert" where
  "alert_from host v =
     \<lparr>al_host = host, al_severity = unwrap_or ''INFO'' (get_str ''severity'' v),
      al_score = ucast (unwrap_or 0 (get_u64 ''score'' v)),
      al_subject = unwrap_or ''incident'' (Option.bind (json_get ''subject'' v) (get_str ''comm'')),
      al_cmdline = unwrap_or [] (Option.bind (json_get ''subject'' v) (get_str ''cmdline'')),
      al_attack = (case Option.bind (json_get ''attack'' v) as_array of None \<Rightarrow> [] | Some xs \<Rightarrow> List.map_filter as_str xs)\<rparr>"

subsection \<open>The broadcaster\<close>

definition bus_subscribe :: "bus \<Rightarrow> u64 \<times> bus" where
  "bus_subscribe b = (bu_next_id b, \<lparr>bu_clients = bu_clients b @ [(bu_next_id b, [])], bu_next_id = bu_next_id b + 1\<rparr>)"

definition bus_publish :: "string \<Rightarrow> bus \<Rightarrow> bus" where
  "bus_publish msg b = b\<lparr>bu_clients := map (\<lambda>(i, ms). (i, ms @ [msg])) (bu_clients b)\<rparr>"

definition bus_unsubscribe :: "u64 \<Rightarrow> bus \<Rightarrow> bus" where
  "bus_unsubscribe i b = b\<lparr>bu_clients := filter (\<lambda>(j, _). j \<noteq> i) (bu_clients b)\<rparr>"

text \<open>The end of a poll: the first message, or nothing after the timeout.\<close>

definition finish_poll :: "u64 \<Rightarrow> bus \<Rightarrow> response \<times> bus" where
  "finish_poll i b =
     (case map_of (bu_clients b) i of
        Some (m # _) \<Rightarrow> (json_response 200 (Event_msg m), bus_unsubscribe i b)
      | _ \<Rightarrow> (text_response 204 [], bus_unsubscribe i b))"

section \<open>The endpoints\<close>

definition agent_host :: "config \<Rightarrow> 'ip request \<Rightarrow> string + string" where
  \<comment> \<open>whom an ingest request is filed under, or why it is refused\<close>
  "agent_host cfg req =
     (let presented = unwrap_or [] (header req ''X-Sentinel-Key'')
      in case cf_agent_keys cfg of
           Some keys \<Rightarrow> (case keys_resolve presented keys of Some h \<Rightarrow> Inr h | None \<Rightarrow> Inl ''unknown agent key'')
         | None \<Rightarrow> if \<not> ct_eq presented (cf_ingest_key cfg) then Inl ''invalid ingest key''
                   else Inr (unwrap_or ''unknown'' (header req ''X-Sentinel-Host'')))"

definition push_alert :: "alert \<Rightarrow> 'ip server \<Rightarrow> 'ip server" where
  "push_alert a sv = sv\<lparr>sv_notifier := map_option (\<lambda>(m, q). (m, fst (notify m a q))) (sv_notifier sv)\<rparr>"

definition is_heartbeat :: "json \<Rightarrow> bool" where
  "is_heartbeat v \<longleftrightarrow> get_str ''schema'' v = Some HB_SCHEMA"

definition ingest_line :: "libs \<Rightarrow> times \<Rightarrow> string \<Rightarrow> string \<Rightarrow> string \<Rightarrow> string
    \<Rightarrow> 'ip server \<times> nat \<times> nat \<Rightarrow> 'ip server \<times> nat \<times> nat" where
  "ingest_line lib tm host kern ip line = (\<lambda>(sv, n, beats).
     if trim line = [] then (sv, n, beats)
     else (case lb_parse lib line of None \<Rightarrow> (sv, n, beats)
       | Some v \<Rightarrow>
           if is_heartbeat v then
             (case heartbeat_from_json v of None \<Rightarrow> (sv, n, beats)
              | Some hb \<Rightarrow> (sv\<lparr>sv_store := store_heartbeat (tm_secs tm) host kern ip hb (sv_store sv)\<rparr>, n, Suc beats))
           else
             (push_alert (alert_from host v)
                (sv\<lparr>sv_store := ingest (lb_print lib) (tm_secs tm) host kern ip v (sv_store sv)\<rparr>), Suc n, beats)))"

definition handle_ingest :: "libs \<Rightarrow> times \<Rightarrow> config \<Rightarrow> 'ip request \<Rightarrow> 'ip server \<Rightarrow> response \<times> 'ip server" where
  "handle_ingest lib tm cfg req sv =
     (case agent_host cfg req of
        Inl e \<Rightarrow> (text_response 401 e, sv)
      | Inr host \<Rightarrow>
          let kern = unwrap_or [] (header req ''X-Sentinel-Kernel''); ip = unwrap_or [] (header req ''X-Sentinel-Ip'')
          in (case read_body req MAX_INGEST_BODY of
                None \<Rightarrow> (text_response 413 ''ingest body too large'', sv)
              | Some b \<Rightarrow>
                  let (sv', n, beats) = fold (ingest_line lib tm host kern ip) (lines b) (sv, 0, 0);
                      sv'' = (if n > 0 \<or> beats > 0
                              then sv'\<lparr>sv_bus := bus_publish (''{\"host\":\"'' @ host @ ''\"}'') (sv_bus sv')\<rparr> else sv')
                  in (text_response 200 (''accepted '' @ show_nat n @ '' incident(s), '' @ show_nat beats @ '' heartbeat(s)''), sv'')))"

definition login_role :: "libs \<Rightarrow> config \<Rightarrow> string \<Rightarrow> string \<Rightarrow> store \<Rightarrow> string option" where
  "login_role lib cfg username password s =
     (if so_db s \<noteq> None then verify_user (lb_verify_pw lib) username password s
      else if cf_admin_password cfg \<noteq> [] \<and> username = ''admin'' \<and> ct_eq password (cf_admin_password cfg) then Some ''admin''
      else None)"

definition SESSION_TTL :: u64 where "SESSION_TTL = 8 * 3600"

definition handle_login :: "libs \<Rightarrow> times \<Rightarrow> config \<Rightarrow> u8 list \<Rightarrow> 'ip request \<Rightarrow> 'ip server \<Rightarrow> (response \<times> 'ip server) outcome" where
  "handle_login lib tm cfg secret req sv =
     (case (case rq_peer req of None \<Rightarrow> None | Some ip \<Rightarrow> locked_for (tm_instant tm) ip (sv_limiter sv)) of
        Some wait \<Rightarrow>
          Ret ((text_response 429 ''too many failed attempts; try again later'')\<lparr>rs_headers := [(''Retry-After'', show_nat wait)]\<rparr>, sv)
      | None \<Rightarrow>
          (case read_body req MAX_FORM_BODY of
             None \<Rightarrow> Ret (text_response 413 ''request body too large'', sv)
           | Some b \<Rightarrow>
               bind_outcome (form_field b ''username'') (\<lambda>u.
               bind_outcome (form_field b ''password'') (\<lambda>p.
                 let username = unwrap_or [] u; password = unwrap_or [] p
                 in case login_role lib cfg username password (sv_store sv) of
                      Some role \<Rightarrow>
                        Ret ((text_response 200 ''ok'')\<lparr>rs_headers := [(''Set-Cookie'', ''ks_session='' @
                               issue (lb_hmac lib) (tm_secs tm) secret username role SESSION_TTL
                               @ ''; HttpOnly; SameSite=Strict; Path=/; Max-Age=28800'')]\<rparr>,
                             sv\<lparr>sv_limiter := (case rq_peer req of None \<Rightarrow> sv_limiter sv
                                 | Some ip \<Rightarrow> record_success ip (sv_limiter sv))\<rparr>)
                    | None \<Rightarrow>
                        Ret (text_response 401 ''invalid credentials'',
                             sv\<lparr>sv_limiter := (case rq_peer req of None \<Rightarrow> sv_limiter sv
                                 | Some ip \<Rightarrow> snd (record_failure (tm_instant tm) ip (sv_limiter sv)))\<rparr>)))))"

definition handle_logout :: response where
  "handle_logout = (text_response 200 ''ok'')\<lparr>rs_headers := [(''Set-Cookie'',
     ''ks_session=; HttpOnly; SameSite=Strict; Path=/; Max-Age=0'')]\<rparr>"

definition form_json :: "libs \<Rightarrow> 'ip request \<Rightarrow> json" where
  "form_json lib req = unwrap_or JNull (lb_parse lib (unwrap_or [] (read_body req MAX_FORM_BODY)))"

definition handle_resolve :: "libs \<Rightarrow> times \<Rightarrow> string \<Rightarrow> 'ip request \<Rightarrow> 'ip server \<Rightarrow> response \<times> 'ip server" where
  "handle_resolve lib tm username req sv =
     (let v = form_json lib req;
          host = unwrap_or [] (get_str ''host'' v);
          i = unwrap_or 0 (get_u64 ''id'' v);
          (ok, s) = triage (tm_secs tm) host i username (get_str ''note'' v) (get_bool ''resolved'' v) (sv_store sv)
      in if ok
         then (text_response 200 ''ok'',
               sv\<lparr>sv_store := (if unwrap_or False (get_bool ''expect'' v) then snd (mark_expected (tm_secs tm) host i username s) else s)\<rparr>)
         else (text_response 404 ''no such incident'', sv\<lparr>sv_store := s\<rparr>))"

definition baseline_host :: "string \<Rightarrow> string" where
  "baseline_host url = (case str_find ''host='' url of None \<Rightarrow> [] | Some i \<Rightarrow> hd (split_on (CHR ''&'') (drop (i + 5) url)))"

definition handle_baseline :: "times \<Rightarrow> 'ip request \<Rightarrow> 'ip server \<Rightarrow> response" where
  "handle_baseline tm req sv =
     (let host = baseline_host (rq_url req)
      in case baseline_for (tm_ms tm) host (sv_store sv) of
           Some b \<Rightarrow> \<lparr>rs_code = 200, rs_body = Baseline_file host b, rs_headers = [(''Content-Type'', ''application/json''),
             (''Content-Disposition'', ''attachment; filename=\"'' @ host @ ''.baseline.json\"'')]\<rparr>
         | None \<Rightarrow> text_response 404 ''nothing marked expected on this host yet'')"

text \<open>A taken name is refused with the database's own message appended, which is left out here.\<close>

definition user_error_text :: "user_error \<Rightarrow> string" where
  "user_error_text e =
     (case e of Bad_username \<Rightarrow> ''username must be 1-64 chars of letters, digits, . _ - @ +''
      | Short_password \<Rightarrow> ''password must be >= 8 chars''
      | Needs_database \<Rightarrow> ''user accounts require --journal (a database)''
      | Name_taken \<Rightarrow> ''could not create user (name taken?)''
      | Last_admin \<Rightarrow> ''cannot delete the last admin'')"

definition handle_create :: "libs \<Rightarrow> times \<Rightarrow> 'ip request \<Rightarrow> 'ip server \<Rightarrow> response \<times> 'ip server" where
  "handle_create lib tm req sv =
     (let v = form_json lib req
      in case create_user (lb_hash_pw lib) (tm_secs tm) (unwrap_or [] (get_str ''username'' v)) (unwrap_or [] (get_str ''password'' v))
                (unwrap_or ''admin'' (get_str ''role'' v)) (sv_store sv) of
           (Inr _, s) \<Rightarrow> (text_response 200 ''created'', sv\<lparr>sv_store := s\<rparr>)
         | (Inl e, s) \<Rightarrow> (text_response 400 (user_error_text e), sv\<lparr>sv_store := s\<rparr>))"

definition handle_delete :: "libs \<Rightarrow> 'ip request \<Rightarrow> 'ip server \<Rightarrow> response \<times> 'ip server" where
  "handle_delete lib req sv =
     (case delete_user (unwrap_or [] (get_str ''username'' (form_json lib req))) (sv_store sv) of
        (Inr _, s) \<Rightarrow> (text_response 200 ''deleted'', sv\<lparr>sv_store := s\<rparr>)
      | (Inl e, s) \<Rightarrow> (text_response 400 (user_error_text e), sv\<lparr>sv_store := s\<rparr>))"

function trim_start_matches :: "string \<Rightarrow> string \<Rightarrow> string" where
  "trim_start_matches p s =
     (if p = [] then s else case strip_prefix p s of None \<Rightarrow> s | Some r \<Rightarrow> trim_start_matches p r)"
  by pat_completeness auto
termination by (relation "measure (\<lambda>(p, s). length s)") (auto simp: strip_prefix_Some)

section \<open>Dispatch\<close>

datatype reply = Now response | Later u64

definition with_session :: "libs \<Rightarrow> times \<Rightarrow> u8 list \<Rightarrow> 'ip request \<Rightarrow> 'ip server \<Rightarrow> response
    \<Rightarrow> (string \<Rightarrow> string \<Rightarrow> response \<times> 'ip server) \<Rightarrow> (reply \<times> 'ip server) outcome" where
  "with_session lib tm secret req sv refused act =
     bind_outcome (session lib tm secret req) (\<lambda>r. case r of
         None \<Rightarrow> Ret (Now refused, sv)
       | Some (u, role) \<Rightarrow> (case act u role of (rs, sv') \<Rightarrow> Ret (Now rs, sv')))"

definition admin_only :: response where
  "admin_only = text_response 403 ''admin only''"

definition auth_required :: response where
  "auth_required = text_response 401 ''auth required''"

definition if_admin :: "string \<Rightarrow> 'ip server \<Rightarrow> response \<times> 'ip server \<Rightarrow> response \<times> 'ip server" where
  "if_admin role sv r = (if role = ''admin'' then r else (admin_only, sv))"

definition handle :: "libs \<Rightarrow> times \<Rightarrow> config \<Rightarrow> u8 list \<Rightarrow> 'ip request \<Rightarrow> 'ip server \<Rightarrow> (reply \<times> 'ip server) outcome" where
  "handle lib tm cfg secret req sv =
     (let m = rq_method req;
          path = hd (split_on (CHR ''?'') (rq_url req));
          ses = with_session lib tm secret req sv
      in if m = POST \<and> path = ''/api/ingest'' then (case handle_ingest lib tm cfg req sv of (rs, sv') \<Rightarrow> Ret (Now rs, sv'))
         else if m = POST \<and> path = ''/api/login'' then
           bind_outcome (handle_login lib tm cfg secret req sv) (\<lambda>(rs, sv'). Ret (Now rs, sv'))
         else if m = POST \<and> path = ''/api/logout'' then Ret (Now handle_logout, sv)
         else if m = GET \<and> path = ''/api/me'' then ses auth_required (\<lambda>u r. (json_response 200 (Me u r), sv))
         else if m = GET \<and> path = ''/api/fleet'' then
           ses auth_required (\<lambda>_ _. (json_response 200 (Fleet (fleet (tm_secs tm) (sv_store sv))), sv))
         else if m = GET \<and> path = ''/api/incidents'' then
           ses auth_required (\<lambda>_ _. (json_response 200 (Incidents (recent_incidents 200 (sv_store sv))), sv))
         else if m = GET \<and> path = ''/api/audit'' then
           ses auth_required (\<lambda>_ _. (json_response 200 (Audit_log (audit (lb_parse lib) 200 (sv_store sv))), sv))
         else if m = GET \<and> starts_with ''/api/host/'' path then
           ses auth_required (\<lambda>_ _.
             (case host_incidents (trim_start_matches ''/api/host/'' path) (sv_store sv) of
                Some incs \<Rightarrow> json_response 200 (Incidents incs) | None \<Rightarrow> text_response 404 ''no such host'', sv))
         else if m = POST \<and> path = ''/api/resolve'' then ses auth_required (\<lambda>u _. handle_resolve lib tm u req sv)
         else if m = GET \<and> path = ''/api/baseline'' then ses auth_required (\<lambda>_ _. (handle_baseline tm req sv, sv))
         else if m = GET \<and> path = ''/api/users'' then
           ses admin_only (\<lambda>_ r. if_admin r sv (json_response 200 (Users (list_users (sv_store sv))), sv))
         else if m = POST \<and> path = ''/api/users'' then ses admin_only (\<lambda>_ r. if_admin r sv (handle_create lib tm req sv))
         else if m = POST \<and> path = ''/api/users/delete'' then ses admin_only (\<lambda>_ r. if_admin r sv (handle_delete lib req sv))
         else if m = GET \<and> path = ''/api/poll'' then
           bind_outcome (session lib tm secret req) (\<lambda>r. case r of
               None \<Rightarrow> Ret (Now auth_required, sv)
             | Some _ \<Rightarrow> (case bus_subscribe (sv_bus sv) of (i, b) \<Rightarrow> Ret (Later i, sv\<lparr>sv_bus := b\<rparr>)))
         else if m = GET \<and> (path = ''/'' \<or> path = ''/index.html'') then Ret (Now (html_response 200), sv)
         else Ret (Now (text_response 404 ''not found''), sv))"

text \<open>One turn of the request loop: a panic in a handler is caught, and the server goes on as it was.\<close>

definition serve_one :: "libs \<Rightarrow> times \<Rightarrow> config \<Rightarrow> u8 list \<Rightarrow> 'ip request \<Rightarrow> 'ip server \<Rightarrow> reply option \<times> 'ip server" where
  "serve_one lib tm cfg secret req sv =
     (case handle lib tm cfg secret req sv of Panic \<Rightarrow> (None, sv) | Ret (r, sv') \<Rightarrow> (Some r, sv'))"

section \<open>Start-up\<close>

datatype start_error = No_admin_password | No_agent_authentication | Bad_database

text \<open>The journal is the database that was found, if one is configured; \<open>fresh\<close> is 32 random bytes.\<close>

definition serve_start :: "libs \<Rightarrow> times \<Rightarrow> config \<Rightarrow> db option \<Rightarrow> u64 \<Rightarrow> u8 list \<Rightarrow> (bool \<times> string)
    \<Rightarrow> (start_error + u8 list \<times> 'ip server) outcome" where
  "serve_start lib tm cfg journal retain_days fresh = (\<lambda>(has_sinks, min_severity).
     if cf_admin_password cfg = [] then Ret (Inl No_admin_password)
     else if cf_agent_keys cfg = None \<and> cf_ingest_key cfg = [] then Ret (Inl No_agent_authentication)
     else
       (case (case journal of None \<Rightarrow> Some store_new | Some d \<Rightarrow> persistent (lb_parse lib) (tm_secs tm) retain_days d) of
          None \<Rightarrow> Ret (Inl Bad_database)
        | Some s0 \<Rightarrow>
            bind_outcome (session_secret fresh s0) (\<lambda>(secret, s1).
              let s2 = (if \<not> has_users s1
                        then snd (create_user (lb_hash_pw lib) (tm_secs tm) ''admin'' (cf_admin_password cfg) ''admin'' s1) else s1)
              in Ret (Inr (secret, \<lparr>sv_store = s2, sv_limiter = hm_empty, sv_bus = \<lparr>bu_clients = [], bu_next_id = 0\<rparr>,
                   sv_notifier = (if has_sinks then Some (severity_rank min_severity, []) else None)\<rparr>)))))"

end
