(* ===== verification/Store_Inv.thy ===== *)
theory Store_Inv
  imports Store Contracts
begin

text \<open>
  The store refines a plain history. The abstract state is the list of all incidents ever received,
  oldest first, each with its host and its triage; the concrete one is a working set of five hundred
  per host in memory and a journal that is pruned from time to time. The lemmas show that every
  operation of the store does to the history what its name says, that the journal is always the newest
  part of the history, and that the memory is always its newest part per host.
\<close>

section \<open>Histories\<close>

type_synonym history = "(string \<times> stored_incident) list"

definition newest_n :: "nat \<Rightarrow> 'a list \<Rightarrow> 'a list" where
  "newest_n n xs = drop (length xs - n) xs"

definition of_host :: "string \<Rightarrow> history \<Rightarrow> stored_incident list" where
  "of_host h G = map snd (filter (\<lambda>(h', _). h' = h) G)"

lemma newest_n_append: "newest_n n (newest_n n xs @ [y]) = newest_n n (xs @ [y])"
  by (cases "length xs \<le> n") (auto simp: newest_n_def Suc_diff_le)

lemma newest_n_map: "newest_n n (map f xs) = map f (newest_n n xs)"
  by (simp add: newest_n_def drop_map)

lemma of_host_simps [simp]:
  "of_host h [] = []" "of_host h (G @ G') = of_host h G @ of_host h G'"
  "of_host h ((h', i) # G) = (if h' = h then i # of_host h G else of_host h G)"
  by (simp_all add: of_host_def)

definition window_of :: "store \<Rightarrow> string \<Rightarrow> stored_incident list" where
  "window_of s h = (case hm_get (so_hosts s) h of None \<Rightarrow> [] | Some st \<Rightarrow> hs_incidents st)"

definition row_matches :: "(json \<Rightarrow> string) \<Rightarrow> string \<times> stored_incident \<Rightarrow> incident_row \<Rightarrow> bool" where
  "row_matches print = (\<lambda>(h, i) r.
     rw_id r = i64 (si_id i) \<and> rw_host r = h \<and> rw_received r = i64 (si_received i) \<and> rw_record r = print (si_record i)
     \<and> rw_resolved r = (if si_resolved i then 1 else 0) \<and> rw_resolved_by r = si_resolved_by i
     \<and> rw_resolved_at r = i64 (si_resolved_at i) \<and> rw_note r = si_note i
     \<and> rw_severity r = si_severity i \<and> rw_score r = uint (si_score i))"

text \<open>The clock is the time of the last operation.\<close>

definition history_ok :: "u64 \<Rightarrow> u64 \<Rightarrow> history \<Rightarrow> bool" where
  "history_ok clock next G \<longleftrightarrow>
     sorted_wrt (\<lambda>x y. si_id (snd x) < si_id (snd y) \<and> si_received (snd x) \<le> si_received (snd y)) G
     \<and> list_all (\<lambda>(h, i). si_id i < next \<and> si_received i \<le> clock
          \<and> si_severity i = field_str (si_record i) ''severity'' ''INFO''
          \<and> si_score i = ucast (unwrap_or 0 (get_u64 ''score'' (si_record i)))) G
     \<and> next < 2 ^ 63 \<and> clock < 2 ^ 63"

definition represents :: "(json \<Rightarrow> string) \<Rightarrow> (string \<Rightarrow> json option) \<Rightarrow> history \<Rightarrow> u64 \<times> store \<Rightarrow> bool" where
  "represents print parse G = (\<lambda>(clock, s).
     history_ok clock (so_next_id s) G \<and> hm_ok (so_hosts s)
     \<and> list_all (\<lambda>(h, i). parse (print (si_record i)) = Some (si_record i)) G
     \<and> (\<exists>d k. so_db s = Some d \<and> list_all2 (row_matches print) (drop k G) (db_incidents d))
     \<and> (\<forall>h. window_of s h = newest_n MAX_PER_HOST (of_host h G)))"

lemma i64_small: "w < 2 ^ 63 \<Longrightarrow> i64 w = uint w"
proof -
  assume "w < 2 ^ 63"
  then have "uint w < 2 ^ 63" by (simp add: word_less_def)
  moreover have "- (2 ^ 63) \<le> uint w" using order_trans [of "- (2 ^ 63)" 0 "uint w"] by simp
  ultimately show ?thesis using signed_take_bit_int_eq_self [of 63 "uint w"] by (simp add: i64_def sint_uint)
qed

lemma u64_i64 [simp]: "u64 (i64 w) = w"
  by (simp add: u64_def i64_def)

section \<open>Pruning removes the oldest\<close>

lemma filter_sorted_drop:
  assumes "sorted (map f xs)"
  shows "\<exists>j. filter (\<lambda>x. \<not> f x < c) xs = drop j xs"
proof -
  have "filter (\<lambda>x. \<not> f x < c) xs = dropWhile (\<lambda>x. f x < c) xs"
    using assms
  proof (induction xs)
    case (Cons a xs)
    have "filter (\<lambda>x. \<not> f x < c) xs = xs" if "\<not> f a < c" using Cons.prems that by (force simp: filter_id_conv)
    then show ?case using Cons by auto
  qed simp
  then show ?thesis by (auto simp: dropWhile_eq_drop)
qed

lemma filter_notin_take: "distinct (map f xs) \<Longrightarrow> filter (\<lambda>x. f x \<notin> set (map f (take m xs))) xs = drop m xs"
proof -
  assume d: "distinct (map f xs)"
  have "f ` set (take m xs) \<inter> f ` set (drop m xs) = {}"
    using d by (metis append_take_drop_id distinct_append list.set_map map_append)
  then have "filter (\<lambda>x. f x \<notin> set (map f (take m xs))) (take m xs @ drop m xs) = drop m xs"
    unfolding filter_append by (auto simp: filter_empty_conv filter_id_conv)
  then show ?thesis by simp
qed

lemma prune_drops:
  assumes "sorted (map rw_received rows)" and "sorted (map rw_id rows)" and "distinct (map rw_id rows)"
  shows "\<exists>j. prune_rows now retain_days rows = drop j rows"
proof -
  obtain j where j: "(if retain_days > 0
      then filter (\<lambda>r. \<not> rw_received r < i64 (saturating_sub now (retain_days * 86400))) rows else rows) = drop j rows"
    using filter_sorted_drop [OF assms(1)] by (metis drop0)
  let ?r = "drop j rows"
  have "row_order ?r = ?r" using assms(1,2) by (simp add: row_order_def sort_key_id_if_sorted drop_map [symmetric] sorted_wrt_drop)
  moreover have "distinct (map rw_id ?r)" using assms(3) by (simp add: drop_map [symmetric])
  ultimately show ?thesis using filter_notin_take [of rw_id ?r]
    by (simp add: prune_rows_def j Let_def) (metis drop_drop)
qed

section \<open>The journal follows the history\<close>

lemma history_rows:
  assumes "history_ok clock nxt G" and "list_all2 (row_matches print) G rows"
  shows "sorted (map rw_received rows)" "sorted (map rw_id rows)" "distinct (map rw_id rows)"
    "\<And>r. r \<in> set rows \<Longrightarrow> rw_id r < uint nxt"
proof -
  have rel: "rw_id (rows ! n) = uint (si_id (snd (G ! n))) \<and> rw_received (rows ! n) = uint (si_received (snd (G ! n)))
      \<and> si_id (snd (G ! n)) < nxt" if "n < length G" for n
  proof -
    have m: "row_matches print (G ! n) (rows ! n)" using assms(2) that by (auto simp: list_all2_conv_all_nth)
    have "si_id (snd (G ! n)) < nxt" "si_received (snd (G ! n)) \<le> clock" "nxt < 2 ^ 63" "clock < 2 ^ 63"
      using assms(1) that by (auto simp: history_ok_def list_all_length case_prod_beta)
    then have "si_id (snd (G ! n)) < 2 ^ 63" "si_received (snd (G ! n)) < 2 ^ 63" "si_id (snd (G ! n)) < nxt" by simp_all
    then show ?thesis using m by (auto simp: row_matches_def case_prod_beta i64_small)
  qed
  have len: "length rows = length G" using assms(2) by (simp add: list_all2_lengthD)
  have lt: "si_id (snd (G ! i)) < si_id (snd (G ! j)) \<and> si_received (snd (G ! i)) \<le> si_received (snd (G ! j))"
    if "i < j" "j < length G" for i j
    using assms(1) that by (auto simp: history_ok_def sorted_wrt_iff_nth_less)
  show "sorted (map rw_received rows)" "sorted (map rw_id rows)"
    using rel lt len by (auto simp: sorted_wrt_iff_nth_less word_le_def word_less_def less_imp_le)
  show "distinct (map rw_id rows)"
    using rel lt len by (auto simp: distinct_conv_nth word_less_def) (metis linorder_neqE_nat less_irrefl)
  show "rw_id r < uint nxt" if r: "r \<in> set rows" for r
    using r rel len by (auto simp: in_set_conv_nth word_less_def)
qed

lemma history_ok_drop: "history_ok clock nxt G \<Longrightarrow> history_ok clock nxt (drop k G)"
  by (auto simp: history_ok_def sorted_wrt_drop list_all_iff dest: in_set_dropD)

lemma maybe_prune_facts:
  assumes "so_db s = Some d" and "list_all2 (row_matches print) (drop k G) (db_incidents d)" and "history_ok clock nxt G"
  shows "\<exists>d' j. so_db (maybe_prune now s) = Some d' \<and> list_all2 (row_matches print) (drop j G) (db_incidents d')
    \<and> so_hosts (maybe_prune now s) = so_hosts s \<and> so_next_id (maybe_prune now s) = so_next_id s"
proof -
  note h = history_rows [OF history_ok_drop [OF assms(3), of k] assms(2)]
  obtain j where j: "prune_rows now (so_retain_days s) (db_incidents d) = drop j (db_incidents d)"
    using prune_drops [OF h(1-3)] by blast
  have "list_all2 (row_matches print) (drop (k + j) G) (drop j (db_incidents d))"
    using list_all2_dropI [OF assms(2), of j] by (simp add: add.commute)
  then show ?thesis using assms j by (auto simp: maybe_prune_def prune_def Let_def)
qed

lemma window_entry:
  "hm_ok (so_hosts s) \<Longrightarrow> window_of (apply_incident host kern ip now inc s) h
    = (if h = host then newest_n MAX_PER_HOST (window_of s host @ [inc]) else window_of s h)"
  by (auto simp: window_of_def apply_incident_def push_incident_def newest_n_def host_default_def Let_def
      split: option.splits)

lemma incident_row_matches:
  "row_matches print (host, incident_of i now v)
     \<lparr>rw_id = i64 i, rw_host = host, rw_kernel = kern, rw_ip = ip, rw_received = i64 now,
      rw_severity = si_severity (incident_of i now v), rw_score = uint (si_score (incident_of i now v)), rw_record = print v,
      rw_resolved = 0, rw_resolved_by = [], rw_resolved_at = 0, rw_note = []\<rparr>"
  by (simp add: row_matches_def incident_of_def i64_def)

lemma ingest_simulates:
  assumes rep: "represents print parse G (clock, s)" and now: "clock \<le> now" "now < 2 ^ 63" and nxt: "so_next_id s + 1 < 2 ^ 63" "so_next_id s < so_next_id s + 1"
    and law: "parse (print v) = Some v"
  shows "represents print parse (G @ [(host, incident_of (so_next_id s) now v)]) (now, ingest print now host kern ip v s)"
proof -
  let ?i = "so_next_id s" and ?inc = "incident_of (so_next_id s) now v"
  let ?s1 = "maybe_prune now (s\<lparr>so_next_id := ?i + 1\<rparr>)"
  from rep obtain d k where r: "history_ok clock ?i G" "hm_ok (so_hosts s)" "so_db s = Some d"
    "list_all2 (row_matches print) (drop k G) (db_incidents d)" "\<And>h. window_of s h = newest_n MAX_PER_HOST (of_host h G)"
    and js: "list_all (\<lambda>(h, i). parse (print (si_record i)) = Some (si_record i)) G"
    by (auto simp: represents_def)
  obtain d' j where m: "so_db ?s1 = Some d'" "list_all2 (row_matches print) (drop j G) (db_incidents d')"
    "so_hosts ?s1 = so_hosts s" "so_next_id ?s1 = ?i + 1"
    using maybe_prune_facts [of "s\<lparr>so_next_id := ?i + 1\<rparr>" d print k G clock ?i now] r by auto
  note hr = history_rows [OF history_ok_drop [OF r(1), of j] m(2)]
  have small: "i64 ?i = uint ?i" using r(1) by (intro i64_small) (simp add: history_ok_def)
  have fresh: "i64 ?i \<notin> set (map rw_id (db_incidents d'))" using hr(4) small by fastforce
  have "list_all2 (row_matches print) (drop j G @ [(host, ?inc)])
      (insert_row \<lparr>rw_id = i64 ?i, rw_host = host, rw_kernel = kern, rw_ip = ip, rw_received = i64 now,
      rw_severity = si_severity ?inc, rw_score = uint (si_score ?inc), rw_record = print v,
      rw_resolved = 0, rw_resolved_by = [], rw_resolved_at = 0, rw_note = []\<rparr> (db_incidents d'))"
    using m(2) fresh incident_row_matches [of print host ?i now v kern ip] by (simp add: insert_row_def list_all2_appendI)
  moreover have dj: "drop (min j (length G)) (G @ xs) = drop j G @ xs" for xs by (cases "j \<le> length G") simp_all
  ultimately have rows: "\<exists>k. list_all2 (row_matches print) (drop k (G @ [(host, ?inc)]))
      (insert_row \<lparr>rw_id = i64 ?i, rw_host = host, rw_kernel = kern, rw_ip = ip, rw_received = i64 now,
      rw_severity = si_severity ?inc, rw_score = uint (si_score ?inc), rw_record = print v,
      rw_resolved = 0, rw_resolved_by = [], rw_resolved_at = 0, rw_note = []\<rparr> (db_incidents d'))"
    using dj by (intro exI [of _ "min j (length G)"]) simp
  have hist: "history_ok now (?i + 1) (G @ [(host, ?inc)])"
    using r(1) now nxt by (auto simp: history_ok_def sorted_wrt_append list_all_iff incident_of_def field_str_def)
  have win: "window_of (ingest print now host kern ip v s) h = newest_n MAX_PER_HOST (of_host h (G @ [(host, ?inc)]))" for h
    using r(2,5) m(3) by (simp add: ingest_def Let_def window_entry) (simp add: window_of_def newest_n_append)
  have "list_all (\<lambda>(h, i). parse (print (si_record i)) = Some (si_record i)) (G @ [(host, ?inc)])"
    using js law by (simp add: incident_of_def)
  then show ?thesis using hist r(2) m rows win by (simp add: represents_def) (simp add: ingest_def apply_incident_def Let_def)
qed

definition touch_in :: "string \<Rightarrow> u64 \<Rightarrow> (stored_incident \<Rightarrow> stored_incident) \<Rightarrow> history \<Rightarrow> history" where
  "touch_in host i f G = map (\<lambda>(h, inc). (h, if h = host \<and> si_id inc = i then f inc else inc)) G"

lemma update_first_map:
  assumes "update_first P f xs = Some ys" and "distinct (map key xs)" and "\<And>x y. P x \<Longrightarrow> P y \<Longrightarrow> key x = key y"
  shows "ys = map (\<lambda>x. if P x then f x else x) xs"
  using assms
proof (induction xs arbitrary: ys)
  case (Cons x xs)
  show ?case
  proof (cases "P x")
    case True
    have "key x \<notin> key ` set xs" using Cons.prems(2) by simp
    then have "\<not> P y" if "y \<in> set xs" for y using Cons.prems(3) [OF True, of y] that by blast
    then have "map (\<lambda>x. if P x then f x else x) xs = xs" by (intro map_idI) simp
    then show ?thesis using Cons.prems(1) True by simp
  next
    case False
    obtain zs where z: "update_first P f xs = Some zs" "ys = x # zs" using Cons.prems(1) False by auto
    have "distinct (map key xs)" using Cons.prems(2) by simp
    from Cons.IH [OF z(1) this Cons.prems(3)] show ?thesis using z(2) False by simp
  qed
qed simp

lemma update_first_in: "update_first P f xs \<noteq> None \<longleftrightarrow> (\<exists>x \<in> set xs. P x)"
  by (induction xs) auto

lemma of_host_touch: "of_host h (touch_in host i f G) = (if h = host then map (\<lambda>x. if si_id x = i then f x else x) (of_host h G) else of_host h G)"
  by (induction G) (auto simp: touch_in_def)

lemma of_host_ids:
  assumes "history_ok clock nxt G"
  shows "distinct (map (si_id \<circ> snd) G)" and "distinct (map si_id (of_host h G))"
proof -
  have "sorted_wrt (<) (map (si_id \<circ> snd) G)" 
    using assms unfolding history_ok_def sorted_wrt_map by (auto elim!: sorted_wrt_mono_rel [rotated])
  then show d: "distinct (map (si_id \<circ> snd) G)" by (simp add: strict_sorted_iff)
  then show "distinct (map si_id (of_host h G))"
    by (induction G) (auto simp: of_host_def)
qed

lemma touch_matches:
  assumes "history_ok clock nxt G" and "list_all2 (row_matches print) (drop k G) rows"
    and "(host, inc) \<in> set G" and "si_id inc = i" and "i < 2 ^ 63"
  shows "list_all2 (row_matches print) (drop k (touch_in host i (touch now u note res) G))
    (map (\<lambda>r. if rw_id r = i64 i then touch_row now u note res r else r) rows)"
proof -
  have uniq: "h = host" if "(h, inc') \<in> set G" "si_id inc' = i" for h inc'
  proof -
    have "inj_on (si_id \<circ> snd) (set G)" using of_host_ids(1) [OF assms(1)] by (simp add: distinct_map)
    from inj_onD [OF this, of "(h, inc')" "(host, inc)"] show ?thesis using that assms(3,4) by simp
  qed
  have ids: "rw_id r = i64 i \<longleftrightarrow> si_id (snd x) = i" if "row_matches print x r" for x r
    using that by (auto simp: row_matches_def case_prod_beta) (metis u64_i64)
  have upd: "row_matches print (case x of (h, inc) \<Rightarrow> (h, if h = host \<and> si_id inc = i then touch now u note res inc else inc))
     (if rw_id r = i64 i then touch_row now u note res r else r)" if m: "row_matches print x r" and x: "x \<in> set G" for x r
    using ids [OF m] m uniq [of "fst x" "snd x"] x
    by (auto simp: row_matches_def touch_def touch_row_def unwrap_or_def case_prod_beta split: option.splits)
  show ?thesis unfolding touch_in_def drop_map list_all2_map1 list_all2_map2
    by (rule list.rel_mono_strong [OF assms(2)]) (rule upd, assumption, erule in_set_dropD)
qed

lemma touch_history:
  assumes "history_ok clock nxt G" and "clock \<le> now" "now < 2 ^ 63"
  shows "history_ok now nxt (touch_in host i (touch t u note res) G)"
proof -
  have "list_all (\<lambda>(h, inc). si_id inc < nxt \<and> si_received inc \<le> now
      \<and> si_severity inc = field_str (si_record inc) ''severity'' ''INFO''
      \<and> si_score inc = ucast (unwrap_or 0 (get_u64 ''score'' (si_record inc)))) (touch_in host i (touch t u note res) G)"
    using assms by (fastforce simp: history_ok_def list_all_iff touch_in_def touch_def)
  moreover have "(\<lambda>x y. si_id (snd (case x of (h, inc) \<Rightarrow> (h, if h = host \<and> si_id inc = i then touch t u note res inc else inc)))
        < si_id (snd (case y of (h, inc) \<Rightarrow> (h, if h = host \<and> si_id inc = i then touch t u note res inc else inc)))
      \<and> si_received (snd (case x of (h, inc) \<Rightarrow> (h, if h = host \<and> si_id inc = i then touch t u note res inc else inc)))
        \<le> si_received (snd (case y of (h, inc) \<Rightarrow> (h, if h = host \<and> si_id inc = i then touch t u note res inc else inc))))
     = (\<lambda>x y. si_id (snd x) < si_id (snd y) \<and> si_received (snd x) \<le> si_received (snd y))"
    by (auto simp: fun_eq_iff touch_def)
  ultimately show ?thesis using assms by (simp add: history_ok_def touch_in_def sorted_wrt_map)
qed

lemma of_host_in: "inc \<in> set (of_host h G) \<Longrightarrow> (h, inc) \<in> set G"
  by (auto simp: of_host_def)

lemma newest_n_in: "x \<in> set (newest_n n xs) \<Longrightarrow> x \<in> set xs"
  by (auto simp: newest_n_def dest: in_set_dropD)

lemma triage_simulates:
  assumes rep: "represents print parse G (clock, s)" and now: "clock \<le> now" "now < 2 ^ 63"
    and t: "triage now host i u note res s = (ok, s')"
  shows "if ok then represents print parse (touch_in host i (touch now u note res) G) (now, s') else s' = s"
proof (cases ok)
  case True
  let ?f = "touch now u note res"
  from rep obtain d k where r: "history_ok clock (so_next_id s) G" "hm_ok (so_hosts s)" "so_db s = Some d"
    "list_all2 (row_matches print) (drop k G) (db_incidents d)" "\<And>h. window_of s h = newest_n MAX_PER_HOST (of_host h G)"
    and js: "list_all (\<lambda>(h, i). parse (print (si_record i)) = Some (si_record i)) G"
    by (auto simp: represents_def)
  obtain st incs where st: "hm_get (so_hosts s) host = Some st" "update_first (\<lambda>inc. si_id inc = i) ?f (hs_incidents st) = Some incs"
    and s': "s' = s\<lparr>so_hosts := hm_insert host (st\<lparr>hs_incidents := incs\<rparr>) (so_hosts s),
        so_db := map_option (\<lambda>d. d\<lparr>db_incidents := map (\<lambda>r. if rw_id r = i64 i then touch_row now u note res r else r) (db_incidents d)\<rparr>) (so_db s)\<rparr>"
    using t True by (auto simp: triage_def split: option.splits)
  have hs: "hs_incidents st = newest_n MAX_PER_HOST (of_host host G)" using r(5) [of host] st(1) by (simp add: window_of_def)
  have "distinct (map si_id (hs_incidents st))"
    using of_host_ids(2) [OF r(1), of host] by (simp add: hs newest_n_map [symmetric]) (simp add: newest_n_def)
  from update_first_map [OF st(2) this] have incs: "incs = map (\<lambda>x. if si_id x = i then ?f x else x) (hs_incidents st)" by simp
  obtain inc where inc: "inc \<in> set (hs_incidents st)" "si_id inc = i" 
    using st(2) update_first_in [of "\<lambda>inc. si_id inc = i" ?f "hs_incidents st"] by auto
  then have inG: "(host, inc) \<in> set G" using hs of_host_in [of inc host G] newest_n_in [of inc MAX_PER_HOST "of_host host G"] by simp
  then have small: "i < 2 ^ 63" using r(1) inc(2) by (auto simp: history_ok_def list_all_iff)
  have win: "window_of s' h = newest_n MAX_PER_HOST (of_host h (touch_in host i ?f G))" for h
    using r(5) [of h] by (auto simp: s' window_of_def of_host_touch incs hs newest_n_map)
  have "list_all (\<lambda>(h, i). parse (print (si_record i)) = Some (si_record i)) (touch_in host i ?f G)"
    using js by (fastforce simp: list_all_iff touch_in_def touch_def)
  then show ?thesis using True touch_history [OF r(1) now, of host i now u "note" res] r(2,3) win
      touch_matches [OF r(1,4) inG inc(2) small, of now u "note" res]
    by (auto simp: represents_def s' intro: exI [of _ k])
next
  case False
  then show ?thesis using t by (auto simp: triage_def split: option.splits)
qed

lemma represents_same:
  assumes "represents print parse G (clock, s)" and "clock \<le> now" "now < 2 ^ 63"
    and "so_next_id s' = so_next_id s" and "hm_ok (so_hosts s) \<Longrightarrow> hm_ok (so_hosts s')" and "\<And>h. window_of s' h = window_of s h"
    and "\<And>d. so_db s = Some d \<Longrightarrow> \<exists>d'. so_db s' = Some d' \<and> db_incidents d' = db_incidents d"
  shows "represents print parse G (now, s')"
proof -
  have "history_ok now (so_next_id s) G" using assms(1-3) by (fastforce simp: represents_def history_ok_def list_all_iff)
  then show ?thesis using assms by (fastforce simp: represents_def)
qed

lemma heartbeat_simulates:
  "represents print parse G (clock, s) \<Longrightarrow> clock \<le> now \<Longrightarrow> now < 2 ^ 63 \<Longrightarrow>
   represents print parse G (now, store_heartbeat now host kern ip hb s)"
  by (erule represents_same)
    (auto simp: store_heartbeat_def Let_def window_of_def beat_def unwrap_or_def host_default_def split: option.splits)

lemma mark_expected_simulates:
  "represents print parse G (clock, s) \<Longrightarrow> clock \<le> now \<Longrightarrow> now < 2 ^ 63 \<Longrightarrow>
   represents print parse G (now, snd (mark_expected now host i u s))"
  by (erule represents_same) (auto simp: mark_expected_def Let_def window_of_def split: option.splits)

lemma users_simulate:
  "represents print parse G (clock, s) \<Longrightarrow> clock \<le> now \<Longrightarrow> now < 2 ^ 63 \<Longrightarrow>
   represents print parse G (now, snd (create_user hash now username password role s))"
  "represents print parse G (clock, s) \<Longrightarrow> clock \<le> now \<Longrightarrow> now < 2 ^ 63 \<Longrightarrow> represents print parse G (now, snd (delete_user username s))"
  by (erule represents_same; auto simp: create_user_def delete_user_def Let_def window_of_def split: option.splits)+

section \<open>Telemetry\<close>

definition telemetry :: "host_state \<Rightarrow> _" where
  "telemetry st = (hs_last_heartbeat st, hs_agent_version st, hs_uptime_secs st, hs_attestation_misses st, hs_events st,
     hs_drops st, hs_decode_panics st, hs_sensors_verified st, hs_sensors_active st, hs_sensors_total st)"

definition row_telemetry :: "host_row list \<Rightarrow> string \<Rightarrow> _" where
  "row_telemetry rows h = telemetry (case find (\<lambda>r. hr_host r = h) rows of None \<Rightarrow> host_default | Some r \<Rightarrow> load_host r host_default)"

definition telemetry_ok :: "store \<Rightarrow> bool" where
  "telemetry_ok s \<longleftrightarrow> (\<exists>d. so_db s = Some d \<and> distinct (map hr_host (db_hosts d))
     \<and> (\<forall>r \<in> set (db_hosts d). hm_get (so_hosts s) (hr_host r) \<noteq> None)
     \<and> (\<forall>h st. hm_get (so_hosts s) h = Some st \<longrightarrow> telemetry st = row_telemetry (db_hosts d) h))"

lemma telemetry_load: "telemetry (load_host r st) = telemetry (load_host r host_default)"
  by (simp add: telemetry_def load_host_def)

lemma u32_uint [simp]: "u32 (uint w) = w"
  by (simp add: u32_def)

lemma telemetry_beat: "telemetry (load_host (beat_row host now hb (beat kern ip now hb st)) x) = telemetry (beat kern ip now hb st)"
  by (cases "hb_sensors_verified hb") (simp_all add: telemetry_def load_host_def beat_row_def beat_def)

lemma find_map_key: "(\<And>q. key (f q) = key q) \<Longrightarrow> find (\<lambda>q. key q = h) (map f rows) = map_option f (find (\<lambda>q. key q = h) rows)"
  by (induction rows) auto

lemma find_key: "h \<in> key ` set rows \<Longrightarrow> \<exists>q. find (\<lambda>q. key q = h) rows = Some q \<and> key q = h"
  by (induction rows) auto

lemma find_no_key: "h \<notin> key ` set rows \<Longrightarrow> find (\<lambda>q. key q = h) rows = None"
  by (induction rows) auto

lemma upsert_hosts:
  "map hr_host (upsert_host r rows) = (if hr_host r \<in> set (map hr_host rows) then map hr_host rows else map hr_host rows @ [hr_host r])"
proof -
  have "map hr_host (map (\<lambda>q. if hr_host q = hr_host r then r\<lparr>hr_first_seen := hr_first_seen q\<rparr> else q) rows) = map hr_host rows"
    by (induction rows) simp_all
  then show ?thesis by (simp only: upsert_host_def split: if_split) simp
qed

lemma upsert_telemetry:
  "row_telemetry (upsert_host r rows) h = (if h = hr_host r then telemetry (load_host r host_default) else row_telemetry rows h)"
proof (cases "hr_host r \<in> hr_host ` set rows")
  case True
  have k: "hr_host (if hr_host q = hr_host r then r\<lparr>hr_first_seen := hr_first_seen q\<rparr> else q) = hr_host q" for q by simp
  obtain q where q: "find (\<lambda>q. hr_host q = hr_host r) rows = Some q" "hr_host q = hr_host r" using find_key [OF True] by blast
  have t: "telemetry (load_host (r\<lparr>hr_first_seen := f\<rparr>) host_default) = telemetry (load_host r host_default)" for f
    by (simp add: telemetry_def load_host_def)
  have other: "hr_host q = h" if "find (\<lambda>q. hr_host q = h) rows = Some q" for q using that by (auto dest: find_SomeD)
  let ?f = "\<lambda>q. if hr_host q = hr_host r then r\<lparr>hr_first_seen := hr_first_seen q\<rparr> else q"
  have up: "find (\<lambda>q. hr_host q = h) (upsert_host r rows) = map_option ?f (find (\<lambda>q. hr_host q = h) rows)"
    using True find_map_key [where key = hr_host and f = ?f, OF k, of h rows] by (simp add: upsert_host_def)
  show ?thesis
  proof (cases "h = hr_host r")
    case True
    then show ?thesis using q t unfolding row_telemetry_def up by simp
  next
    case False
    have "map_option ?f (find (\<lambda>q. hr_host q = h) rows) = find (\<lambda>q. hr_host q = h) rows"
    proof (cases "find (\<lambda>q. hr_host q = h) rows")
      case (Some q')
      then have "hr_host q' = h" by (rule other)
      then show ?thesis using Some False by simp
    qed simp
    then show ?thesis using False unfolding row_telemetry_def up by simp
  qed
next
  case False
  then have "upsert_host r rows = rows @ [r]" by (auto simp: upsert_host_def)
  then show ?thesis using find_no_key [OF False] by (auto simp: row_telemetry_def find_append split: option.splits)
qed

lemma heartbeat_telemetry:
  assumes "telemetry_ok s"
  shows "telemetry_ok (store_heartbeat now host kern ip hb s)"
proof -
  obtain d where d: "so_db s = Some d" "distinct (map hr_host (db_hosts d))"
    "\<And>r. r \<in> set (db_hosts d) \<Longrightarrow> hm_get (so_hosts s) (hr_host r) \<noteq> None"
    "\<And>h st. hm_get (so_hosts s) h = Some st \<Longrightarrow> telemetry st = row_telemetry (db_hosts d) h"
    using assms by (auto simp: telemetry_ok_def)
  let ?st = "beat kern ip now hb (unwrap_or host_default (hm_get (so_hosts s) host))"
  let ?r = "beat_row host now hb ?st"
  have h: "hr_host ?r = host" by (simp add: beat_row_def)
  have up: "set (map hr_host (upsert_host ?r (db_hosts d))) = insert host (set (map hr_host (db_hosts d)))"
    "distinct (map hr_host (upsert_host ?r (db_hosts d)))"
    using d(2) h by (simp_all add: upsert_hosts insert_absorb)
  let ?s = "store_heartbeat now host kern ip hb s"
  have hs: "hm_get (so_hosts ?s) k = (if k = host then Some ?st else hm_get (so_hosts s) k)" for k
    by (simp add: store_heartbeat_def Let_def)
  have db: "so_db ?s = Some (d\<lparr>db_hosts := upsert_host ?r (db_hosts d)\<rparr>)" by (simp add: store_heartbeat_def Let_def d(1))
  have "hm_get (so_hosts ?s) (hr_host r) \<noteq> None" if r: "r \<in> set (upsert_host ?r (db_hosts d))" for r
  proof (cases "hr_host r = host")
    case False
    then have "hr_host r \<in> hr_host ` set (db_hosts d)" using up(1) r by auto
    then show ?thesis using d(3) False by (auto simp: hs)
  qed (simp add: hs)
  moreover have "telemetry st = row_telemetry (upsert_host ?r (db_hosts d)) k" if "hm_get (so_hosts ?s) k = Some st" for k st
    using that d(4) by (auto simp: hs upsert_telemetry h telemetry_beat split: if_splits)
  ultimately show ?thesis using db up(2) by (simp add: telemetry_ok_def)
qed

lemma telemetry_same:
  assumes "telemetry_ok s" and "\<And>d. so_db s = Some d \<Longrightarrow> \<exists>d'. so_db s' = Some d' \<and> db_hosts d' = db_hosts d"
    and "\<And>h. hm_get (so_hosts s) h \<noteq> None \<Longrightarrow> hm_get (so_hosts s') h \<noteq> None"
    and "\<And>h st. hm_get (so_hosts s') h = Some st \<Longrightarrow> telemetry st = telemetry (unwrap_or host_default (hm_get (so_hosts s) h))"
  shows "telemetry_ok s'"
proof -
  obtain d where d: "so_db s = Some d" "distinct (map hr_host (db_hosts d))"
    "\<And>r. r \<in> set (db_hosts d) \<Longrightarrow> hm_get (so_hosts s) (hr_host r) \<noteq> None"
    "\<And>h st. hm_get (so_hosts s) h = Some st \<Longrightarrow> telemetry st = row_telemetry (db_hosts d) h"
    using assms(1) by (auto simp: telemetry_ok_def)
  have none: "row_telemetry (db_hosts d) h = telemetry host_default" if "hm_get (so_hosts s) h = None" for h
  proof -
    have "h \<notin> hr_host ` set (db_hosts d)" using d(3) that by (metis imageE)
    then show ?thesis using find_no_key [of h hr_host "db_hosts d"] by (simp add: row_telemetry_def)
  qed
  have "telemetry st = row_telemetry (db_hosts d) h" if "hm_get (so_hosts s') h = Some st" for h st
    using assms(4) [OF that] d(4) [of h] none [of h] by (cases "hm_get (so_hosts s) h") (simp_all add: unwrap_or_def)
  moreover obtain d' where "so_db s' = Some d'" "db_hosts d' = db_hosts d" using assms(2) [OF d(1)] by blast
  ultimately show ?thesis using d assms(3) by (simp add: telemetry_ok_def)
qed

lemma telemetry_incidents [simp]: "telemetry (st\<lparr>hs_incidents := x\<rparr>) = telemetry st" "telemetry (push_incident kern ip now inc st) = telemetry st"
  by (simp_all add: telemetry_def push_incident_def Let_def)

lemma other_telemetry:
  "telemetry_ok s \<Longrightarrow> telemetry_ok (snd (triage now host i u note res s))"
  "telemetry_ok s \<Longrightarrow> telemetry_ok (snd (mark_expected now host i u s))"
  "telemetry_ok s \<Longrightarrow> telemetry_ok (snd (create_user hash now username password role s))"
  "telemetry_ok s \<Longrightarrow> telemetry_ok (snd (delete_user username s))"
  by (erule telemetry_same;
      fastforce simp: triage_def mark_expected_def create_user_def delete_user_def Let_def unwrap_or_def split: option.splits if_splits)+

lemma ingest_telemetry:
  assumes "telemetry_ok s"
  shows "telemetry_ok (ingest print now host kern ip v s)"
proof (rule telemetry_same [OF assms])
  let ?s1 = "maybe_prune now (s\<lparr>so_next_id := so_next_id s + 1\<rparr>)"
  have h: "so_hosts ?s1 = so_hosts s" by (simp add: maybe_prune_def Let_def split: option.splits)
  have hs: "hm_get (so_hosts (ingest print now host kern ip v s)) k
      = (if k = host then Some (push_incident kern ip now (incident_of (so_next_id s) now v)
           (unwrap_or host_default (hm_get (so_hosts s) host))) else hm_get (so_hosts s) k)" for k
    by (simp add: ingest_def apply_incident_def Let_def h unwrap_or_def)
  show "hm_get (so_hosts (ingest print now host kern ip v s)) k \<noteq> None" if "hm_get (so_hosts s) k \<noteq> None" for k
    using that by (simp add: hs)
  show "telemetry st = telemetry (unwrap_or host_default (hm_get (so_hosts s) k))"
    if "hm_get (so_hosts (ingest print now host kern ip v s)) k = Some st" for k st
    using that by (auto simp: hs unwrap_or_def split: if_splits)
  show "\<exists>d'. so_db (ingest print now host kern ip v s) = Some d' \<and> db_hosts d' = db_hosts d" if "so_db s = Some d" for d
    using that by (simp add: ingest_def apply_incident_def Let_def maybe_prune_def prune_def)
qed

lemma small_succ: "w < 2 ^ 63 - 1 \<Longrightarrow> w + 1 < (2 ^ 63 :: u64) \<and> w < w + 1"
proof -
  assume "w < (2 ^ 63 - 1 :: u64)"
  then have "unat w < 2 ^ 63 - 1" by (simp add: word_less_nat_alt)
  moreover from this have "unat (w + 1) = unat w + 1" using unat_add_lem [of w 1] by simp
  ultimately show ?thesis by (simp add: word_less_nat_alt)
qed

section \<open>Reopening the journal\<close>

lemma row_incident:
  assumes "row_matches print (h, i) r" and "parse (print (si_record i)) = Some (si_record i)"
    and "si_severity i = field_str (si_record i) ''severity'' ''INFO''" "si_score i = ucast (unwrap_or 0 (get_u64 ''score'' (si_record i)))"
  shows "incident_of_row parse r = i" "rw_host r = h"
  using assms by (auto simp: row_matches_def incident_of_row_def unwrap_or_def Let_def)

lemma load_row_facts:
  "hm_ok (so_hosts s) \<Longrightarrow> hm_ok (so_hosts (load_row parse r s))"
  "so_db (load_row parse r s) = so_db s" "so_since_prune (load_row parse r s) = so_since_prune s"
  by (simp_all add: load_row_def apply_incident_def)

lemma load_rows_window:
  assumes "list_all2 (row_matches print) G rows" and "hm_ok (so_hosts s)"
    and "list_all (\<lambda>(h, i). parse (print (si_record i)) = Some (si_record i)
          \<and> si_severity i = field_str (si_record i) ''severity'' ''INFO''
          \<and> si_score i = ucast (unwrap_or 0 (get_u64 ''score'' (si_record i)))) G"
    and "\<And>h. window_of s h = newest_n MAX_PER_HOST (xs h)"
  shows "hm_ok (so_hosts (fold (load_row parse) rows s))
    \<and> window_of (fold (load_row parse) rows s) h = newest_n MAX_PER_HOST (xs h @ of_host h G)"
  using assms
proof (induction arbitrary: s xs rule: list_all2_induct)
  case (Cons x G r rows)
  obtain h' i where x: "x = (h', i)" by (cases x)
  note ri = row_incident [OF Cons.hyps(1) [unfolded x], of parse]
  have inc: "incident_of_row parse r = i" "rw_host r = h'" using ri Cons.prems(2) by (auto simp: x)
  have ok: "hm_ok (so_hosts (load_row parse r s))" using load_row_facts(1) Cons.prems(1) .
  have w: "window_of (load_row parse r s) k = newest_n MAX_PER_HOST (if k = h' then xs h' @ [i] else xs k)" for k
    using Cons.prems(1,3) by (simp add: load_row_def inc window_entry newest_n_append)
  have rest: "list_all (\<lambda>(h, i). parse (print (si_record i)) = Some (si_record i)
          \<and> si_severity i = field_str (si_record i) ''severity'' ''INFO''
          \<and> si_score i = ucast (unwrap_or 0 (get_u64 ''score'' (si_record i)))) G" using Cons.prems(2) by simp
  from Cons.IH [OF ok rest w] show ?case by (simp add: x)
qed simp

lemma load_rows_telemetry:
  assumes "\<And>h st. hm_get (so_hosts s) h = Some st \<Longrightarrow> telemetry st = telemetry host_default"
  shows "hm_get (so_hosts (fold (load_row parse) rows s)) h = Some st \<Longrightarrow> telemetry st = telemetry host_default"
  using assms
proof (induction rows arbitrary: s)
  case (Cons r rows)
  have "telemetry st' = telemetry host_default" if "hm_get (so_hosts (load_row parse r s)) k = Some st'" for k st'
    using that Cons.prems(2) by (auto simp: load_row_def apply_incident_def split: if_splits option.splits)
  then show ?case using Cons by simp
qed simp

lemma load_host_incidents: "hs_incidents (load_host r st) = hs_incidents st" "hs_incidents host_default = []"
  by (simp_all add: load_host_def host_default_def)

lemma load_hosts:
  assumes "distinct (map hr_host rows)" and "hm_ok hs"
  shows "hm_ok (fold (\<lambda>r. hm_entry (hr_host r) host_default (load_host r)) rows hs)
    \<and> hm_get (fold (\<lambda>r. hm_entry (hr_host r) host_default (load_host r)) rows hs) h
      = (case find (\<lambda>r. hr_host r = h) rows of None \<Rightarrow> hm_get hs h
         | Some r \<Rightarrow> Some (load_host r (unwrap_or host_default (hm_get hs h))))"
  using assms
proof (induction rows arbitrary: hs)
  case (Cons r rows)
  have nf: "find (\<lambda>q. hr_host q = hr_host r) rows = None" using Cons.prems(1) find_no_key [of "hr_host r" hr_host rows] by simp
  let ?hs = "hm_entry (hr_host r) host_default (load_host r) hs"
  have "hm_ok ?hs" using Cons.prems(2) by simp
  from Cons.IH [OF _ this] Cons.prems(1) show ?case
    by (cases "h = hr_host r") (simp_all add: nf unwrap_or_def split: option.splits)
qed simp

lemma rows_ids: "list_all2 (row_matches print) H rows \<Longrightarrow> map (\<lambda>r. u64 (rw_id r)) rows = map (si_id \<circ> snd) H"
  by (induction rule: list_all2_induct) (auto simp: row_matches_def)

lemma reopened_history:
  assumes "history_ok clock nxt H" and "list_all2 (row_matches print) H rows" and "clock \<le> now" "now < 2 ^ 63"
  shows "history_ok now (max_or 0 (map (\<lambda>r. u64 (rw_id r)) rows) + 1) H"
proof -
  let ?m = "max_or 0 (map (si_id \<circ> snd) H)"
  have le: "si_id (snd x) \<le> ?m" if "x \<in> set H" for x using that by (intro max_or_upper) auto
  have "H = [] \<Longrightarrow> ?m = 0" by simp
  moreover have "?m \<in> set (map (si_id \<circ> snd) H)" if "H \<noteq> []" using that by (intro max_or_in) simp
  ultimately have "?m < 2 ^ 63 - 1"
    using assms(1) by (cases "H = []") (auto simp: history_ok_def list_all_iff word_less_nat_alt)
  then have m: "?m + 1 < 2 ^ 63" "?m < ?m + 1" using small_succ by blast+
  have "si_id (snd x) < ?m + 1" if "x \<in> set H" for x using order.strict_trans1 [OF le [OF that] m(2)] .
  then show ?thesis using assms m unfolding rows_ids [OF assms(2)] by (fastforce simp: history_ok_def list_all_iff)
qed

lemma persistent_restores:
  assumes rep: "represents print parse G (clock, s)" and tele: "telemetry_ok s" and now: "clock \<le> now" "now < 2 ^ 63"
    and d: "so_db s = Some d" and op: "persistent parse now retain d = Some s'"
  shows "(\<exists>j d'. represents print parse (drop j G) (now, s') \<and> so_db s' = Some d' \<and> list_all2 (row_matches print) (drop j G) (db_incidents d') \<and> db_hosts d' = db_hosts d)
    \<and> telemetry_ok s'"
proof -
  from rep d obtain k where r: "history_ok clock (so_next_id s) G" "list_all2 (row_matches print) (drop k G) (db_incidents d)"
    and js: "list_all (\<lambda>(h, i). parse (print (si_record i)) = Some (si_record i)) G" by (auto simp: represents_def)
  let ?rows = "prune_rows now retain (db_incidents d)"
  note hr0 = history_rows [OF history_ok_drop [OF r(1), of k] r(2)]
  obtain j0 where j0: "?rows = drop j0 (db_incidents d)" using prune_drops [OF hr0(1-3)] by blast
  let ?H = "drop (k + j0) G"
  have rows: "list_all2 (row_matches print) ?H ?rows"
    using list_all2_dropI [OF r(2), of j0] by (simp add: j0 add.commute)
  have hH: "history_ok clock (so_next_id s) ?H" by (rule history_ok_drop [OF r(1)])
  have srt: "sort_key rw_id ?rows = ?rows" using history_rows(2) [OF hH rows] by (rule sort_key_id_if_sorted)
  let ?s0 = "fold (load_row parse) ?rows store_new"
  let ?hs = "fold (\<lambda>r. hm_entry (hr_host r) host_default (load_host r)) (db_hosts d) (so_hosts ?s0)"
  have s': "s' = ?s0\<lparr>so_next_id := max_or 0 (map (\<lambda>r. u64 (rw_id r)) ?rows) + 1, so_hosts := ?hs,
      so_db := Some (d\<lparr>db_version := SCHEMA_VERSION, db_incidents := ?rows\<rparr>), so_retain_days := retain\<rparr>"
    using op by (auto simp: persistent_def migrate_def Let_def srt prune_def split: if_splits)
  have law: "list_all (\<lambda>(h, i). parse (print (si_record i)) = Some (si_record i)
          \<and> si_severity i = field_str (si_record i) ''severity'' ''INFO''
          \<and> si_score i = ucast (unwrap_or 0 (get_u64 ''score'' (si_record i)))) ?H"
    using hH js by (fastforce simp: history_ok_def list_all_iff dest: in_set_dropD)
  have w0: "window_of store_new h = newest_n MAX_PER_HOST []" for h by (simp add: window_of_def store_new_def newest_n_def)
  have load: "hm_ok (so_hosts ?s0)" "window_of ?s0 h = newest_n MAX_PER_HOST (of_host h ?H)" for h
    using load_rows_window [OF rows _ law w0] by (auto simp: store_new_def)
  obtain dist: "distinct (map hr_host (db_hosts d))" using tele d by (auto simp: telemetry_ok_def)
  have hs: "hm_ok ?hs" "hm_get ?hs h = (case find (\<lambda>r. hr_host r = h) (db_hosts d) of None \<Rightarrow> hm_get (so_hosts ?s0) h
         | Some r \<Rightarrow> Some (load_host r (unwrap_or host_default (hm_get (so_hosts ?s0) h))))" for h
    using load_hosts [OF dist load(1)] by auto
  have "window_of s' h = newest_n MAX_PER_HOST (of_host h ?H)" for h
    using load(2) [of h] 
    by (auto simp: window_of_def s' hs load_host_incidents unwrap_or_def split: option.splits)
  then have rep': "represents print parse ?H (now, s')"
    using reopened_history [OF hH rows now] rows hs(1) law
    by (auto simp: represents_def s' list_all_iff intro!: exI [of _ 0])
  have def0: "telemetry st = telemetry host_default" if "hm_get (so_hosts ?s0) h = Some st" for h st
    using load_rows_telemetry [OF _ that] by (simp add: store_new_def)
  have "telemetry st = row_telemetry (db_hosts d) h" if "hm_get (so_hosts s') h = Some st" for h st
  proof (cases "find (\<lambda>r. hr_host r = h) (db_hosts d)")
    case None
    then show ?thesis using that def0 [of h st] by (simp add: s' hs row_telemetry_def)
  next
    case (Some r)
    then show ?thesis using that telemetry_load [of r "unwrap_or host_default (hm_get (so_hosts ?s0) h)"]
      by (auto simp: s' hs row_telemetry_def)
  qed
  moreover have "hm_get (so_hosts s') (hr_host r) \<noteq> None" if "r \<in> set (db_hosts d)" for r
    using find_key [of "hr_host r" hr_host "db_hosts d"] that by (auto simp: s' hs)
  ultimately have "telemetry_ok s'" using dist by (simp add: telemetry_ok_def s')
  moreover have "\<exists>d'. so_db s' = Some d' \<and> list_all2 (row_matches print) ?H (db_incidents d') \<and> db_hosts d' = db_hosts d"
    using rows by (simp add: s')
  ultimately show ?thesis using rep' by blast
qed

section \<open>Everything the server does to its store\<close>

inductive store_step :: "(json \<Rightarrow> string) \<Rightarrow> (string \<Rightarrow> json option) \<Rightarrow> u64 \<times> store \<Rightarrow> u64 \<times> store \<Rightarrow> bool" for print parse where
  step_ingest: "clock \<le> now \<Longrightarrow> now < 2 ^ 63 \<Longrightarrow> so_next_id s < 2 ^ 63 - 1 \<Longrightarrow> parse (print v) = Some v \<Longrightarrow>
    store_step print parse (clock, s) (now, ingest print now host kern ip v s)"
| step_heartbeat: "clock \<le> now \<Longrightarrow> now < 2 ^ 63 \<Longrightarrow> store_step print parse (clock, s) (now, store_heartbeat now host kern ip hb s)"
| step_triage: "clock \<le> now \<Longrightarrow> now < 2 ^ 63 \<Longrightarrow> store_step print parse (clock, s) (now, snd (triage now host i u note res s))"
| step_expect: "clock \<le> now \<Longrightarrow> now < 2 ^ 63 \<Longrightarrow> store_step print parse (clock, s) (now, snd (mark_expected now host i u s))"
| step_create: "clock \<le> now \<Longrightarrow> now < 2 ^ 63 \<Longrightarrow>
    store_step print parse (clock, s) (now, snd (create_user hash now username password role s))"
| step_restart: "clock \<le> now \<Longrightarrow> now < 2 ^ 63 \<Longrightarrow> so_db s = Some d \<Longrightarrow> persistent parse now retain d = Some s' \<Longrightarrow>
    store_step print parse (clock, s) (now, s')"
| step_delete: "clock \<le> now \<Longrightarrow> now < 2 ^ 63 \<Longrightarrow> store_step print parse (clock, s) (now, snd (delete_user username s))"

definition store_init :: "u64 \<times> store \<Rightarrow> bool" where
  \<comment> \<open>a journal that was just created\<close>
  "store_init = (\<lambda>(clock, s). clock < 2 ^ 63 \<and> (\<exists>retain parse. persistent parse clock retain empty_db = Some s))"

definition store_invar :: "(json \<Rightarrow> string) \<Rightarrow> (string \<Rightarrow> json option) \<Rightarrow> u64 \<times> store \<Rightarrow> bool" where
  "store_invar print parse cs \<longleftrightarrow> (\<exists>G. represents print parse G cs) \<and> telemetry_ok (snd cs)"

lemma represents_tick: "represents print parse G (clock, s) \<Longrightarrow> clock \<le> now \<Longrightarrow> now < 2 ^ 63 \<Longrightarrow> represents print parse G (now, s)"
  by (erule represents_same) auto

lemma init_represents: "store_init cs \<Longrightarrow> represents print parse [] cs \<and> telemetry_ok (snd cs)"
  by (auto simp: store_init_def persistent_def migrate_def empty_db_def SCHEMA_VERSION_def prune_def prune_rows_def Let_def
      represents_def history_ok_def store_new_def window_of_def newest_n_def telemetry_ok_def)

lemma step_represents:
  assumes "store_step print parse cs cs'" and "store_invar print parse cs"
  shows "store_invar print parse cs'"
proof -
  obtain G where G: "represents print parse G cs" and t: "telemetry_ok (snd cs)" using assms(2) by (auto simp: store_invar_def)
  have tr: "\<exists>G. represents print parse G (now, snd (triage now host i u note res s))"
    if "represents print parse G (clock, s)" "clock \<le> now" "now < 2 ^ 63" for clock now s host i u "note" res
  proof -
    obtain ok s' where o: "triage now host i u note res s = (ok, s')" by fastforce
    show ?thesis using triage_simulates [OF that o] represents_tick [OF that] o by (auto split: if_splits)
  qed
  have rs: "(\<exists>G. represents print parse G (now, s')) \<and> telemetry_ok s'"
    if "cs = (clock, s)" "clock \<le> now" "now < 2 ^ 63" "so_db s = Some d" "persistent parse now retain d = Some s'" for clock now s d retain s'
    using persistent_restores [OF G [unfolded that(1)] _ that(2-5)] t that(1) by auto
  have "\<exists>G. represents print parse G cs'" using assms(1)
  proof (cases rule: store_step.cases)
    case (step_ingest clock now s host kern ip v)
    from ingest_simulates [OF G [unfolded step_ingest(1)] step_ingest(3,4)] small_succ [OF step_ingest(5)] step_ingest(6)
    show ?thesis unfolding step_ingest(2) by blast
  next
    case (step_heartbeat clock now s host kern ip hb)
    from heartbeat_simulates [OF G [unfolded step_heartbeat(1)] step_heartbeat(3,4)] show ?thesis unfolding step_heartbeat(2) by blast
  next
    case (step_triage clock now s host i u "note" res)
    from tr [OF G [unfolded step_triage(1)] step_triage(3,4)] show ?thesis unfolding step_triage(2) .
  next
    case (step_expect clock now s host i u)
    from mark_expected_simulates [OF G [unfolded step_expect(1)] step_expect(3,4)] show ?thesis unfolding step_expect(2) by blast
  next
    case (step_create clock now s hash username password role)
    from users_simulate(1) [OF G [unfolded step_create(1)] step_create(3,4)] show ?thesis unfolding step_create(2) by blast
  next
    case (step_restart clock now s d retain s')
    from rs [OF step_restart(1,3-6)] show ?thesis unfolding step_restart(2) by blast
  next
    case (step_delete clock now s username)
    from users_simulate(2) [OF G [unfolded step_delete(1)] step_delete(3,4)] show ?thesis unfolding step_delete(2) by blast
  qed
  moreover have "telemetry_ok (snd cs')"
    using assms(1) t by (cases rule: store_step.cases) (auto simp: heartbeat_telemetry other_telemetry ingest_telemetry dest: rs)
  ultimately show ?thesis by (simp add: store_invar_def)
qed

interpretation sto: transition_system store_init "store_step print parse" "store_invar print parse"
proof
  show "store_invar print parse s" if "store_init s" for s using init_represents [OF that] by (auto simp: store_invar_def)
  show "store_invar print parse s'" if "store_invar print parse s" "store_step print parse s s'" for s s' using step_represents that by blast
qed

section \<open>Properties\<close>

lemma reachable_store:
  assumes "store_init cs" and "(store_step print parse)\<^sup>*\<^sup>* cs (clock, s)"
  obtains G where "represents print parse G (clock, s)" "telemetry_ok s"
  using sto.invar_reachable [OF assms] by (auto simp: store_invar_def)


lemma filter_newest:
  assumes "\<And>x. x \<in> set A \<Longrightarrow> \<not> P x" and "\<And>x. x \<in> set B \<Longrightarrow> P x"
  shows "filter P (newest_n n (A @ B)) = newest_n n B"
proof -
  have "filter P (drop m A) = []" for m using assms(1) by (auto simp: filter_empty_conv dest: in_set_dropD)
  moreover have "filter P (drop m B) = drop m B" for m using assms(2) by (auto simp: filter_id_conv dest: in_set_dropD)
  moreover from this [of 0] have "filter P B = B" by simp
  ultimately show ?thesis by (cases "length B \<le> n") (simp_all add: newest_n_def)
qed


text \<open>A server that received one incident and one heartbeat, for the examples.\<close>

definition fresh_store :: store where
  "fresh_store = the (persistent (\<lambda>_. Some JNull) 5 0 empty_db)"

lemma fresh_persistent: "persistent parse 5 0 empty_db = Some (store_new\<lparr>so_db := Some (empty_db\<lparr>db_version := 4\<rparr>)\<rparr>)"
  by (simp add: persistent_def migrate_def empty_db_def prune_def prune_rows_def store_new_def Let_def SCHEMA_VERSION_def)

lemma fresh_init: "store_init (5, fresh_store)"
  using fresh_persistent [of "\<lambda>_. Some JNull"] by (auto simp: store_init_def fresh_store_def)

lemma fresh_store_eq: "fresh_store = \<lparr>so_hosts = hm_empty, so_db = Some \<lparr>db_version = 4, db_incidents = [], db_hosts = [],
    db_expected = [], db_users = [], db_secret = None\<rparr>, so_next_id = 1, so_since_prune = 0, so_retain_days = 0\<rparr>"
  unfolding fresh_store_def fresh_persistent by (simp add: store_new_def empty_db_def)

definition one_incident :: store where
  "one_incident = ingest (\<lambda>_. ''null'') 6 ''web'' [] [] JNull fresh_store"

lemma one_reached: "(store_step (\<lambda>_. ''null'') (\<lambda>_. Some JNull))\<^sup>*\<^sup>* (5, fresh_store) (6, one_incident)"
  using step_ingest [of 5 6 fresh_store "\<lambda>_. Some JNull" "\<lambda>_. ''null''" JNull "''web''" "[]" "[]"]
  by (auto simp: one_incident_def fresh_store_eq)



end
