(* ===== verification/Store_Props.thy ===== *)
theory Store_Props
  imports Store_Inv
begin

text \<open>
  What the fleet server promises about accounts, about the order of the fleet view and about the
  baselines operators teach it.
\<close>

section \<open>Accounts\<close>

definition accounts_ok :: "store \<Rightarrow> bool" where
  "accounts_ok s \<longleftrightarrow> (\<exists>d. so_db s = Some d \<and> distinct (map us_username (db_users d))
     \<and> (\<exists>u \<in> set (db_users d). us_role u = ''admin'') \<and> (\<forall>u \<in> set (db_users d). username_ok (us_username u) \<and> us_role u \<in> {''admin'', ''viewer''}))"

lemma accounts_same:
  "accounts_ok s \<Longrightarrow> (\<And>d. so_db s = Some d \<Longrightarrow> \<exists>d'. so_db s' = Some d' \<and> db_users d' = db_users d) \<Longrightarrow> accounts_ok s'"
  by (auto simp: accounts_ok_def) metis

lemma create_accounts: "accounts_ok s \<Longrightarrow> accounts_ok (snd (create_user hash now username password role s))"
  by (auto simp: accounts_ok_def create_user_def find_user_def find_None_iff_all Let_def split: option.splits)

lemma delete_accounts:
  assumes "accounts_ok s"
  shows "accounts_ok (snd (delete_user username s))"
proof -
  obtain d where d: "so_db s = Some d" "distinct (map us_username (db_users d))"
    "\<exists>u \<in> set (db_users d). us_role u = ''admin''" "\<forall>u \<in> set (db_users d). username_ok (us_username u) \<and> us_role u \<in> {''admin'', ''viewer''}"
    using assms by (auto simp: accounts_ok_def)
  let ?admins = "filter (\<lambda>u. us_role u = ''admin'') (db_users d)"
  have "\<exists>u \<in> set (db_users d). us_role u = ''admin'' \<and> us_username u \<noteq> username"
    if "\<not> (case find_user username d of None \<Rightarrow> False | Some u \<Rightarrow> us_role u = ''admin'') \<or> \<not> length ?admins \<le> 1"
  proof (rule ccontr)
    assume no: "\<not> ?thesis"
    then have all: "us_username u = username" if "u \<in> set ?admins" for u using that by auto
    obtain a where a: "a \<in> set ?admins" using d(3) by auto
    have da: "distinct (map us_username ?admins)" using d(2) by (simp add: distinct_map_filter)
    have one: "length ?admins \<le> 1"
    proof -
      have "us_username ` set ?admins \<subseteq> {username}" using all by blast
      then have "card (us_username ` set ?admins) \<le> 1" using card_mono [of "{username}" "us_username ` set ?admins"] by simp
      then show ?thesis using distinct_card [OF da] by simp
    qed
    have "find_user username d \<noteq> None" using a all by (auto simp: find_user_def find_None_iff_all)
    then obtain u where u: "find_user username d = Some u" by blast
    then have "u \<in> set (db_users d)" "us_username u = username" by (auto simp: find_user_def dest: find_SomeD)
    then have "u = a" using d(2) a all by (auto simp: distinct_map inj_on_def)
    then show False using that one u a by simp
  qed
  then show ?thesis using d
    by (auto simp: accounts_ok_def delete_user_def Let_def distinct_map_filter split: if_splits)
qed

lemma accounts_step:
  assumes "store_step print parse x y" and "accounts_ok (snd x)"
  shows "accounts_ok (snd y)"
  using assms
proof (cases rule: store_step.cases)
  case (step_ingest clock now s host kern ip v)
  then show ?thesis using assms(2)
    by (auto intro!: accounts_same [of s] simp: ingest_def apply_incident_def maybe_prune_def prune_def Let_def)
next
  case (step_restart clock now s d retain s')
  then show ?thesis using assms(2)
    by (auto intro!: accounts_same [of s] simp: persistent_def migrate_def prune_def Let_def split: if_splits)
next
  case (step_triage clock now s host i u nt res)
  then show ?thesis using assms(2) by (auto intro!: accounts_same [of s] simp: triage_def split: option.splits)
next
  case (step_expect clock now s host i u)
  then show ?thesis using assms(2) by (auto intro!: accounts_same [of s] simp: mark_expected_def Let_def split: option.splits)
next
  case (step_heartbeat clock now s host kern ip hb)
  then show ?thesis using assms(2) by (auto intro!: accounts_same [of s] simp: store_heartbeat_def Let_def)
qed (auto simp: create_accounts delete_accounts)

lemma accounts_steps: "(store_step print parse)\<^sup>*\<^sup>* x y \<Longrightarrow> accounts_ok (snd x) \<Longrightarrow> accounts_ok (snd y)"
  by (induction rule: rtranclp_induct) (auto intro: accounts_step)

text \<open>
  C21 (invariant): Nobody can lock everybody out. Whatever the server does, whichever accounts are created and deleted
  and however often it restarts, an administrator remains, no two accounts share a name, every account is
  an administrator's or a viewer's, and no name contains the separator of the session token.
\<close>

theorem admin_remains:
  assumes "(store_step print parse)\<^sup>*\<^sup>* (c, s) (c', s')" and "accounts_ok s"
  shows "accounts_ok s' \<and> (\<forall>d u. so_db s' = Some d \<and> u \<in> set (db_users d) \<longrightarrow> CHR ''|'' \<notin> set (us_username u))"
proof -
  have "accounts_ok s'" using accounts_steps [OF assms(1)] assms(2) by simp
  moreover have "CHR ''|'' \<notin> set n" if "username_ok n" for n
    using that by (auto simp: username_ok_def list_all_iff is_ascii_alphanumeric_def Let_def)
  ultimately show ?thesis by (auto simp: accounts_ok_def)
qed

theorem admin_remains_witness:
  "\<exists>s'. snd (delete_user ''admin'' (snd (create_user (\<lambda>p. p) 5 ''admin'' ''correct horse'' ''admin'' fresh_store))) = s' \<and> accounts_ok s'"
proof -
  let ?s = "snd (create_user (\<lambda>p. p) 5 ''admin'' ''correct horse'' ''admin'' fresh_store)"
  have "accounts_ok ?s"
    by (simp add: create_user_def accounts_ok_def fresh_store_eq find_user_def username_ok_def is_ascii_alphanumeric_def Let_def)
  moreover have "store_step (\<lambda>_. []) (\<lambda>_. None) (5, ?s) (6, snd (delete_user ''admin'' ?s))" by (rule step_delete) simp_all
  ultimately show ?thesis using admin_remains [OF r_into_rtranclp] by blast
qed

section \<open>The fleet view\<close>

definition worse :: "host_summary \<Rightarrow> host_summary \<Rightarrow> bool" where
  "worse a b \<longleftrightarrow> sm_score a > sm_score b
     \<or> sm_score a = sm_score b \<and> (dark (sm_status a) \<and> \<not> dark (sm_status b)
         \<or> dark (sm_status a) = dark (sm_status b) \<and> sm_host a \<le> sm_host b)"

lemma insort_stable:
  assumes "sorted_wrt (\<lambda>a b. f a < f b \<or> f a = f b \<and> R a b) ys" and "\<And>y. y \<in> set ys \<Longrightarrow> R x y"
  shows "sorted_wrt (\<lambda>a b. (f a :: 'b::linorder) < f b \<or> f a = f b \<and> R a b) (insort_key f x ys)"
  using assms
proof (induction ys)
  case (Cons y ys)
  then show ?case by (cases "f x \<le> f y") (force simp: set_insort_key)+
qed simp

lemma sort_key_refines:
  "sorted_wrt R xs \<Longrightarrow> sorted_wrt (\<lambda>a b. (f a :: 'b::linorder) < f b \<or> f a = f b \<and> R a b) (sort_key f xs)"
  by (induction xs) (auto intro!: insort_stable)

text \<open>
  The fleet view shows the worst first. It lists every host exactly once, ordered by the score of its
  worst open incident; at equal scores a host whose agent is blind, silent or stale comes before one
  that reports in, and then they go by name.
\<close>

theorem fleet_ranked:
  "mset (fleet now s) = mset (map (summary_of now) (so_hosts s)) \<and> sorted_wrt worse (fleet now s)"
proof -
  let ?hs = "map (summary_of now) (so_hosts s)"
  have "sorted_wrt (\<lambda>a b. sm_host a \<le> sm_host b) (sort_key sm_host ?hs)"
    using sorted_sort_key [of sm_host ?hs] by (simp add: sorted_wrt_map)
  from sort_key_refines [OF sort_key_refines [OF this, of "\<lambda>h. \<not> dark (sm_status h)"], of "\<lambda>h. - uint (sm_score h)"]
  have "sorted_wrt worse (fleet now s)"
    unfolding fleet_def by (rule sorted_wrt_mono_rel [rotated]) (auto simp: worse_def word_less_def word_uint_eq_iff)
  then show ?thesis by (simp add: fleet_def)
qed

section \<open>Baselines that are taught\<close>

lemma expect_again:
  assumes "ex_host r = host" "ex_signal r = sg" "ex_exe r = exe" and "ex_first_ns r = i64 ts" "ex_last_ns r = i64 ts"
    and "\<not> list_ex (\<lambda>r. ex_host r = host \<and> ex_signal r = sg \<and> ex_exe r = exe) rows"
  shows "expect_pair now host u (sg, exe, ts) (rows @ [r]) = rows @ [r\<lparr>ex_count := ex_count r + 1\<rparr>]"
proof -
  have "map (\<lambda>r. if ex_host r = host \<and> ex_signal r = sg \<and> ex_exe r = exe then f r else r) rows = rows" for f
    using assms(6) by (intro map_idI) (auto simp: list_ex_iff)
  then show ?thesis using assms(1-5) by (simp add: expect_pair_def Let_def)
qed

text \<open>
  Clicks count as evidence. Marking one and the same incident as expected \<open>n + 1\<close> times records its
  pair as seen \<open>n + 1\<close> times, although it was seen once.
\<close>

theorem clicks_count_as_evidence:
  assumes "hm_get (so_hosts s) host = Some st" and "find (\<lambda>inc. si_id inc = i) (hs_incidents st) = Some inc"
    and "incident_pairs (si_record inc) = [(sg, exe, ts)]" and "so_db s = Some d"
    and "\<not> list_ex (\<lambda>r. ex_host r = host \<and> ex_signal r = sg \<and> ex_exe r = exe) (db_expected d)"
  shows "so_db (((\<lambda>s. snd (mark_expected now host i u s)) ^^ Suc n) s)
    = Some (d\<lparr>db_expected := db_expected d @ [\<lparr>ex_host = host, ex_signal = sg, ex_exe = exe, ex_count = int (Suc n),
        ex_first_ns = i64 ts, ex_last_ns = i64 ts, ex_added_by = u, ex_added_at = i64 now\<rparr>]\<rparr>)"
proof -
  let ?m = "\<lambda>s. snd (mark_expected now host i u s)"
  let ?r = "\<lambda>k. \<lparr>ex_host = host, ex_signal = sg, ex_exe = exe, ex_count = int (Suc k),
      ex_first_ns = i64 ts, ex_last_ns = i64 ts, ex_added_by = u, ex_added_at = i64 now\<rparr>"
  have "so_hosts ((?m ^^ Suc k) s) = so_hosts s \<and> so_db ((?m ^^ Suc k) s) = Some (d\<lparr>db_expected := db_expected d @ [?r k]\<rparr>)" for k
  proof (induction k)
    case 0
    then show ?case using assms by (simp add: mark_expected_def Let_def expect_pair_def)
  next
    case (Suc k)
    let ?s = "(?m ^^ Suc k) s"
    have "expect_pair now host u (sg, exe, ts) (db_expected d @ [?r k]) = db_expected d @ [?r (Suc k)]"
      using expect_again [of "?r k" host sg exe ts "db_expected d" now u] assms(5) by simp
    then have "so_hosts (?m ?s) = so_hosts s \<and> so_db (?m ?s) = Some (d\<lparr>db_expected := db_expected d @ [?r (Suc k)]\<rparr>)"
      using Suc assms(1-3) by (simp add: mark_expected_def Let_def)
    then show ?case by simp
  qed
  then show ?thesis by simp
qed

definition taught_store :: store where
  "taught_store = fresh_store\<lparr>so_hosts := hm_insert ''web'' (host_default\<lparr>hs_incidents :=
     [incident_of 1 6 (JObj [(''subject'', JObj [(''exe'', JStr ''/bin/x'')]),
        (''signals'', JArr [JObj [(''id'', JStr ''setcap''), (''ts_ns'', JPos 9)]])])]\<rparr>) hm_empty\<rparr>"

theorem clicks_count_as_evidence_witness:
  "\<exists>d. so_db (((\<lambda>s. snd (mark_expected 7 ''web'' 1 ''ann'' s)) ^^ 8) taught_store) = Some d \<and> map ex_count (db_expected d) = [8]"
proof -
  have g: "hm_get (so_hosts taught_store) ''web'' = Some (host_default\<lparr>hs_incidents :=
     [incident_of 1 6 (JObj [(''subject'', JObj [(''exe'', JStr ''/bin/x'')]),
        (''signals'', JArr [JObj [(''id'', JStr ''setcap''), (''ts_ns'', JPos 9)]])])]\<rparr>)" by (simp add: taught_store_def)
  show ?thesis
    using clicks_count_as_evidence [OF g, where i = 1 and sg = "''setcap''" and exe = "''/bin/x''" and ts = 9 and now = 7 and u = "''ann''" and n = 7]
    by (simp add: incident_of_def incident_pairs_def get_str_def get_u64_def unwrap_or_def map_filter_simps taught_store_def
        fresh_store_eq numeral_eq_Suc)
qed

text \<open>
  A burst can be taught as a habit. The window of a taught baseline is the span of what was marked, so a
  pair that was marked eight times counts as recurring throughout the window, with the full evidence the
  learner gives to routine, however short the time between its first and last occurrence.
\<close>

theorem taught_burst_is_a_habit:
  assumes "so_db s = Some d" and "filter (\<lambda>r. ex_host r = host) (db_expected d) = [r]" and "ex_count r = 8"
    and "0 < ex_first_ns r" and "ex_first_ns r < ex_last_ns r" and "ex_last_ns r < 2 ^ 63" and "ln1p 8 \<noteq> 0"
  shows "\<exists>b. baseline_for now_ms host s = Some b
    \<and> evidence ln1p b \<lparr>st_count = u64 (ex_count r), st_first_ns = u64 (ex_first_ns r), st_last_ns = u64 (ex_last_ns r)\<rparr> = 1"
proof -
  let ?lo = "u64 (ex_first_ns r)" and ?hi = "u64 (ex_last_ns r)"
  have u: "uint (u64 i) = i" if "0 < i" "i < 2 ^ 63" for i
    using that by (simp add: u64_def uint_word_of_int)
  have lo: "uint ?lo = ex_first_ns r" and hi: "uint ?hi = ex_last_ns r" using u assms(4-6) by simp_all
  have lt: "?lo < ?hi" using assms(5) by (simp add: word_less_def lo hi)
  have pos: "0 < ?lo" using assms(4) by (simp add: word_less_def lo)
  define w where "w = saturating_sub ?hi ?lo"
  have w0: "0 < uint w" 
  proof -
    have "0 < unat w" using lt unat_saturating_sub [of ?hi ?lo] by (simp add: w_def word_less_nat_alt)
    then have "uint w \<noteq> 0" by (auto simp: unsigned_eq_0_iff)
    then show ?thesis using uint_ge_0 [of w] by (simp only: less_le) simp
  qed
  have "(of_int 1 :: rat) \<le> of_int (uint w)" using w0 by (simp only: of_int_le_iff)
  then have "rnd (of_int 1) \<le> rnd (of_int (uint w))" by (rule rnd_mono)
  then have fw: "0 < u64_f64 w" using rnd_int_small [of 1] by (simp add: u64_f64_def)
  have r8: "u64_f64 8 = 8" using rnd_int_small [of 8] by (simp add: u64_f64_def)
  have one: "rnd 1 = 1" "rnd (1 / 2) = 1 / 2" using rnd_int_small [of 1] f64.r_half by simp_all
  obtain b where b: "baseline_for now_ms host s = Some b" "b_window_ns b = w"
    using assms(1,2) pos lt by (simp add: baseline_for_def entry_of_row_def Let_def w_def)
  have "evidence ln1p b \<lparr>st_count = 8, st_first_ns = ?lo, st_last_ns = ?hi\<rparr> = 1"
    using fw w0 assms(7) by (auto simp: one evidence_def b(2) span_ns_def Let_def r8 SUPPORT_FULL_def BURST_RECURRENCE_def
      f64_div_def f64_mul_def f64_add_def f64_sub_def clamp_def w_def [symmetric])
  moreover have "u64 (ex_count r) = 8" using assms(3) by (simp add: u64_def)
  ultimately show ?thesis using b(1) by simp
qed

definition burst_row :: expected_row where
  "burst_row = \<lparr>ex_host = ''web'', ex_signal = ''setcap'', ex_exe = ''/bin/x'', ex_count = 8, ex_first_ns = 100, ex_last_ns = 101,
     ex_added_by = ''ann'', ex_added_at = 5\<rparr>"

definition burst_store :: store where
  "burst_store = fresh_store\<lparr>so_db := Some (empty_db\<lparr>db_expected := [burst_row]\<rparr>)\<rparr>"

theorem taught_burst_is_a_habit_witness:
  "\<exists>b. baseline_for 5 ''web'' burst_store = Some b \<and> evidence (\<lambda>x. x) b \<lparr>st_count = 8, st_first_ns = 100, st_last_ns = 101\<rparr> = 1"
proof -
  have "so_db burst_store = Some (empty_db\<lparr>db_expected := [burst_row]\<rparr>)" by (simp add: burst_store_def)
  from taught_burst_is_a_habit [OF this, of "''web''" burst_row "\<lambda>x. x" 5] show ?thesis by (simp add: burst_row_def u64_def)
qed

end
