(* ===== verification/Server_Props.thy ===== *)
theory Server_Props
  imports Server Store_Props
begin

text \<open>
  What the fleet server guarantees to whom: only those who may can change what it holds, nobody without
  a session learns anything of it, and whatever it is sent it keeps the invariants of its store.
\<close>

section \<open>What a request can change\<close>

lemma login_keeps:
  "handle_login lib tm cfg secret req sv = Ret (rs, sv') \<Longrightarrow>
   sv_store sv' = sv_store sv \<and> sv_bus sv' = sv_bus sv \<and> sv_notifier sv' = sv_notifier sv
   \<and> (hm_ok (sv_limiter sv) \<longrightarrow> hm_ok (sv_limiter sv'))"
  unfolding handle_login_def
  by (cases "form_field (the (read_body req MAX_FORM_BODY)) ''username''";
      cases "form_field (the (read_body req MAX_FORM_BODY)) ''password''")
    (auto simp: Let_def limiter_ok split: option.splits)

lemma handle_outcomes:
  assumes "handle lib tm cfg secret req sv = Ret (r, sv')"
  shows "sv' = sv
    \<or> rq_method req = POST \<and> hd (split_on (CHR ''?'') (rq_url req)) = ''/api/ingest'' \<and> sv' = snd (handle_ingest lib tm cfg req sv)
    \<or> sv_store sv' = sv_store sv \<and> sv_bus sv' = sv_bus sv \<and> sv_notifier sv' = sv_notifier sv
        \<and> (hm_ok (sv_limiter sv) \<longrightarrow> hm_ok (sv_limiter sv'))
    \<or> (\<exists>u role. session lib tm secret req = Ret (Some (u, role))
         \<and> (sv' = snd (handle_resolve lib tm u req sv) \<or> sv' = sv\<lparr>sv_bus := snd (bus_subscribe (sv_bus sv))\<rparr>
            \<or> role = ''admin'' \<and> (sv' = snd (handle_create lib tm req sv) \<or> sv' = snd (handle_delete lib req sv))))"
proof -
  let ?path = "hd (split_on (CHR ''?'') (rq_url req))"
  consider (ingest) "rq_method req = POST \<and> ?path = ''/api/ingest''" | (login) "rq_method req = POST \<and> ?path = ''/api/login''"
    | (other) "\<not> (rq_method req = POST \<and> ?path = ''/api/ingest'')" "\<not> (rq_method req = POST \<and> ?path = ''/api/login'')" by blast
  then show ?thesis
  proof cases
    case ingest
    then show ?thesis using assms by (auto simp: handle_def Let_def split: prod.splits)
  next
    case login
    then obtain rs where "handle_login lib tm cfg secret req sv = Ret (rs, sv')"
      using assms by (cases "handle_login lib tm cfg secret req sv") (auto simp: handle_def Let_def)
    from login_keeps [OF this] show ?thesis by blast
  next
    case other
    show ?thesis
    proof (cases "session lib tm secret req")
      case Panic
      then show ?thesis using assms other by (auto simp: handle_def Let_def with_session_def split: if_splits)
    next
      case (Ret x)
      then show ?thesis
      proof (cases x)
        case None
        then show ?thesis using assms other Ret by (auto simp: handle_def Let_def with_session_def split: if_splits)
      next
        case (Some ur)
        obtain u role where "ur = (u, role)" by (cases ur)
        then show ?thesis using assms other Ret Some
          by (auto simp: handle_def Let_def with_session_def if_admin_def bus_subscribe_def split: if_splits prod.splits)
      qed
    qed
  qed
qed

text \<open>The parts of the store that are about people, and what is known of an incident besides its triage.\<close>

definition accounts_of :: "store \<Rightarrow> user_row list option" where
  "accounts_of s = map_option db_users (so_db s)"

definition taught_of :: "store \<Rightarrow> expected_row list option" where
  "taught_of s = map_option db_expected (so_db s)"

definition findings_of :: "store \<Rightarrow> string \<Rightarrow> (u64 \<times> json) list" where
  "findings_of s h = map (\<lambda>i. (si_id i, si_record i)) (window_of s h)"

lemma ingest_frame:
  "k \<noteq> host \<Longrightarrow> hm_get (so_hosts (ingest print now host kern ip v s)) k = hm_get (so_hosts s) k"
  "accounts_of (ingest print now host kern ip v s) = accounts_of s" "taught_of (ingest print now host kern ip v s) = taught_of s"
  by (cases "so_db s"; simp add: ingest_def apply_incident_def maybe_prune_def prune_def accounts_of_def taught_of_def Let_def)+

lemma heartbeat_frame:
  "k \<noteq> host \<Longrightarrow> hm_get (so_hosts (store_heartbeat now host kern ip hb s)) k = hm_get (so_hosts s) k"
  "accounts_of (store_heartbeat now host kern ip hb s) = accounts_of s" "taught_of (store_heartbeat now host kern ip hb s) = taught_of s"
  by (cases "so_db s"; simp add: store_heartbeat_def accounts_of_def taught_of_def Let_def)+

lemma triage_frame:
  "accounts_of (snd (triage now host i u nt res s)) = accounts_of s" "taught_of (snd (triage now host i u nt res s)) = taught_of s"
  by (cases "so_db s"; auto simp: triage_def accounts_of_def taught_of_def split: option.splits)+

lemma mark_frame:
  "accounts_of (snd (mark_expected now host i u s)) = accounts_of s" "so_hosts (snd (mark_expected now host i u s)) = so_hosts s"
  by (cases "so_db s"; auto simp: mark_expected_def accounts_of_def Let_def split: option.splits)+

lemma user_frame:
  "taught_of (snd (create_user hash now n p r s)) = taught_of s" "so_hosts (snd (create_user hash now n p r s)) = so_hosts s"
  "taught_of (snd (delete_user n s)) = taught_of s" "so_hosts (snd (delete_user n s)) = so_hosts s"
  by (auto simp: create_user_def delete_user_def taught_of_def Let_def split: option.splits)

lemma update_first_findings:
  "update_first P f xs = Some ys \<Longrightarrow> (\<And>x. g (f x) = g x) \<Longrightarrow> map g ys = map g xs"
  by (induction xs arbitrary: ys) (auto split: if_splits)

lemma triage_findings: "findings_of (snd (triage now host i u nt res s)) h = findings_of s h"
proof -
  have t: "si_id (touch now u nt res x) = si_id x \<and> si_record (touch now u nt res x) = si_record x" for x by (simp add: touch_def)
  show ?thesis
    using update_first_findings [where g = "\<lambda>i. (si_id i, si_record i)" and f = "touch now u nt res" and P = "\<lambda>inc. si_id inc = i"] t
    by (auto simp: triage_def findings_of_def window_of_def split: option.splits)
qed

lemma ingest_lines_frame:
  assumes "fold (ingest_line lib tm host kern ip) ls (sv, n, b) = (sv', n', b')"
  shows "(\<forall>k. k \<noteq> host \<longrightarrow> hm_get (so_hosts (sv_store sv')) k = hm_get (so_hosts (sv_store sv)) k)
    \<and> accounts_of (sv_store sv') = accounts_of (sv_store sv) \<and> taught_of (sv_store sv') = taught_of (sv_store sv)
    \<and> sv_limiter sv' = sv_limiter sv"
  using assms
proof (induction ls arbitrary: sv n b)
  case (Cons l ls)
  obtain sv1 n1 b1 where s: "ingest_line lib tm host kern ip l (sv, n, b) = (sv1, n1, b1)" by (metis prod_cases3)
  have "(\<forall>k. k \<noteq> host \<longrightarrow> hm_get (so_hosts (sv_store sv1)) k = hm_get (so_hosts (sv_store sv)) k)
    \<and> accounts_of (sv_store sv1) = accounts_of (sv_store sv) \<and> taught_of (sv_store sv1) = taught_of (sv_store sv)
    \<and> sv_limiter sv1 = sv_limiter sv"
    using s by (auto simp: ingest_line_def push_alert_def ingest_frame heartbeat_frame split: if_splits option.splits)
  then show ?case using Cons.IH [of sv1 n1 b1] Cons.prems s by simp
qed simp

lemma handle_ingest_frame:
  "(\<forall>k. agent_host cfg req \<noteq> Inr k \<longrightarrow> hm_get (so_hosts (sv_store (snd (handle_ingest lib tm cfg req sv)))) k = hm_get (so_hosts (sv_store sv)) k)
   \<and> accounts_of (sv_store (snd (handle_ingest lib tm cfg req sv))) = accounts_of (sv_store sv)
   \<and> taught_of (sv_store (snd (handle_ingest lib tm cfg req sv))) = taught_of (sv_store sv)"
proof (cases "agent_host cfg req")
  case (Inr host)
  show ?thesis
  proof (cases "read_body req MAX_INGEST_BODY")
    case (Some b)
    let ?kern = "unwrap_or [] (header req ''X-Sentinel-Kernel'')" and ?ip = "unwrap_or [] (header req ''X-Sentinel-Ip'')"
    obtain sv' n beats where f: "fold (ingest_line lib tm host ?kern ?ip) (lines b) (sv, 0, 0) = (sv', n, beats)" by (metis prod_cases3)
    show ?thesis using ingest_lines_frame [OF f] Inr Some f by (auto simp: handle_ingest_def Let_def)
  qed (simp add: handle_ingest_def Inr)
qed (simp add: handle_ingest_def)


text \<open>A small server and a request from a stranger, for the examples.\<close>

definition some_libs :: libs where
  "some_libs = \<lparr>lb_parse = (\<lambda>_. Some JNull), lb_print = (\<lambda>_. ''null''), lb_verify_pw = (\<lambda>p h. p = h),
     lb_hash_pw = (\<lambda>p. p), lb_hmac = toy_mac\<rparr>"

definition some_times :: times where
  "some_times = \<lparr>tm_secs = 9, tm_ms = 9000, tm_instant = 77\<rparr>"

definition some_config :: config where
  "some_config = \<lparr>cf_admin_password = ''hunter22'', cf_ingest_key = ''k'', cf_agent_keys = Some [(''k1'', ''web'')]\<rparr>"

definition quiet_server :: "nat server" where
  "quiet_server = \<lparr>sv_store = fresh_store, sv_limiter = hm_empty, sv_bus = \<lparr>bu_clients = [], bu_next_id = 0\<rparr>, sv_notifier = None\<rparr>"

definition some_request :: "meth \<Rightarrow> string \<Rightarrow> (string \<times> string) list \<Rightarrow> nat request" where
  "some_request m url hs = \<lparr>rq_method = m, rq_url = url, rq_headers = hs, rq_peer = Some 7, rq_declared = None, rq_body = bytes_of ''x''\<rparr>"

lemma stranger_session: "session lib tm secret (some_request m url []) = Ret None"
  by (simp add: session_def cookie_def header_def some_request_def)


section \<open>What a stranger learns\<close>

lemma ingest_counts:
  "snd (fold (ingest_line lib tm host kern ip) ls (sv1, c)) = snd (fold (ingest_line lib tm host kern ip) ls (sv2, c))"
proof (induction ls arbitrary: sv1 sv2 c)
  case (Cons l ls)
  have "snd (ingest_line lib tm host kern ip l (sv1, c)) = snd (ingest_line lib tm host kern ip l (sv2, c))"
    by (cases c) (auto simp: ingest_line_def split: option.splits)
  then show ?case using Cons.IH by (metis fold_simps(2) prod.collapse)
qed simp

lemma ingest_reply_blind: "fst (handle_ingest lib tm cfg req sv1) = fst (handle_ingest lib tm cfg req sv2)"
proof (cases "agent_host cfg req")
  case (Inr host)
  show ?thesis
  proof (cases "read_body req MAX_INGEST_BODY")
    case (Some b)
    let ?kern = "unwrap_or [] (header req ''X-Sentinel-Kernel'')" and ?ip = "unwrap_or [] (header req ''X-Sentinel-Ip'')"
    show ?thesis using ingest_counts [of lib tm host ?kern ?ip "lines b" sv1 "(0, 0)" sv2] Inr Some
      by (simp add: handle_ingest_def Let_def case_prod_beta)
  qed (simp add: handle_ingest_def Inr)
qed (simp add: handle_ingest_def)

definition reply_of :: "(reply \<times> 'ip server) outcome \<Rightarrow> reply option" where
  "reply_of out = (case out of Panic \<Rightarrow> None | Ret (r, _) \<Rightarrow> Some r)"

lemma reply_of_simps:
  "reply_of Panic = None" "reply_of (Ret (r, sv)) = Some r" "reply_of (if c then a else b) = (if c then reply_of a else reply_of b)"
  by (simp_all add: reply_of_def)

lemma serve_one_reply: "fst (serve_one lib tm cfg secret req sv) = reply_of (handle lib tm cfg secret req sv)"
  by (simp add: serve_one_def reply_of_def split: outcome.splits prod.splits)

text \<open>
  C13 (safety): Data flows one way. Without a valid session, what the server answers to any request but a login is a
  function of the request alone: an agent, whatever its key, and a stranger get the same answer from any
  two servers, whatever these hold.
\<close>

theorem stranger_learns_nothing:
  assumes "\<And>ur. session lib tm secret req \<noteq> Ret (Some ur)"
    and "\<not> (rq_method req = POST \<and> hd (split_on (CHR ''?'') (rq_url req)) = ''/api/login'')"
  shows "fst (serve_one lib tm cfg secret req sv1) = fst (serve_one lib tm cfg secret req sv2)"
proof (cases "rq_method req = POST \<and> hd (split_on (CHR ''?'') (rq_url req)) = ''/api/ingest''")
  case True
  then show ?thesis using ingest_reply_blind [of lib tm cfg req sv1 sv2] by (simp add: serve_one_def handle_def Let_def case_prod_beta)
next
  case False
  consider "session lib tm secret req = Panic" | "session lib tm secret req = Ret None"
    using assms(1) by (metis not_Some_eq outcome.exhaust)
  then show ?thesis using False assms(2) 
    by cases (simp_all only: serve_one_reply handle_def Let_def with_session_def reply_of_simps bind_outcome.simps option.case if_False)
qed

theorem stranger_learns_nothing_witness:
  "fst (serve_one some_libs some_times some_config [1] (some_request GET ''/api/fleet'' []) quiet_server)
     = fst (serve_one some_libs some_times some_config [1] (some_request GET ''/api/fleet'' []) (quiet_server\<lparr>sv_store := one_incident\<rparr>))"
  by (rule stranger_learns_nothing) (simp add: stranger_session, simp add: some_request_def)

section \<open>Request bodies\<close>

text \<open>
  A body is accepted exactly if it fits. Whatever length a caller declares, a body is read if and only if
  the bytes that arrive are no more than the limit and well-formed, and the declared length, if any,
  does not exceed it; what is read is what arrived.
\<close>

theorem read_capped_exact:
  "read_capped arriving declared limit = Some s \<longleftrightarrow>
     length arriving \<le> limit \<and> (declared = None \<or> the declared \<le> limit) \<and> utf8_valid arriving \<and> s = text_of arriving"
  by (cases "length arriving \<le> limit") (auto simp: read_capped_def Let_def split: option.splits)

section \<open>Forms\<close>

text \<open>JavaScript's \<^verbatim>\<open>encodeURIComponent\<close>, which the login page applies to what the user types.\<close>

definition uri_unreserved :: "char \<Rightarrow> bool" where
  "uri_unreserved c \<longleftrightarrow> is_ascii_alphanumeric c \<or> c \<in> set ''-_.!~*()'' \<or> c = CHR 0x27"

definition upper_hex :: "nat \<Rightarrow> char" where
  "upper_hex d = (if d < 10 then char_of (48 + d) else char_of (55 + d))"

definition encode_uri_component :: "string \<Rightarrow> string" where
  "encode_uri_component s = concat (map (\<lambda>c. if uri_unreserved c then [c]
     else let n = of_char c :: nat in [CHR ''%'', upper_hex (n div 16), upper_hex (n mod 16)]) s)"

lemma of_upper_hex: "d < 16 \<Longrightarrow> (of_char (upper_hex d) :: nat) = (if d < 10 then 48 + d else 55 + d)"
  by (simp add: upper_hex_def)

lemma upper_hex_facts: "d < 16 \<Longrightarrow> hex_digit (upper_hex d) = Some d \<and> upper_hex d \<noteq> CHR ''+'' \<and> \<not> is_cont (of_char (upper_hex d))"
  using of_upper_hex [of d] plain_not_cont [of "upper_hex d"]
  by (auto simp: hex_digit_def Let_def plain_char_def split: if_splits)

lemma from_upper_hex: "from_hex [upper_hex (of_char c div 16), upper_hex (of_char c mod 16)] = Some (of_char c)"
proof -
  have "(of_char c :: nat) < 256" by simp
  then have "(of_char c :: nat) div 16 < 16" "(of_char c :: nat) mod 16 < 16" by (simp_all add: less_mult_imp_div_less)
  then show ?thesis using upper_hex_facts [of "of_char c div 16"] upper_hex_facts [of "of_char c mod 16"]
    by (simp add: from_hex_def Let_def of_nat_of_char mult.commute)
qed

lemma unat_of_char: "unat (of_char c :: u8) = of_char c"
  using unat_of_nat [of "of_char c", where 'a = 8] by (simp add: of_nat_of_char)

lemma length_latin1: "length (latin1 b) = (if b < 0x80 then 1 else 2)"
  by (simp add: latin1_def text_of_def)

lemma latin1_ascii: "(of_char c :: nat) < 128 \<Longrightarrow> latin1 (of_char c) = [c]"
  using unat_of_char [of c] by (simp add: latin1_def text_of_def word_less_nat_alt)

lemma latin1_wide: "\<not> (of_char c :: nat) < 128 \<Longrightarrow> length (latin1 (of_char c)) = 2"
  using unat_of_char [of c] by (simp add: length_latin1 word_less_nat_alt)

lemma unreserved_plain: "uri_unreserved c \<Longrightarrow> plain_char c \<and> c \<noteq> CHR ''+'' \<and> c \<noteq> CHR ''%''"
  by (auto simp: uri_unreserved_def is_ascii_alphanumeric_def plain_char_def Let_def)

lemma encoded_boundary: "encode_uri_component s = [] \<or> \<not> is_cont (of_char (hd (encode_uri_component s)))"
  using plain_not_cont unreserved_plain by (cases s) (auto simp: encode_uri_component_def Let_def is_cont_def)

lemma nibbles: "(of_char c :: nat) div 16 < 16" "(of_char c :: nat) mod 16 < 16"
  by (simp_all add: less_mult_imp_div_less)

lemma urldecode_encoded: "urldecode (encode_uri_component s) = Ret (concat (map (\<lambda>c. latin1 (of_char c)) s))"
proof (induction s)
  case (Cons c s)
  let ?r = "encode_uri_component s"
  show ?case
  proof (cases "uri_unreserved c")
    case True
    then have "encode_uri_component (c # s) = c # ?r" by (simp add: encode_uri_component_def)
    then show ?thesis using Cons unreserved_plain [OF True] by simp
  next
    case False
    let ?h = "upper_hex (of_char c div 16)" and ?l = "upper_hex (of_char c mod 16)"
    have e: "encode_uri_component (c # s) = CHR ''%'' # ?h # ?l # ?r" using False by (simp add: encode_uri_component_def Let_def)
    have "is_char_boundary 1 (CHR ''%'' # ?h # ?l # ?r)" "is_char_boundary 3 (CHR ''%'' # ?h # ?l # ?r)"
      using upper_hex_facts [OF nibbles(1) [of c]] encoded_boundary [of s]
      by (auto simp: is_char_boundary_def numeral_3_eq_3 hd_conv_nth)
    then have g: "get_range 1 3 (CHR ''%'' # ?h # ?l # ?r) = Some [?h, ?l]" by (simp add: get_range_def)
    show ?thesis unfolding e using g Cons from_upper_hex [of c] by simp
  qed
qed (simp add: encode_uri_component_def)

text \<open>
  C40 (error): What a user types arrives intact exactly if it is ASCII. The login page percent-encodes UTF-8 and the
  server decodes byte by byte, so a password with any other character never reaches the check as it was set.
\<close>

theorem form_intact_iff_ascii:
  "urldecode (encode_uri_component s) = Ret s \<longleftrightarrow> list_all (\<lambda>c. (of_char c :: nat) < 128) s"
proof
  assume "list_all (\<lambda>c. (of_char c :: nat) < 128) s"
  then have "concat (map (\<lambda>c. latin1 (of_char c)) s) = s" by (induction s) (simp_all add: latin1_ascii)
  then show "urldecode (encode_uri_component s) = Ret s" by (simp add: urldecode_encoded)
next
  assume "urldecode (encode_uri_component s) = Ret s"
  then have len: "length (concat (map (\<lambda>c. latin1 (of_char c)) s)) = length s" by (simp add: urldecode_encoded)
  have ge: "length s \<le> length (concat (map (\<lambda>c. latin1 (of_char c)) s))" for s
    by (induction s) (simp_all add: length_latin1)
  show "list_all (\<lambda>c. (of_char c :: nat) < 128) s"
    using len
  proof (induction s)
    case (Cons c s)
    have "(of_char c :: nat) < 128" using Cons.prems ge [of s] latin1_wide [of c] by (cases "(of_char c :: nat) < 128") simp_all
    then show ?case using Cons by (simp add: latin1_ascii)
  qed simp
qed

section \<open>Logging in\<close>

lemma username_text: "username_ok u \<Longrightarrow> text_ok u \<and> CHR ''|'' \<notin> set u"
proof -
  assume u: "username_ok u"
  then have "list_all (\<lambda>c. (of_char c :: nat) < 128) u"
    by (auto simp: username_ok_def list_all_iff is_ascii_alphanumeric_def Let_def)
  moreover have "CHR ''|'' \<notin> set u" using u by (auto simp: username_ok_def list_all_iff is_ascii_alphanumeric_def Let_def)
  ultimately show ?thesis by (simp add: ascii_text)
qed

lemma verified_user:
  assumes "accounts_ok s" and "verify_user v u p s = Some role"
  shows "username_ok u \<and> role \<in> {''admin'', ''viewer''}"
proof -
  obtain d where d: "so_db s = Some d" "\<forall>u \<in> set (db_users d). username_ok (us_username u) \<and> us_role u \<in> {''admin'', ''viewer''}"
    using assms(1) by (auto simp: accounts_ok_def)
  obtain w where w: "find_user u d = Some w" "us_role w = role"
    using assms(2) d(1) by (auto simp: verify_user_def split: option.splits if_splits)
  then have "w \<in> set (db_users d)" "us_username w = u" by (auto simp: find_user_def dest: find_SomeD)
  then show ?thesis using d(2) w(2) by auto
qed

lemma login_ok:
  assumes "handle_login lib tm cfg secret req sv = Ret (rs, sv')" and "rs_code rs = 200"
  obtains u p role where "login_role lib cfg u p (sv_store sv) = Some role"
    and "rs_headers rs = [(''Set-Cookie'', ''ks_session='' @ issue (lb_hmac lib) (tm_secs tm) secret u role SESSION_TTL
       @ ''; HttpOnly; SameSite=Strict; Path=/; Max-Age=28800'')]"
proof -
  obtain b where b: "read_body req MAX_FORM_BODY = Some b"
    using assms by (auto simp: handle_login_def text_response_def split: option.splits)
  obtain uo where u: "form_field b ''username'' = Ret uo"
    using assms b by (cases "form_field b ''username''") (auto simp: handle_login_def text_response_def split: option.splits)
  obtain po where p: "form_field b ''password'' = Ret po"
    using assms b u by (cases "form_field b ''password''") (auto simp: handle_login_def text_response_def split: option.splits)
  show ?thesis using assms b u p that [of "unwrap_or [] uo" "unwrap_or [] po"]
    by (auto simp: handle_login_def text_response_def Let_def split: option.splits)
qed


definition login_request :: "nat request" where
  "login_request = (some_request POST ''/api/login'' [])\<lparr>rq_body := bytes_of ''username=admin&password=hunter22''\<rparr>"

definition login_server :: "nat server" where
  "login_server = quiet_server\<lparr>sv_store := snd (create_user (\<lambda>p. p) 5 ''admin'' ''hunter22'' ''admin'' fresh_store)\<rparr>"

lemma login_request_read: "read_body login_request MAX_FORM_BODY = Some ''username=admin&password=hunter22''"
proof -
  have "utf8_valid (bytes_of ''username=admin&password=hunter22'')" by (simp add: bytes_of_def utf8_width_def)
  moreover have "length (bytes_of ''username=admin&password=hunter22'') = 32" by (simp add: bytes_of_def)
  ultimately show ?thesis
    by (simp add: read_body_def read_capped_def login_request_def some_request_def MAX_FORM_BODY_def Let_def take_all)
qed

lemma login_request_fields:
  "form_field ''username=admin&password=hunter22'' ''username'' = Ret (Some ''admin'')"
  "form_field ''username=admin&password=hunter22'' ''password'' = Ret (Some ''hunter22'')"
  by code_simp+

lemma login_server_db: "so_db (sv_store login_server) = Some (empty_db\<lparr>db_version := 4, db_users :=
    [\<lparr>us_username = ''admin'', us_pw_hash = ''hunter22'', us_role = ''admin'', us_created_at = 5\<rparr>]\<rparr>)"
  by (simp add: login_server_def create_user_def fresh_store_eq empty_db_def find_user_def username_ok_def is_ascii_alphanumeric_def Let_def i64_def)

lemma login_accepted: "login_role some_libs some_config ''admin'' ''hunter22'' (sv_store login_server) = Some ''admin''"
  by (simp add: login_role_def verify_user_def find_user_def some_libs_def login_server_db)

lemma login_unlocked: "rq_peer login_request = Some 7" "locked_for now 7 (sv_limiter login_server) = None"
  by (simp_all add: login_request_def some_request_def login_server_def quiet_server_def locked_for_def)


end
