(* ===== verification/Ship.thy ===== *)
theory Ship
  imports Server_Props
begin

text \<open>
  Shipping incidents from an agent to the fleet server (\<^verbatim>\<open>src/server/ship.rs\<close>), and its composition with the
  server's handler. The HTTP exchange is a parameter that threads a state; in the composition it is an ideal connection
  to the server of theory Server.
\<close>

section \<open>The client\<close>

datatype tls = Tls_pinned "u8 list" | System_roots

type_synonym 's post = "string \<Rightarrow> (string \<times> string) list \<Rightarrow> string \<Rightarrow> string \<Rightarrow> tls \<Rightarrow> 's \<Rightarrow> (string + string) \<times> 's"

definition read_first_line :: "string option \<Rightarrow> string" where
  "read_first_line content = (case content of None \<Rightarrow> [] | Some s \<Rightarrow> (case lines s of [] \<Rightarrow> [] | l # _ \<Rightarrow> l))"

definition hostname :: "string option \<Rightarrow> string" where
  "hostname content = hd (split_on (CHR 0x0A) (read_first_line content))"

definition agent_headers :: "string \<Rightarrow> string \<Rightarrow> string \<Rightarrow> (string \<times> string) list" where
  "agent_headers key host kern = [(''X-Sentinel-Key'', key), (''X-Sentinel-Host'', host), (''X-Sentinel-Kernel'', kern)]"

definition ship_post :: "'s post \<Rightarrow> string \<Rightarrow> string \<Rightarrow> string \<Rightarrow> string \<Rightarrow> u8 list option \<Rightarrow> string \<Rightarrow> 's \<Rightarrow> (string + unit) \<times> 's" where
  "ship_post post url key host kern pinned body st =
     (case (case pinned of Some der \<Rightarrow> Some (Tls_pinned der)
            | None \<Rightarrow> if starts_with ''https://'' url then None else Some (Tls_pinned [])) of
        None \<Rightarrow> (Inl ''https requires --ca <server-cert.pem> to pin the server'', st)
      | Some tls \<Rightarrow>
          (case post url (agent_headers key host kern) ''application/x-ndjson'' body tls st of
             (Inl e, st') \<Rightarrow> (Inl e, st')
           | (Inr status, st') \<Rightarrow>
               if is_ok status then (Inr (), st') else (Inl (''server rejected the batch: '' @ status), st')))"

definition flush :: "(string \<Rightarrow> 's \<Rightarrow> (string + unit) \<times> 's) \<Rightarrow> string \<Rightarrow> 's \<Rightarrow> (string + string) \<times> 's" where
  \<comment> \<open>the batch afterwards, or the error\<close>
  "flush send batch st =
     (if batch = [] then (Inr batch, st)
      else (case send batch st of (Inl e, st') \<Rightarrow> (Inl e, st') | (Inr _, st') \<Rightarrow> (Inr [], st')))"

text \<open>A line that cannot be read is \<open>None\<close>. The counts are incidents and heartbeats.\<close>

fun ship_lines :: "(string \<Rightarrow> 's \<Rightarrow> (string + unit) \<times> 's) \<Rightarrow> string option list \<Rightarrow> nat \<times> nat \<Rightarrow> string \<Rightarrow> 's \<Rightarrow> (string + nat \<times> nat) \<times> 's" where
  "ship_lines send [] counts batch st =
     (case flush send batch st of (Inl e, st') \<Rightarrow> (Inl e, st') | (Inr _, st') \<Rightarrow> (Inr counts, st'))"
| "ship_lines send (None # ls) counts batch st = (Inl ''reading input'', st)"
| "ship_lines send (Some line # ls) (sent_n, beats) batch st =
     (if trim line = [] then ship_lines send ls (sent_n, beats) batch st
      else
        let counts = (if contains HB_SCHEMA line then (sent_n, Suc beats) else (Suc sent_n, beats))
        in (case flush send (batch @ line @ nl) st of (Inl e, st') \<Rightarrow> (Inl e, st')
            | (Inr batch', st') \<Rightarrow> ship_lines send ls counts batch' st'))"

text \<open>The certificate is read once, before anything is sent: not given, or given and read or not.\<close>

definition ship :: "'s post \<Rightarrow> string option \<Rightarrow> string \<Rightarrow> string \<Rightarrow> string \<Rightarrow> (string + u8 list) option \<Rightarrow> string option list \<Rightarrow> 's
    \<Rightarrow> (string + nat \<times> nat) \<times> 's" where
  "ship post osrelease url key host ca input st =
     (let kern = read_first_line osrelease
      in case ca of
           Some (Inl e) \<Rightarrow> (Inl e, st)
         | Some (Inr der) \<Rightarrow> ship_lines (ship_post post url key host kern (Some der)) input (0, 0) [] st
         | None \<Rightarrow> ship_lines (ship_post post url key host kern None) input (0, 0) [] st)"

section \<open>Delivery to the server\<close>

definition ingest_request :: "'ip \<Rightarrow> string \<Rightarrow> (string \<times> string) list \<Rightarrow> string \<Rightarrow> string \<Rightarrow> 'ip request" where
  "ingest_request ip path hs content_type body =
     \<lparr>rq_method = POST, rq_url = path, rq_headers = hs @ [(''Content-Type'', content_type)], rq_peer = Some ip,
      rq_declared = Some (length body), rq_body = bytes_of body\<rparr>"

text \<open>
  An ideal connection: the request arrives as it was sent, the answer's status line is the one the server library
  writes for the code. A handler that panicked leaves the connection without an answer.
\<close>

definition deliver :: "(nat \<Rightarrow> string) \<Rightarrow> libs \<Rightarrow> (nat \<Rightarrow> times) \<Rightarrow> config \<Rightarrow> u8 list \<Rightarrow> 'ip \<Rightarrow> (nat \<times> 'ip server) post" where
  "deliver status_line lib tm cfg secret ip url hs content_type body tls = (\<lambda>(k, sv).
     case split_url url of None \<Rightarrow> (Inl ''URL must start with http:// or https://'', (k, sv))
     | Some (_, _, path) \<Rightarrow>
         (case serve_one lib (tm k) cfg secret (ingest_request ip path hs content_type body) sv of
            (Some (Now rs), sv') \<Rightarrow> (Inr (status_line (rs_code rs)), (Suc k, sv'))
          | (_, sv') \<Rightarrow> (Inr [], (Suc k, sv'))))"

text \<open>What one line does to the store.\<close>

definition store_line :: "libs \<Rightarrow> times \<Rightarrow> string \<Rightarrow> string \<Rightarrow> string \<Rightarrow> string \<Rightarrow> store \<Rightarrow> store" where
  "store_line lib tm host kern ip l s =
     (case lb_parse lib l of None \<Rightarrow> s
      | Some v \<Rightarrow>
          if is_heartbeat v
          then (case heartbeat_from_json v of None \<Rightarrow> s | Some hb \<Rightarrow> store_heartbeat (tm_secs tm) host kern ip hb s)
          else ingest (lb_print lib) (tm_secs tm) host kern ip v s)"

lemma ingest_line_store:
  "trim l \<noteq> [] \<Longrightarrow> sv_store (fst (ingest_line lib tm host kern ip l (sv, n, b))) = store_line lib tm host kern ip l (sv_store sv)"
  by (simp add: ingest_line_def store_line_def push_alert_def split: option.splits)

text \<open>A line that can be sent: well-formed text without a line break, within the server's limit.\<close>

definition shippable :: "string \<Rightarrow> bool" where
  "shippable l \<longleftrightarrow> text_ok l \<and> CHR 0x0A \<notin> set l \<and> \<not> ends_with [CHR 0x0D] l \<and> length l < MAX_INGEST_BODY"

lemma lines_one: "CHR 0x0A \<notin> set l \<Longrightarrow> \<not> ends_with [CHR 0x0D] l \<Longrightarrow> lines (l @ nl) = [l]"
  by (auto simp: lines_def nl_def split_on_append strip_suffix_def ends_with_iff starts_with_iff strip_prefix_def split: option.splits)

lemma shipped_ingest:
  assumes "agent_host cfg (ingest_request ip path hs ct body0) = Inr h" and "path = ''/api/ingest''" and "shippable l" and "trim l \<noteq> []"
    and "header (ingest_request ip path hs ct body0) ''X-Sentinel-Kernel'' = Some kern" and "header (ingest_request ip path hs ct body0) ''X-Sentinel-Ip'' = None"
  shows "\<exists>rs sv'. serve_one lib tm cfg secret (ingest_request ip path hs ct (l @ nl)) sv = (Some (Now rs), sv') \<and> rs_code rs = 200
    \<and> sv_store sv' = store_line lib tm h kern [] l (sv_store sv)"
proof -
  let ?r = "ingest_request ip path hs ct (l @ nl)"
  have same: "header ?r f = header (ingest_request ip path hs ct body0) f" for f by (simp add: header_def ingest_request_def)
  have host: "agent_host cfg ?r = Inr h" using assms(1) unfolding agent_host_def Let_def same .
  have "text_ok nl" by (simp add: nl_def text_ok_def utf8_width_def)
  then have "text_ok (l @ nl)" using assms(3) by (simp add: shippable_def text_ok_append)
  then have "utf8_valid (bytes_of (l @ nl))" by (simp add: text_ok_def bytes_of_def)
  moreover have "length (bytes_of (l @ nl)) \<le> MAX_INGEST_BODY" "length (l @ nl) \<le> MAX_INGEST_BODY"
    using assms(3) by (simp_all add: shippable_def bytes_of_def nl_def)
  ultimately have body: "read_body ?r MAX_INGEST_BODY = Some (l @ nl)"
    by (simp add: read_body_def read_capped_def ingest_request_def Let_def take_all del: length_append)
  obtain sv1 n b where f: "ingest_line lib tm h kern [] l (sv, 0, 0) = (sv1, n, b)" by (metis prod_cases3)
  then have st: "sv_store sv1 = store_line lib tm h kern [] l (sv_store sv)" using ingest_line_store [OF assms(4), of lib tm h kern "[]" sv 0 0] by simp
  have "lines (l @ nl) = [l]" using assms(3) lines_one by (simp add: shippable_def)
  then have "\<exists>rs sv'. handle_ingest lib tm cfg ?r sv = (rs, sv') \<and> rs_code rs = 200 \<and> sv_store sv' = sv_store sv1"
    using assms(5,6) same by (simp add: handle_ingest_def host body f Let_def text_response_def unwrap_or_def)
  then show ?thesis using assms(2) st
    by (auto simp: serve_one_def handle_def ingest_request_def Let_def)
qed

lemma ship_lines_deliver:
  assumes h: "agent_host cfg (ingest_request ip ''/api/ingest'' (agent_headers key host kern) ''application/x-ndjson'' []) = Inr h"
    and url: "split_url url = Some (sch, hp, ''/api/ingest'')" "pinned \<noteq> None \<or> \<not> starts_with ''https://'' url"
    and ok: "is_ok (status_line 200)"
  shows "list_all shippable ls \<Longrightarrow>
    \<exists>n' b' sv'. ship_lines (ship_post (deliver status_line lib tm cfg secret ip) url key host kern pinned) (map Some ls) (n, b) [] (k, sv)
        = (Inr (n', b'), (k + length (filter (\<lambda>l. trim l \<noteq> []) ls), sv'))
      \<and> n' + b' = n + b + length (filter (\<lambda>l. trim l \<noteq> []) ls)
      \<and> sv_store sv' = fold (\<lambda>(i, l). store_line lib (tm i) h kern [] l) (enumerate k (filter (\<lambda>l. trim l \<noteq> []) ls)) (sv_store sv)"
proof (induction ls arbitrary: n b k sv)
  case Nil
  then show ?case by (simp add: flush_def)
next
  case (Cons l ls)
  show ?case
  proof (cases "trim l = []")
    case True
    then show ?thesis using Cons by simp
  next
    case False
    let ?send = "ship_post (deliver status_line lib tm cfg secret ip) url key host kern pinned"
    let ?r = "\<lambda>body. ingest_request ip ''/api/ingest'' (agent_headers key host kern) ''application/x-ndjson'' body"
    have k: "header (?r []) ''X-Sentinel-Kernel'' = Some kern" "header (?r []) ''X-Sentinel-Ip'' = None"
      by (simp_all add: header_def ingest_request_def agent_headers_def to_ascii_lowercase_def ascii_lower_def)
    obtain rs sv1 where s: "serve_one lib (tm k) cfg secret (?r (l @ nl)) sv = (Some (Now rs), sv1)" "rs_code rs = 200"
      "sv_store sv1 = store_line lib (tm k) h kern [] l (sv_store sv)"
      using shipped_ingest [OF h refl _ False k, of lib "tm k" secret sv] Cons.prems by auto
    have "?send (l @ nl) (k, sv) = (Inr (), (Suc k, sv1))"
      using url(2) ok by (cases pinned) (simp_all add: ship_post_def deliver_def url(1) s(1,2))
    then have fl: "flush ?send (l @ nl) (k, sv) = (Inr [], (Suc k, sv1))" by (simp add: flush_def nl_def)
    let ?c = "if contains HB_SCHEMA l then (n, Suc b) else (Suc n, b)"
    have "list_all shippable ls" using Cons.prems by simp
    from Cons.IH [OF this, of "fst ?c" "snd ?c" "Suc k" sv1] show ?thesis
      using False by (auto simp: fl Let_def s(3) split: if_splits)
  qed
qed

text \<open>
  C15 (liveness): What an agent ships is stored. Over a working connection, with a key the server accepts and lines within its
  limit, shipping succeeds, counts every line that is not blank once, as an incident or as a heartbeat, and leaves the server's store
  as if the lines had been applied to it one by one, in order, under the host the key stands for.
\<close>

theorem ship_delivers:
  assumes "agent_host cfg (ingest_request ip ''/api/ingest'' (agent_headers key host (read_first_line osrelease)) ''application/x-ndjson'' []) = Inr h"
    and "split_url url = Some (sch, hp, ''/api/ingest'')" and "ca = Some (Inr der) \<or> ca = None \<and> \<not> starts_with ''https://'' url"
    and "is_ok (status_line 200)" and "list_all shippable ls"
  shows "\<exists>n b k' sv'. ship (deliver status_line lib tm cfg secret ip) osrelease url key host ca (map Some ls) (k, sv) = (Inr (n, b), (k', sv'))
    \<and> n + b = length (filter (\<lambda>l. trim l \<noteq> []) ls)
    \<and> sv_store sv' = fold (\<lambda>(i, l). store_line lib (tm i) h (read_first_line osrelease) [] l)
        (enumerate k (filter (\<lambda>l. trim l \<noteq> []) ls)) (sv_store sv)"
proof -
  let ?p = "case ca of Some (Inr der) \<Rightarrow> Some der | _ \<Rightarrow> None"
  have p: "?p \<noteq> None \<or> \<not> starts_with ''https://'' url" using assms(3) by auto
  have "ship (deliver status_line lib tm cfg secret ip) osrelease url key host ca (map Some ls) (k, sv)
      = ship_lines (ship_post (deliver status_line lib tm cfg secret ip) url key host (read_first_line osrelease) ?p) (map Some ls) (0, 0) [] (k, sv)"
    using assms(3) by (auto simp: ship_def Let_def)
  with ship_lines_deliver [where status_line = status_line, OF assms(1,2) p assms(4,5), of lib tm secret 0 0 k sv] show ?thesis by auto
qed

text \<open>
  Without a pinned certificate nothing goes out over TLS. An \<^verbatim>\<open>https\<close> address and no certificate to compare with is an error at
  the first line with text, whatever the network would do, and the network is not touched.
\<close>

theorem unpinned_https_refused:
  assumes "starts_with ''https://'' url" and "Some l \<in> set input" and "trim l \<noteq> []"
  shows "\<exists>e. ship post osrelease url key host None input st = (Inl e, st)"
proof -
  have "\<exists>e. ship_lines (ship_post post url key host kern None) input counts [] st = (Inl e, st)" for kern counts
    using assms(2)
  proof (induction input arbitrary: counts)
    case (Cons x xs)
    show ?case
    proof (cases x)
      case (Some line)
      then show ?thesis using Cons assms(1,3)
        by (cases counts) (auto simp: flush_def ship_post_def nl_def Let_def)
    qed (cases counts, simp)
  qed simp
  then show ?thesis by (simp add: ship_def Let_def)
qed

theorem unpinned_https_refused_witness:
  "\<exists>e. ship (\<lambda>url hs ct body tls n. (Inr ''HTTP/1.1 200 OK'', Suc n)) None ''https://fleet/api/ingest'' ''k'' ''h'' None [Some ''x''] 0 = (Inl e, 0)"
  by (rule unpinned_https_refused [where l = "''x''"]) (simp_all add: starts_with_def trim_plain plain_char_def)

theorem ship_delivers_witness:
  "\<exists>n b k' sv'. ship (deliver (\<lambda>c. ''HTTP/1.1 '' @ show_nat c @ '' OK'') some_libs (\<lambda>k. some_times) some_config [1] (7 :: nat)) None
      ''http://fleet:1/api/ingest'' ''k1'' ''h'' None (map Some [''{}'']) (0, quiet_server) = (Inr (n, b), (k', sv')) \<and> n + b = Suc 0"
proof -
  let ?sl = "\<lambda>c. ''HTTP/1.1 '' @ show_nat c @ '' OK''"
  have h: "agent_host some_config (ingest_request (7 :: nat) ''/api/ingest'' (agent_headers ''k1'' ''h'' (read_first_line None)) ''application/x-ndjson'' [])
      = Inr ''web''" by code_simp
  have u: "split_url ''http://fleet:1/api/ingest'' = Some (Http, ''fleet:1'', ''/api/ingest'')" by code_simp
  have "?sl 200 = join '' '' [''HTTP/1.1'', show_nat 200, ''OK'']" by simp
  moreover have "split_whitespace (join '' '' [''HTTP/1.1'', show_nat 200, ''OK'']) = [''HTTP/1.1'', show_nat 200, ''OK'']"
    by (rule split_whitespace_join) (simp_all add: show_nat.simps digit_char_def plain_char_def)
  ultimately have ok: "is_ok (?sl 200)" by (simp add: is_ok_def parse_unsigned_show_nat)
  have sh: "list_all shippable [''{}'']"
    by (simp add: shippable_def text_ok_def utf8_width_def ends_with_def starts_with_def MAX_INGEST_BODY_def)
  have t: "trim ''{}'' = ''{}''" by (rule trim_plain) (simp_all add: plain_char_def)
  show ?thesis using ship_delivers [where status_line = ?sl, OF h u _ ok sh, of None "[]" some_libs "\<lambda>k. some_times" "[1]" 0 quiet_server] t
    by (auto simp: starts_with_def)
qed

end
