(* ===== verification/Pipeline.thy ===== *)
theory Pipeline
  imports Ship Yara Agent
begin

text \<open>
  From end to end: what leaves one part of the program as text and is read by another. A capture goes from
  \<^verbatim>\<open>record\<close> to \<^verbatim>\<open>replay\<close> (\<^verbatim>\<open>src/main.rs\<close>), incidents and heartbeats from the agent to the server
  (\<^verbatim>\<open>src/detect/record.rs\<close>, \<^verbatim>\<open>src/heartbeat.rs\<close>, \<^verbatim>\<open>src/server/mod.rs\<close>). Printing and parsing the text of a JSON tree
  is the JSON library: \<open>show\<close> and \<open>parse\<close>.
\<close>

section \<open>Captures as text\<close>

definition capture_text :: "(json \<Rightarrow> string) \<Rightarrow> event list \<Rightarrow> string" where
  "capture_text show evs = concat (map (\<lambda>ev. show (event_to_json ev) @ nl) evs)"

definition read_capture :: "(string \<Rightarrow> json option) \<Rightarrow> string \<Rightarrow> event option list" where
  "read_capture parse s = map (\<lambda>l. Option.bind (parse l) event_from_json) (filter (\<lambda>l. trim l \<noteq> []) (lines s))"

section \<open>The incident on the wire\<close>

definition json_obj :: "(string \<times> json option) list \<Rightarrow> json" where
  "json_obj kvs = JObj (List.map_filter (\<lambda>(k, v). map_option (Pair k) v) kvs)"

definition json_num :: "'w :: len word \<Rightarrow> json option" where
  "json_num x = Some (ser_word x)"

definition json_str :: "string \<Rightarrow> json option" where
  "json_str s = Some (JStr s)"

definition json_strs :: "string list \<Rightarrow> json option" where
  "json_strs xs = Some (JArr (map JStr xs))"

definition unless_empty :: "string \<Rightarrow> json option" where
  "unless_empty s = (if s = [] then None else Some (JStr s))"

definition signal_to_json :: "signal_record \<Rightarrow> json" where
  "signal_to_json s = json_obj
     [(''id'', json_str (sr_id s)), (''score'', json_num (sr_score s)), (''detail'', json_str (sr_detail s)),
      (''attack'', json_strs (sr_attack s)), (''ts_ns'', json_num (sr_ts_ns s)), (''ts'', Option.bind (sr_ts s) json_num),
      (''pid'', json_num (sr_pid s)), (''cmdline'', unless_empty (sr_cmdline s))]"

definition lineage_to_json :: "lineage_record \<Rightarrow> json" where
  "lineage_to_json l = json_obj
     [(''pid'', json_num (lr_pid l)), (''comm'', json_str (lr_comm l)), (''exe'', unless_empty (lr_exe l)),
      (''cmdline'', unless_empty (lr_cmdline l))]"

definition breakdown_to_json :: "score_breakdown \<Rightarrow> json" where
  "breakdown_to_json b = json_obj
     [(''base'', json_num (sb_base b)), (''chain_bonus'', json_num (sb_chain_bonus b)),
      (''context_mult'', Some (JFloat (sb_context_mult b))), (''context_note'', map_option JStr (sb_context_note b))]"

definition subject_to_json :: "subject_record \<Rightarrow> json" where
  "subject_to_json s = json_obj
     [(''pid'', json_num (su_pid s)), (''start_boottime'', json_num (su_start_boottime s)), (''comm'', json_str (su_comm s)),
      (''exe'', unless_empty (su_exe s)), (''uid'', json_num (su_uid s)), (''cmdline'', unless_empty (su_cmdline s))]"

text \<open>The outcome of a content scan is flattened into its result, tagged by its name.\<close>

fun outcome_members :: "yara_outcome \<Rightarrow> (string \<times> json option) list" where
  "outcome_members (Matched rules) = [(''outcome'', json_str ''matched''), (''rules'', json_strs rules)]"
| "outcome_members Clean = [(''outcome'', json_str ''clean'')]"
| "outcome_members (Raced reason) = [(''outcome'', json_str ''raced''), (''reason'', json_str reason)]"

definition scan_to_json :: "yara_outcome scan_result \<Rightarrow> json" where
  "scan_to_json y = json_obj ([(''signal'', json_str (yr_signal y)), (''target'', json_str (yr_target y))] @ outcome_members (yr_outcome y))"

definition incident_to_json :: "yara_outcome incident_record \<Rightarrow> json" where
  "incident_to_json r = json_obj
     [(''schema'', json_str (ir_schema r)), (''ts_ns'', json_num (ir_ts_ns r)), (''ts'', Option.bind (ir_ts r) json_num),
      (''severity'', json_str (ir_severity r)), (''score'', json_num (ir_score r)),
      (''score_breakdown'', Some (breakdown_to_json (ir_score_breakdown r))), (''subject'', Some (subject_to_json (ir_subject r))),
      (''lineage'', json_strs (ir_lineage r)), (''lineage_detail'', Some (JArr (map lineage_to_json (ir_lineage_detail r)))),
      (''attack'', json_strs (ir_attack r)), (''signals'', Some (JArr (map signal_to_json (ir_signals r)))),
      (''yara'', if ir_yara r = [] then None else Some (JArr (map scan_to_json (ir_yara r))))]"

definition incident_ndjson :: "(json \<Rightarrow> string) \<Rightarrow> yara_outcome incident_record \<Rightarrow> string" where
  "incident_ndjson show r = show (incident_to_json r)"

definition heartbeat_ndjson :: "(json \<Rightarrow> string) \<Rightarrow> heartbeat_record \<Rightarrow> string" where
  "heartbeat_ndjson show hb = show (heartbeat_to_json hb)"

section \<open>What reading the text of a tree gives\<close>

text \<open>
  The same tree, except that the members of an object come in some order, each once, and that a fraction may be read
  as another one.
\<close>

inductive carried :: "json \<Rightarrow> json \<Rightarrow> bool" where
  "carried JNull JNull"
| "carried (JBool b) (JBool b)"
| "carried (JPos n) (JPos n)"
| "carried (JNeg i) (JNeg i)"
| "carried (JFloat x) (JFloat y)"
| "carried (JStr s) (JStr s)"
| "list_all2 carried xs ys \<Longrightarrow> carried (JArr xs) (JArr ys)"
| "distinct (map fst ls) \<Longrightarrow> (\<forall>k. rel_option carried (map_of kvs k) (map_of ls k)) \<Longrightarrow> carried (JObj kvs) (JObj ls)"

inductive_simps carried_simps [simp]:
  "carried (JStr s) w" "carried (JPos n) w" "carried (JBool b) w" "carried JNull w" "carried (JArr xs) w"

inductive_cases carried_objE: "carried (JObj kvs) w"

lemma carried_get:
  "carried (JObj kvs) w \<Longrightarrow> rel_option carried (map_of kvs k) (json_get k w)"
  by (erule carried_objE) simp

lemma carried_strs: "list_all2 carried (map JStr xs) ys \<Longrightarrow> ys = map JStr xs"
  by (induction xs arbitrary: ys) (auto simp: list_all2_Cons1)

lemma json_obj_get:
  "distinct (map fst kvs) \<Longrightarrow> json_get k (json_obj kvs) = Option.bind (map_of kvs k) (\<lambda>v. v)"
proof (induction kvs)
  case (Cons kv kvs)
  have "map_of (List.map_filter (\<lambda>(k, v). map_option (Pair k) v) kvs) k = None" if "k \<notin> fst ` set kvs"
    using that by (force simp: map_of_eq_None_iff List.map_filter_def split: option.splits)
  then show ?case using Cons by (cases kv) (auto simp: json_obj_def map_filter_simps map_of_eq_None_iff split: option.splits)
qed (simp add: json_obj_def map_filter_simps)

lemma carried_member:
  assumes "carried (json_obj kvs) w" and "distinct (map fst kvs)" and "map_of kvs k = Some v"
  shows "rel_option carried v (json_get k w)"
proof -
  obtain ms where o: "json_obj kvs = JObj ms" by (simp add: json_obj_def)
  show ?thesis using carried_get [of ms w k] json_obj_get [OF assms(2), of k] assms(1,3) by (simp add: o)
qed

lemma carried_str: "rel_option carried (json_str s) x \<Longrightarrow> x = Some (JStr s)"
  by (cases x) (auto simp: json_str_def)

lemma carried_num: "rel_option carried (json_num n) x \<Longrightarrow> x = Some (ser_word n)"
  by (cases x) (auto simp: json_num_def ser_word_def)

lemma carried_list: "rel_option carried (json_strs xs) x \<Longrightarrow> x = Some (JArr (map JStr xs))"
  by (cases x) (auto simp: json_strs_def dest: carried_strs)

lemma carried_unless_empty: "rel_option carried (unless_empty s) x \<Longrightarrow> unwrap_or [] (Option.bind x as_str) = s"
  by (cases x) (auto simp: unless_empty_def unwrap_or_def split: if_splits)

text \<open>What the server can read of an incident.\<close>

lemma subject_carried:
  assumes "carried (subject_to_json s) w"
  shows "get_str ''comm'' w = Some (su_comm s)" and "unwrap_or [] (get_str ''cmdline'' w) = su_cmdline s"
proof -
  note m = carried_member [OF assms [unfolded subject_to_json_def]]
  show "get_str ''comm'' w = Some (su_comm s)" using carried_str [OF m [of "''comm''"]] by (simp add: get_str_def)
  show "unwrap_or [] (get_str ''cmdline'' w) = su_cmdline s"
    using carried_unless_empty [OF m [of "''cmdline''"]] by (simp add: get_str_def)
qed

lemma incident_carried:
  assumes "carried (incident_to_json r) w"
  shows "get_str ''schema'' w = Some (ir_schema r)" and "get_str ''severity'' w = Some (ir_severity r)"
    and "get_u64 ''score'' w = Some (ucast (ir_score r))"
    and "json_get ''attack'' w = Some (JArr (map JStr (ir_attack r)))"
    and "\<exists>v. json_get ''subject'' w = Some v \<and> carried (subject_to_json (ir_subject r)) v"
proof -
  note m = carried_member [OF assms [unfolded incident_to_json_def]]
  show "get_str ''schema'' w = Some (ir_schema r)" using carried_str [OF m [of "''schema''"]] by (simp add: get_str_def)
  show "get_str ''severity'' w = Some (ir_severity r)" using carried_str [OF m [of "''severity''"]] by (simp add: get_str_def)
  show "get_u64 ''score'' w = Some (ucast (ir_score r))" using carried_num [OF m [of "''score''" "json_num (ir_score r)"]] by (simp add: get_u64_def ser_word_def)
  show "json_get ''attack'' w = Some (JArr (map JStr (ir_attack r)))" using carried_list [OF m [of "''attack''"]] by simp
  show "\<exists>v. json_get ''subject'' w = Some v \<and> carried (subject_to_json (ir_subject r)) v"
    using m [of "''subject''"] by (simp add: option_rel_Some1)
qed

lemma map_filter_as_str [simp]: "List.map_filter as_str (map JStr xs) = xs"
  by (induction xs) (auto simp: map_filter_simps)

lemma ucast_back [simp]: "ucast (ucast (x :: u32) :: u64) = x"
  by transfer simp

section \<open>Heartbeats arrive\<close>

definition leaf :: "json \<Rightarrow> bool" where
  "leaf v \<longleftrightarrow> (case v of JFloat _ \<Rightarrow> False | JArr _ \<Rightarrow> False | JObj _ \<Rightarrow> False | _ \<Rightarrow> True)"

lemma carried_leaf: "carried v w \<Longrightarrow> leaf v \<Longrightarrow> w = v"
  by (erule carried.cases) (auto simp: leaf_def)

lemma decode_carried:
  assumes "carried (JObj kvs) w" and "distinct (map fst kvs)" and "\<forall>v \<in> snd ` set kvs. leaf v"
  shows "decode_struct fs r0 w = decode_struct fs r0 (JObj kvs)"
proof -
  obtain ls where w: "w = JObj ls" and d: "distinct (map fst ls)" and r: "\<forall>k. rel_option carried (map_of kvs k) (map_of ls k)"
    using assms(1) by (rule carried_objE) blast
  have "map_of ls k = map_of kvs k" for k
  proof (cases "map_of kvs k")
    case (Some v)
    then have "leaf v" using assms(3) map_of_SomeD by (metis image_eqI snd_conv)
    then show ?thesis using r [rule_format, of k] Some carried_leaf by (auto simp: option_rel_Some1)
  qed (use r [rule_format, of k] in auto)
  then have "map_of ls = map_of kvs" by auto
  then show ?thesis using w d assms(2) by (simp add: decode_struct_def)
qed

lemma heartbeat_members:
  "\<exists>kvs. heartbeat_to_json hb = JObj kvs \<and> distinct (map fst kvs) \<and> (\<forall>v \<in> snd ` set kvs. leaf v)
     \<and> map_of kvs ''schema'' = Some (JStr (hb_schema hb))"
proof -
  obtain kvs where k: "heartbeat_to_json hb = JObj kvs" by (simp add: heartbeat_to_json_def encode_struct_def)
  have "distinct (map fst (List.map_filter (\<lambda>(n, put, _). map_option (Pair n) (put hb)) HEARTBEAT_FIELDS))"
    unfolding member_names using heartbeat_codec.names by (simp add: distinct_map_filter)
  then have "distinct (map fst kvs)" using k by (simp add: heartbeat_to_json_def encode_struct_def)
  moreover have "\<forall>v \<in> snd ` set kvs. leaf v"
    using k by (auto simp: heartbeat_to_json_def encode_struct_def HEARTBEAT_FIELDS_def field_names json_field_def
      map_filter_simps leaf_def ser_word_def split: if_splits option.splits)
  moreover have "map_of kvs ''schema'' = Some (JStr (hb_schema hb))"
    using k by (auto simp: heartbeat_to_json_def encode_struct_def HEARTBEAT_FIELDS_def field_names json_field_def map_filter_simps)
  ultimately show ?thesis using k by blast
qed

lemma heartbeat_carried:
  assumes "carried (heartbeat_to_json hb) w"
  shows "heartbeat_from_json w = Some hb" and "get_str ''schema'' w = Some (hb_schema hb)"
proof -
  obtain kvs where k: "heartbeat_to_json hb = JObj kvs" "distinct (map fst kvs)" "\<forall>v \<in> snd ` set kvs. leaf v"
    "map_of kvs ''schema'' = Some (JStr (hb_schema hb))" using heartbeat_members by blast
  then show "heartbeat_from_json w = Some hb"
    using decode_carried [of kvs w HEARTBEAT_FIELDS heartbeat_zero] assms heartbeat_reread [of hb] by (simp add: heartbeat_from_json_def)
  show "get_str ''schema'' w = Some (hb_schema hb)"
    using carried_get [of kvs w "''schema''"] assms k by (auto simp: get_str_def option_rel_Some1)
qed

section \<open>What the fleet server makes of it\<close>

text \<open>A line that survives being written and read: no line break in it, not blank.\<close>

definition one_line :: "string \<Rightarrow> bool" where
  "one_line l \<longleftrightarrow> CHR 0x0A \<notin> set l \<and> \<not> ends_with [CHR 0x0D] l \<and> trim l \<noteq> []"

lemma one_line_x: "one_line ''x''"
  by code_simp

lemma incident_ingested:
  assumes "r = (from_incident inc g clock)\<lparr>ir_yara := ys\<rparr>"
    and "trim (incident_ndjson show r) \<noteq> []"
    and "lb_parse lib (incident_ndjson show r) = Some w" and "carried (incident_to_json r) w"
  shows "ingest_line lib tm host kern ip (incident_ndjson show r) (sv, n, beats)
      = (push_alert \<lparr>al_host = host, al_severity = severity_label (sc_severity (inc_score inc)), al_score = sc_total (inc_score inc),
            al_subject = su_comm (subject_of g (inc_subject inc)), al_cmdline = cmdline_of g (inc_subject inc),
            al_attack = inc_attack inc\<rparr>
          (sv\<lparr>sv_store := ingest (lb_print lib) (tm_secs tm) host kern ip w (sv_store sv)\<rparr>), Suc n, beats)
    \<and> si_severity (incident_of i (tm_secs tm) w) = severity_label (sc_severity (inc_score inc))
    \<and> si_score (incident_of i (tm_secs tm) w) = sc_total (inc_score inc)"
proof -
  note c = incident_carried [OF assms(4)]
  obtain v where v: "json_get ''subject'' w = Some v" "carried (subject_to_json (ir_subject r)) v" using c(5) by blast
  have r: "ir_severity r = severity_label (sc_severity (inc_score inc))" "ir_score r = sc_total (inc_score inc)"
    "ir_subject r = subject_of g (inc_subject inc)" "ir_attack r = inc_attack inc" "ir_schema r = ''kernelsentinel.incident/v1''"
    by (simp_all add: assms(1) from_incident_def Let_def)
  have cmd: "su_cmdline (subject_of g (inc_subject inc)) = cmdline_of g (inc_subject inc)" by (simp add: subject_of_def Let_def)
  have "\<not> is_heartbeat w" using c(1) r(5) by (simp add: is_heartbeat_def HB_SCHEMA_def)
  moreover have "alert_from host w = \<lparr>al_host = host, al_severity = severity_label (sc_severity (inc_score inc)),
      al_score = sc_total (inc_score inc), al_subject = su_comm (subject_of g (inc_subject inc)),
      al_cmdline = cmdline_of g (inc_subject inc), al_attack = inc_attack inc\<rparr>"
    using c(2,3,4) v(1) subject_carried [OF v(2)] r cmd by (simp add: alert_from_def unwrap_or_def)
  ultimately show ?thesis using assms(2,3) c(2,3) r by (simp add: ingest_line_def incident_of_def unwrap_or_def)
qed

text \<open>
  C16 (functional): An incident reaches the server as the agent saw it. Whatever the content scan added, when the server
  reads the line the agent wrote for an incident it is stored, not taken for a heartbeat: it is filed under the host with
  the severity and the total score the engine gave it, and the alert that is raised names the same severity and score,
  the command name and command line of the subject and the same techniques.
\<close>

theorem incident_arrives:
  assumes "r = (from_incident inc g clock)\<lparr>ir_yara := ys\<rparr>"
    and "trim (incident_ndjson show r) \<noteq> []"
    and "lb_parse lib (incident_ndjson show r) = Some w" and "carried (incident_to_json r) w"
  shows "ingest_line lib tm host kern ip (incident_ndjson show r) (sv, n, beats)
      = (push_alert \<lparr>al_host = host, al_severity = severity_label (sc_severity (inc_score inc)), al_score = sc_total (inc_score inc),
            al_subject = su_comm (subject_of g (inc_subject inc)), al_cmdline = cmdline_of g (inc_subject inc),
            al_attack = inc_attack inc\<rparr>
          (sv\<lparr>sv_store := ingest (lb_print lib) (tm_secs tm) host kern ip w (sv_store sv)\<rparr>), Suc n, beats)
    \<and> si_severity (incident_of i (tm_secs tm) w) = severity_label (sc_severity (inc_score inc))
    \<and> si_score (incident_of i (tm_secs tm) w) = sc_total (inc_score inc)"
  by (rule incident_ingested [OF assms])

text \<open>A library that reads back the very tree it was given carries it.\<close>

lemma carried_obj_refl:
  assumes "distinct (map fst kvs)" and "\<forall>v \<in> snd ` set kvs. rel_option carried v v"
  shows "carried (json_obj kvs) (json_obj kvs)"
proof -
  let ?ms = "List.map_filter (\<lambda>(k, v). map_option (Pair k) v) kvs"
  have "map fst (List.map_filter (\<lambda>(k, v). map_option (Pair k) v) kvs) = map fst (filter (\<lambda>kv. snd kv \<noteq> None) kvs)" for kvs :: "(string \<times> json option) list"
    by (induction kvs) (auto simp: map_filter_simps split: option.splits)
  then have "distinct (map fst ?ms)" using assms(1) by (simp add: distinct_map_filter)
  moreover have "rel_option carried (map_of ?ms k) (map_of ?ms k)" for k
    using json_obj_get [OF assms(1), of k] assms(2) by (cases "map_of kvs k") (force simp: json_obj_def dest: map_of_SomeD)+
  ultimately show ?thesis by (auto simp: json_obj_def intro: carried.intros)
qed

lemma carried_refl [simp]:
  "rel_option carried (json_str s) (json_str s)" "rel_option carried (json_num n) (json_num n)"
  "rel_option carried (json_strs xs) (json_strs xs)" "rel_option carried (unless_empty s) (unless_empty s)"
  "rel_option carried (Option.bind t json_num) (Option.bind t json_num)" "carried (JFloat x) (JFloat x)"
  "rel_option carried (map_option JStr nt) (map_option JStr nt)"
  by (cases t; cases nt; auto simp: json_str_def json_num_def json_strs_def unless_empty_def ser_word_def list_all2_same
      intro: carried.intros)+

lemma incident_carried_refl: "carried (incident_to_json r) (incident_to_json r)"
proof -
  have "carried (signal_to_json s) (signal_to_json s)" "carried (lineage_to_json l) (lineage_to_json l)"
    "carried (breakdown_to_json b) (breakdown_to_json b)" "carried (subject_to_json u) (subject_to_json u)" for s l b u
    by (auto simp: signal_to_json_def lineage_to_json_def breakdown_to_json_def subject_to_json_def intro!: carried_obj_refl)
  moreover have "carried (scan_to_json y) (scan_to_json y)" for y
    by (cases "yr_outcome y") (auto simp: scan_to_json_def intro!: carried_obj_refl)
  ultimately show ?thesis by (auto simp: incident_to_json_def list_all2_same intro!: carried_obj_refl)
qed

definition example_incident :: incident where
  "example_incident = \<lparr>inc_subject = ProcKey 7 1, inc_signals = [],
     inc_score = \<lparr>sc_total = 70, sc_base = 70, sc_chain_bonus = 0, sc_context_mult = 1, sc_context_note = None, sc_severity = High\<rparr>,
     inc_attack = [''T1548'']\<rparr>"

theorem incident_arrives_witness:
  "let r = from_incident example_incident (graph_new 10 10) None;
       lib = some_libs\<lparr>lb_parse := (\<lambda>_. Some (incident_to_json r))\<rparr>;
       (sv, n, beats) = ingest_line lib some_times ''web'' [] [] (incident_ndjson (\<lambda>_. ''x'') r) (quiet_server, 0, 0)
   in n = 1 \<and> beats = 0 \<and> si_severity (incident_of 1 9 (incident_to_json r)) = ''HIGH''"
proof -
  let ?r = "from_incident example_incident (graph_new 10 10) None :: yara_outcome incident_record"
  let ?lib = "some_libs\<lparr>lb_parse := (\<lambda>_. Some (incident_to_json ?r))\<rparr>"
  have same: "?r = ?r\<lparr>ir_yara := []\<rparr>" by (simp add: from_incident_def Let_def)
  have line: "trim (incident_ndjson (\<lambda>_. ''x'') ?r) \<noteq> []" using one_line_x by (simp add: incident_ndjson_def one_line_def)
  have parsed: "lb_parse ?lib (incident_ndjson (\<lambda>_. ''x'') ?r) = Some (incident_to_json ?r)" by simp
  have high: "severity_label (sc_severity (inc_score example_incident)) = ''HIGH''" by (simp add: example_incident_def severity_label_def)
  show ?thesis
    using incident_arrives [OF same line parsed incident_carried_refl, of some_times "''web''" "[]" "[]" quiet_server 0 0 1]
    unfolding Let_def high by (auto simp: some_times_def)
qed

lemma heartbeat_ingested:
  assumes "hb_schema hb = HB_SCHEMA" and "trim (heartbeat_ndjson show hb) \<noteq> []"
    and "lb_parse lib (heartbeat_ndjson show hb) = Some w" and "carried (heartbeat_to_json hb) w"
  shows "ingest_line lib tm host kern ip (heartbeat_ndjson show hb) (sv, n, beats)
    = (sv\<lparr>sv_store := store_heartbeat (tm_secs tm) host kern ip hb (sv_store sv)\<rparr>, n, Suc beats)"
  using heartbeat_carried [OF assms(4)] assms(1,2,3) by (simp add: ingest_line_def is_heartbeat_def)

text \<open>A heartbeat is recorded as what it says, and never as a finding.\<close>

theorem heartbeat_arrives:
  assumes "trim (heartbeat_ndjson show (heartbeat_new version now uptime c verified misses)) \<noteq> []"
    and "lb_parse lib (heartbeat_ndjson show (heartbeat_new version now uptime c verified misses)) = Some w"
    and "carried (heartbeat_to_json (heartbeat_new version now uptime c verified misses)) w"
  shows "ingest_line lib tm host kern ip (heartbeat_ndjson show (heartbeat_new version now uptime c verified misses)) (sv, n, beats)
    = (sv\<lparr>sv_store := store_heartbeat (tm_secs tm) host kern ip (heartbeat_new version now uptime c verified misses) (sv_store sv)\<rparr>,
       n, Suc beats)"
  by (rule heartbeat_ingested [OF _ assms]) (simp add: heartbeat_new_def)

section \<open>Replaying a capture\<close>

lemma lines_Cons: "CHR 0x0A \<notin> set l \<Longrightarrow> \<not> ends_with [CHR 0x0D] l \<Longrightarrow> lines (l @ nl @ s) = l # lines s"
  by (auto simp: lines_def nl_def split_on_append strip_suffix_def ends_with_iff starts_with_iff strip_prefix_def Let_def
      split: option.splits)

lemma read_written:
  assumes "\<forall>ev \<in> set evs. one_line (show (event_to_json ev)) \<and> parse (show (event_to_json ev)) = Some (event_to_json ev)"
  shows "read_capture parse (capture_text show evs) = map (\<lambda>ev. Some (de_redacted_argv ev)) evs"
  using assms
proof (induction evs)
  case (Cons ev evs)
  then show ?case
    by (simp add: read_capture_def capture_text_def one_line_def lines_Cons event_reread de_redacted_argv_def)
qed (simp add: read_capture_def capture_text_def lines_def)

end
