(* ===== verification/Display.thy ===== *)
theory Display
  imports Watchlist
begin

text \<open>
  The human-readable line of an event: \<^verbatim>\<open>event_detail\<close> and \<^verbatim>\<open>format_caps\<close> of \<^verbatim>\<open>src/main.rs\<close>.
\<close>

section \<open>Formatting\<close>

text \<open>\<^verbatim>\<open>{:o}\<close>.\<close>

fun show_oct :: "nat \<Rightarrow> string" where
  "show_oct n = (if n < 8 then [digit_char n] else show_oct (n div 8) @ [digit_char (n mod 8)])"

declare show_oct.simps [simp del]

text \<open>The number of capabilities without a name is a subtraction on an unsigned type.\<close>

definition count_ones :: "u64 \<Rightarrow> nat" where
  "count_ones msk = length (filter (bit msk) [0..<64])"

definition unnamed_caps :: "u64 \<Rightarrow> u64" where
  "unnamed_caps msk = of_nat (count_ones msk) - of_nat (length (cap_names msk))"

definition format_caps :: "u64 \<Rightarrow> string" where
  "format_caps msk =
     (let named = cap_names msk; rest = unnamed_caps msk
      in if named = [] then show_word rest @ '' unnamed''
         else if rest = 0 then join '','' named
         else join '','' named @ '',+'' @ show_word rest)"

section \<open>The detail of an event\<close>

definition cred_detail :: "event \<Rightarrow> string list" where
  "cred_detail ev =
     (let gained = and (ev_cap_effective ev) (not (ev_old_cap_effective ev))
      in (if ev_old_uid ev \<noteq> ev_uid ev \<or> ev_old_euid ev \<noteq> ev_euid ev
          then [''uid '' @ show_word (ev_old_uid ev) @ '':'' @ show_word (ev_old_euid ev) @ '' -> ''
                 @ show_word (ev_uid ev) @ '':'' @ show_word (ev_euid ev)] else [])
       @ (if ev_old_gid ev \<noteq> ev_gid ev \<or> ev_old_egid ev \<noteq> ev_egid ev
          then [''gid '' @ show_word (ev_old_gid ev) @ '':'' @ show_word (ev_old_egid ev) @ '' -> ''
                 @ show_word (ev_gid ev) @ '':'' @ show_word (ev_egid ev)] else [])
       @ (if gained \<noteq> 0 then [''+caps '' @ format_caps gained] else []))"

text \<open>The arguments without the program name, and without the script path a shebang repeats.\<close>

definition exec_args :: "event \<Rightarrow> string list" where
  "exec_args ev =
     (let args = drop 1 (ev_argv ev)
      in case args of a # as \<Rightarrow> if a = ev_filename ev then as else args | [] \<Rightarrow> args)"

definition ELLIPSIS :: string where
  \<comment> \<open>a space and U+2026\<close>
  "ELLIPSIS = CHR '' '' # map char_of [0xE2 :: nat, 0x80, 0xA6]"

definition event_detail :: "event \<Rightarrow> string" where
  "event_detail ev =
     (case event_type ev of
        Exec \<Rightarrow> ''exec '' @ ev_filename ev @ '' '' @ join '' '' (exec_args ev) @ (if ev_truncated ev then ELLIPSIS else [])
      | Exit \<Rightarrow> ''exit code='' @ show_word (ev_exit_code ev)
      | Fork \<Rightarrow> ''fork -> pid '' @ show_word (ev_child_pid ev)
      | CredChange \<Rightarrow> ''cred '' @ join '' '' (cred_detail ev)
      | FileOpen \<Rightarrow> ''open['' @ (if opened_for_write ev then ''write'' else ''read'') @ ''] '' @ ev_filename ev
          @ ''  <'' @ label_for (ev_filename ev) @ ''>''
      | FileMode \<Rightarrow> ''SUID-CREATE '' @ ev_filename ev @ '' gained '' @ gained_bits ev
          @ '' (0'' @ show_oct (unat (and (ev_old_file_mode ev) 0xFFF)) @ '' -> 0''
          @ show_oct (unat (and (ev_file_mode ev) 0xFFF)) @ '')'' @ (if ev_degraded_path ev then '' [path degraded]'' else [])
      | Setcap \<Rightarrow> ''SETCAP file capabilities set on '' @ ev_filename ev @ (if ev_degraded_path ev then '' [name only]'' else [])
      | Ptrace \<Rightarrow> ''PTRACE['' @ (if ptrace_is_attach ev then ''ATTACH'' else ''read'') @ ''] -> pid ''
          @ show_word (ev_target_pid ev) @ '' ('' @ ev_filename ev @ '')''
      | ExecAnon \<Rightarrow> ''FILELESS-EXEC from '' @ exec_source ev @ '' '' @ ev_filename ev
          @ (if ev_degraded_path ev then '' [path degraded]'' else [])
      | SockConnect \<Rightarrow> ''SOCKET-CONNECT '' @ ev_filename ev
      | SockListen \<Rightarrow> ''LISTEN port '' @ show_word (ev_aux ev)
      | Module \<Rightarrow> (if module_origin ev = [] then ''MODULE-LOAD '' @ ev_filename ev
                   else ''MODULE-LOAD '' @ ev_filename ev @ '' (via '' @ module_origin ev @ '')'')
      | Unknown t \<Rightarrow> ''unknown type='' @ show_word t)"

section \<open>Counting capabilities\<close>

lemma cap_names_le: "length (cap_names msk) \<le> count_ones msk"
proof -
  have d: "distinct (map fst CAPS)" and lt: "set (map fst CAPS) \<subseteq> {0..<64}" by (auto simp: CAPS_def)
  have "length (cap_names msk) = length (filter (bit msk) (map fst CAPS))"
    by (simp add: cap_names_def filter_map comp_def case_prod_beta')
  also have "\<dots> = card (set (filter (bit msk) (map fst CAPS)))" using d by (intro distinct_card [symmetric]) simp
  also have "\<dots> \<le> card (set (filter (bit msk) [0..<64]))" using lt by (intro card_mono) auto
  also have "\<dots> = count_ones msk" by (simp add: count_ones_def distinct_card del: set_filter)
  finally show ?thesis .
qed

text \<open>
  The count of unnamed capabilities never wraps below zero: named and unnamed together are
  exactly the capabilities of the set.
\<close>

theorem caps_counted: "unat (unnamed_caps msk) + length (cap_names msk) = count_ones msk"
proof -
  have "count_ones msk \<le> 64" unfolding count_ones_def by (rule order_trans [OF length_filter_le]) simp
  then have "unat (of_nat (count_ones msk) - of_nat (length (cap_names msk)) :: u64) = count_ones msk - length (cap_names msk)"
    using cap_names_le [of msk] by (simp add: unat_of_nat flip: of_nat_diff)
  then show ?thesis using cap_names_le [of msk] by (simp add: unnamed_caps_def)
qed

end
