(* ===== verification/Daemon.thy ===== *)
theory Daemon
  imports Startup Loop Pipeline Display "HOL-Library.Countable"
begin

text \<open>
  The running agent: the callbacks that \<^verbatim>\<open>run\<close> of \<^verbatim>\<open>src/main.rs\<close> gives to the loop of theory Loop, with what they
  write. Standard output is the list of lines written, and a pipe whose reader has gone stops the loop.
\<close>

section \<open>Output\<close>

record console =
  co_lines :: "string list"
  co_stop :: bool

text \<open>\<open>accepts\<close> says whether the next write succeeds, given what has been written.\<close>

definition emit :: "(string list \<Rightarrow> bool) \<Rightarrow> string \<Rightarrow> console \<Rightarrow> console" where
  "emit accepts line c = (if accepts (co_lines c) then c\<lparr>co_lines := co_lines c @ [line]\<rparr> else c\<lparr>co_stop := True\<rparr>)"

definition event_line :: "string list \<Rightarrow> string" where
  "event_line cells =
     (case cells of [time, pid, ppid, uid, comm, detail] \<Rightarrow>
        pad_right 12 time @ '' '' @ pad_right 7 pid @ '' '' @ pad_right 7 ppid @ '' '' @ pad_right 6 uid @ '' '' @ pad_right 16 comm @ '' '' @ detail
      | _ \<Rightarrow> [])"

definition event_header :: string where
  "event_header = event_line [''TIME(boot)'', ''PID'', ''PPID'', ''UID'', ''COMM'', ''EVENT'']"

definition print_event :: "boot_clock \<Rightarrow> event \<Rightarrow> string" where
  "print_event clock ev = event_line [clock_format clock (ev_ts_ns ev), show_word (ev_tgid ev), show_word (ev_ppid ev), show_word (ev_uid ev),
     ev_comm ev, trim_end (event_detail ev)]"

definition yara_line :: "yara_outcome scan_result \<Rightarrow> string list" where
  "yara_line r = (case yr_outcome r of Matched rules \<Rightarrow> [''    yara  '' @ yr_target r @ ''  '' @ join '', '' rules] | _ \<Rightarrow> [])"

section \<open>The callbacks\<close>

text \<open>
  What the host is like when a callback runs: its files, its clocks, what a content scan would give and whether a child could be
  started. Both callbacks count, so that each sees its own moment.
\<close>

record moment =
  mo_env :: env
  mo_fs :: host_fs
  mo_scan :: "string \<Rightarrow> yara_outcome"
  mo_now :: u64
  mo_uptime :: u64
  mo_spawned :: "u32 option"

record daemon =
  da_agent :: agent
  da_console :: console
  da_count :: nat

record daemon_config =
  dc_world :: "nat \<Rightarrow> moment"
  dc_accepts :: "string list \<Rightarrow> bool"
  dc_show :: "json \<Rightarrow> string"
  dc_json :: bool
  dc_scanning :: bool
  dc_clock :: boot_clock
  dc_self :: u32
  dc_version :: string

definition incident_record_of :: "daemon_config \<Rightarrow> moment \<Rightarrow> graph \<Rightarrow> incident \<Rightarrow> yara_outcome incident_record" where
  "incident_record_of dc mo g inc =
     (let rec = from_incident inc g (Some (dc_clock dc)) in if dc_scanning dc then enrich (mo_scan mo) inc rec else rec)"

definition report_lines :: "daemon_config \<Rightarrow> moment \<Rightarrow> graph \<Rightarrow> incident \<Rightarrow> string list" where
  "report_lines dc mo g inc =
     (let rec = incident_record_of dc mo g inc
      in if dc_json dc then [incident_ndjson (dc_show dc) rec] else render inc g (dc_clock dc) # concat (map yara_line (ir_yara rec)))"

text \<open>An event: its own are skipped; the report is written before housekeeping, the event itself after it.\<close>

definition daemon_event :: "daemon_config \<Rightarrow> raw_event \<Rightarrow> daemon \<Rightarrow> (bool \<times> daemon) option" where
  "daemon_event dc raw da0 =
     (let mo = dc_world dc (da_count da0); da = da0\<lparr>da_count := Suc (da_count da0)\<rparr>; ag = da_agent da
      in if r_tgid raw = dc_self dc then Some (False, da)
         else
           let c = canary_observe (r_tgid raw) (ag_canary ag);
               (ev, tb) = resolve_trust (mo_fs mo) (event_from_raw raw) (ag_trusted ag);
               g = apply_event ev (ag_graph ag);
               (inc, e) = engine_on_event (mo_env mo) ev g (ag_engine ag);
               out = (case inc of None \<Rightarrow> da_console da
                      | Some i \<Rightarrow> fold (emit (dc_accepts dc)) (report_lines dc mo g i) (da_console da))
           in map_option (\<lambda>ag'. (False, da\<lparr>da_agent := ag',
                 da_console := (if dc_json dc then out else emit (dc_accepts dc) (print_event (dc_clock dc) ev) out)\<rparr>))
                (maybe_reap (ev_ts_ns ev) (ag\<lparr>ag_canary := c, ag_trusted := tb, ag_graph := g, ag_engine := e\<rparr>)))"

definition counters_of :: "sensor_stats \<Rightarrow> counters" where
  "counters_of s = \<lparr>ct_events = st_emitted s, ct_drops = st_drops s, ct_decode_panics = st_decode_panics s,
     ct_sensors_active = st_sensors_active s, ct_sensors_total = st_sensors_total s\<rparr>"

definition daemon_tick :: "daemon_config \<Rightarrow> sensor_stats \<Rightarrow> daemon \<Rightarrow> daemon" where
  "daemon_tick dc s da =
     (let mo = dc_world dc (da_count da);
          (hb, ag) = agent_tick (dc_version dc) (mo_now mo) (mo_uptime mo) (counters_of s) (mo_spawned mo) (da_agent da)
      in da\<lparr>da_count := Suc (da_count da), da_agent := ag,
            da_console := (if dc_json dc then emit (dc_accepts dc) (heartbeat_ndjson (dc_show dc) hb) (da_console da) else da_console da)\<rparr>)"

definition daemon_caller :: "daemon_config \<Rightarrow> daemon caller" where
  "daemon_caller dc = \<lparr>cl_event = daemon_event dc, cl_tick = daemon_tick dc, cl_stopped = (\<lambda>da. co_stop (da_console da))\<rparr>"

definition daemon_start :: "daemon_config \<Rightarrow> agent \<Rightarrow> daemon" where
  "daemon_start dc ag =
     (let c = \<lparr>co_lines = [], co_stop = False\<rparr>
      in \<lparr>da_agent = ag, da_console = (if dc_json dc then c else emit (dc_accepts dc) event_header c), da_count = 0\<rparr>)"

section \<open>The daemon is the agent\<close>

text \<open>The incident of an event and the graph it is reported from.\<close>

definition seen_by :: "daemon_config \<Rightarrow> moment \<Rightarrow> raw_event \<Rightarrow> agent \<Rightarrow> graph" where
  "seen_by dc mo raw ag = apply_event (fst (resolve_trust (mo_fs mo) (event_from_raw raw) (ag_trusted ag))) (ag_graph ag)"

lemma daemon_event_agent:
  assumes "agent_event (mo_env (dc_world dc (da_count da))) (mo_fs (dc_world dc (da_count da))) (dc_self dc) raw (da_agent da) = Some (inc, ag')"
  shows "\<exists>da'. daemon_event dc raw da = Some (False, da') \<and> da_agent da' = ag' \<and> da_count da' = Suc (da_count da)
    \<and> (dc_json dc \<longrightarrow> da_console da' = (case inc of None \<Rightarrow> da_console da
         | Some i \<Rightarrow> emit (dc_accepts dc) (incident_ndjson (dc_show dc)
             (incident_record_of dc (dc_world dc (da_count da)) (seen_by dc (dc_world dc (da_count da)) raw (da_agent da)) i)) (da_console da)))"
  using assms
  by (auto simp: daemon_event_def agent_event_def agent_apply_def report_lines_def seen_by_def Let_def
      split: if_splits prod.splits option.splits)

lemma daemon_tick_agent:
  "\<exists>hb. agent_tick (dc_version dc) (mo_now (dc_world dc (da_count da))) (mo_uptime (dc_world dc (da_count da))) (counters_of s)
       (mo_spawned (dc_world dc (da_count da))) (da_agent da) = (hb, da_agent (daemon_tick dc s da))
     \<and> da_count (daemon_tick dc s da) = Suc (da_count da)
     \<and> (dc_json dc \<longrightarrow> da_console (daemon_tick dc s da) = emit (dc_accepts dc) (heartbeat_ndjson (dc_show dc) hb) (da_console da))"
  by (simp add: daemon_tick_def Let_def split: prod.splits)

interpretation daemon_sound: sound_caller "daemon_caller dc" "\<lambda>raw. fork_ok (event_from_raw raw)" "\<lambda>da. agent_ok (da_agent da)" for dc
proof unfold_locales
  fix da :: daemon and raw :: raw_event and st :: sensor_stats
  assume ok: "agent_ok (da_agent da)"
  show "\<exists>p da'. cl_event (daemon_caller dc) raw da = Some (p, da') \<and> agent_ok (da_agent da')" if "fork_ok (event_from_raw raw)"
    using agent_event_spec [OF ok that, of "mo_env (dc_world dc (da_count da))" "mo_fs (dc_world dc (da_count da))" "dc_self dc"]
      daemon_event_agent [of dc da raw] by (fastforce simp: daemon_caller_def)
  show "agent_ok (da_agent (cl_tick (daemon_caller dc) st da))"
    using daemon_tick_agent [of dc da st] agent_step_ok [OF ok step_tick] by (auto simp: daemon_caller_def)
qed

text \<open>Every callback returns, over any turns of the loop, and leaves an agent fit to go on.\<close>

lemma daemon_returns:
  assumes "list_all (turn_ok (\<lambda>raw. fork_ok (event_from_raw raw))) ts"
  shows "\<exists>r l. run_loop (daemon_caller dc) cfg update ts
       (loop_start (daemon_start dc (agent_start mx retain sev b rs pf fs hz)) watched m t0 r0) = Some (r, l)
     \<and> agent_ok (da_agent (lo_app l))"
proof -
  have "agent_ok (da_agent (lo_app (loop_start (daemon_start dc (agent_start mx retain sev b rs pf fs hz)) watched m t0 r0)))"
    using agent_start_ok by (simp add: loop_start_def daemon_start_def Let_def)
  from daemon_sound.loop_returns [OF this assms] show ?thesis by blast
qed

section \<open>What is written\<close>

text \<open>What the agent of theory Agent reports on what the loop tells it: an incident, or a heartbeat.\<close>

datatype report = Report_incident incident graph moment | Report_heartbeat heartbeat_record

fun reports :: "daemon_config \<Rightarrow> told list \<Rightarrow> nat \<Rightarrow> agent \<Rightarrow> report list" where
  "reports dc [] n ag = []"
| "reports dc (Told_event raw p # xs) n ag =
     (let mo = dc_world dc n
      in case agent_event (mo_env mo) (mo_fs mo) (dc_self dc) raw ag of
           None \<Rightarrow> []
         | Some (inc, ag') \<Rightarrow>
             (case inc of None \<Rightarrow> [] | Some i \<Rightarrow> [Report_incident i (seen_by dc mo raw ag) mo]) @ reports dc xs (Suc n) ag')"
| "reports dc (Told_tick st # xs) n ag =
     (let mo = dc_world dc n
      in case agent_tick (dc_version dc) (mo_now mo) (mo_uptime mo) (counters_of st) (mo_spawned mo) ag of
           (hb, ag') \<Rightarrow> Report_heartbeat hb # reports dc xs (Suc n) ag')"

definition line_of :: "daemon_config \<Rightarrow> report \<Rightarrow> string" where
  "line_of dc r = (case r of Report_incident i g mo \<Rightarrow> incident_ndjson (dc_show dc) (incident_record_of dc mo g i)
     | Report_heartbeat hb \<Rightarrow> heartbeat_ndjson (dc_show dc) hb)"

lemma daemon_event_None:
  "agent_event (mo_env (dc_world dc (da_count da))) (mo_fs (dc_world dc (da_count da))) (dc_self dc) raw (da_agent da) = None
   \<Longrightarrow> daemon_event dc raw da = None"
  by (simp add: daemon_event_def agent_event_def agent_apply_def Let_def split: if_splits prod.splits)

lemma retell_writes:
  assumes "dc_json dc" and "dc_accepts dc = (\<lambda>_. True)"
  shows "retell (daemon_caller dc) xs da = Some da' \<Longrightarrow>
    co_lines (da_console da') = co_lines (da_console da) @ map (line_of dc) (reports dc xs (da_count da) (da_agent da))
    \<and> co_stop (da_console da') = co_stop (da_console da)"
proof (induction xs arbitrary: da)
  case (Cons x xs)
  let ?mo = "dc_world dc (da_count da)"
  show ?case
  proof (cases x)
    case (Told_event raw p)
    show ?thesis
    proof (cases "agent_event (mo_env ?mo) (mo_fs ?mo) (dc_self dc) raw (da_agent da)")
      case None
      then show ?thesis using Cons.prems Told_event daemon_event_None [OF None] by (simp add: daemon_caller_def)
    next
      case (Some y)
      obtain inc ag' where y: "y = (inc, ag')" by fastforce
      from daemon_event_agent [OF Some [unfolded y]] obtain da1 where da1: "daemon_event dc raw da = Some (False, da1)"
        "da_agent da1 = ag'" "da_count da1 = Suc (da_count da)"
        "da_console da1 = (case inc of None \<Rightarrow> da_console da
           | Some i \<Rightarrow> emit (dc_accepts dc) (line_of dc (Report_incident i (seen_by dc ?mo raw (da_agent da)) ?mo)) (da_console da))"
        using assms(1) by (auto simp: line_of_def split: option.splits)
      have "retell (daemon_caller dc) xs da1 = Some da'" using Cons.prems Told_event da1(1) by (auto simp: daemon_caller_def split: if_splits)
      from Cons.IH [OF this] show ?thesis using da1 Some y assms(2) Told_event
        by (auto simp: emit_def Let_def split: option.splits)
    qed
  next
    case (Told_tick st)
    then have "retell (daemon_caller dc) xs (daemon_tick dc st da) = Some da'" using Cons.prems by (simp add: daemon_caller_def)
    from Cons.IH [OF this] daemon_tick_agent [of dc da st] show ?thesis using Told_tick assms
      by (auto simp: emit_def line_of_def Let_def)
  qed
qed simp

text \<open>
  C6 (equivalence): What is written is what the agent reports. With JSON output and a reader, the lines written over any run are exactly
  the incidents the agent reports on the records that were polled and decode, with what the content scan found, and one heartbeat for each tick,
  in the order in which they came about; nothing is written twice, left out or written for a record that did not decode.
\<close>

theorem daemon_writes_reports:
  assumes "run_loop (daemon_caller dc) cfg update ts (loop_start (daemon_start dc ag) watched m t0 r0) = Some (r, l)"
    and "dc_json dc" and "dc_accepts dc = (\<lambda>_. True)"
  shows "\<exists>n \<le> length ts. (r = None \<longrightarrow> n = length ts)
    \<and> events_of (lo_told l) = List.map_filter from_bytes (concat (map tu_data (take n ts)))
    \<and> co_lines (da_console (lo_app l)) = map (line_of dc) (reports dc (lo_told l) 0 ag)"
proof -
  have "faithful (daemon_caller dc) (daemon_start dc ag) (loop_start (daemon_start dc ag) watched m t0 r0)"
    by (simp add: faithful_def loop_start_def)
  from run_loop_faithful [OF assms(1) this] obtain n where n: "n \<le> length ts" "r = None \<longrightarrow> n = length ts"
    "events_of (lo_told l) = List.map_filter from_bytes (concat (map tu_data (take n ts)))"
    and re: "retell (daemon_caller dc) (lo_told l) (daemon_start dc ag) = Some (lo_app l)"
    by (auto simp: faithful_def loop_start_def)
  from retell_writes [OF assms(2,3) re] assms(2) show ?thesis using n by (auto simp: daemon_start_def Let_def)
qed

section \<open>What the fleet server receives\<close>

text \<open>What is relied on of the JSON library: the text of a tree without repeated names is not blank and is read back as that tree.\<close>

definition json_library :: "(json \<Rightarrow> string) \<Rightarrow> (string \<Rightarrow> json option) \<Rightarrow> bool" where
  "json_library show parse \<longleftrightarrow> (\<forall>v. carried v v \<longrightarrow> trim (show v) \<noteq> [] \<and> (\<exists>w. parse (show v) = Some w \<and> carried v w))"

definition incidents_in :: "report list \<Rightarrow> nat" where
  "incidents_in rs = length (filter (\<lambda>r. case r of Report_incident _ _ _ \<Rightarrow> True | Report_heartbeat _ \<Rightarrow> False) rs)"

lemma leaf_carried: "leaf v \<Longrightarrow> carried v v"
  by (cases v) (auto simp: leaf_def intro: carried.intros)

lemma heartbeat_carried_refl: "carried (heartbeat_to_json hb) (heartbeat_to_json hb)"
proof -
  obtain kvs where k: "heartbeat_to_json hb = JObj kvs" "distinct (map fst kvs)" "\<forall>v \<in> snd ` set kvs. leaf v"
    using heartbeat_members by blast
  then have "rel_option carried (map_of kvs n) (map_of kvs n)" for n
    by (cases "map_of kvs n") (auto dest!: map_of_SomeD intro!: leaf_carried)
  then show ?thesis using k by (auto intro: carried.intros)
qed

lemma reports_schema: "Report_heartbeat hb \<in> set (reports dc xs n ag) \<Longrightarrow> hb_schema hb = HB_SCHEMA"
proof (induction xs arbitrary: n ag)
  case (Cons x xs)
  then show ?case
    by (cases x) (auto simp: Let_def agent_tick_def heartbeat_new_def split: option.splits prod.splits)
qed simp

lemma record_shape: "\<exists>ys. incident_record_of dc mo g i = (from_incident i g (Some (dc_clock dc)))\<lparr>ir_yara := ys\<rparr>"
proof (cases "dc_scanning dc")
  case False
  have "from_incident i g c = (from_incident i g c)\<lparr>ir_yara := []\<rparr>" for c by (simp add: from_incident_def Let_def)
  then show ?thesis using False by (auto simp: incident_record_of_def)
qed (auto simp: incident_record_of_def enrich_def Let_def)

lemma reports_ingested:
  fixes sv :: "'ip server"
  assumes lib: "json_library (dc_show dc) (lb_parse lib)"
  shows "(\<And>hb. Report_heartbeat hb \<in> set rs \<Longrightarrow> hb_schema hb = HB_SCHEMA) \<Longrightarrow>
    \<exists>sv'. fold (ingest_line lib tm host kern ip) (map (line_of dc) rs) (sv, n, b) = (sv', n + incidents_in rs, b + (length rs - incidents_in rs))"
proof (induction rs arbitrary: sv n b)
  case (Cons r rs)
  have IH: "\<exists>sv'. fold (ingest_line lib tm host kern ip) (map (line_of dc) rs) (sv, n, b) = (sv', n + incidents_in rs, b + (length rs - incidents_in rs))"
    for sv :: "'ip server" and n b
    by (rule Cons.IH) (use Cons.prems in auto)
  have le: "incidents_in rs \<le> length rs" by (simp add: incidents_in_def)
  show ?case
  proof (cases r)
    case (Report_incident i g mo)
    obtain ys where y: "incident_record_of dc mo g i = (from_incident i g (Some (dc_clock dc)))\<lparr>ir_yara := ys\<rparr>" using record_shape by blast
    obtain w where "trim (line_of dc r) \<noteq> []" "lb_parse lib (line_of dc r) = Some w" "carried (incident_to_json (incident_record_of dc mo g i)) w"
      using lib incident_carried_refl Report_incident unfolding json_library_def by (force simp: line_of_def incident_ndjson_def)
    from incident_ingested [OF y, of "dc_show dc" lib w tm host kern ip sv n b] this
    obtain sv1 where "ingest_line lib tm host kern ip (line_of dc r) (sv, n, b) = (sv1, Suc n, b)"
      by (auto simp: Report_incident line_of_def)
    then show ?thesis using IH [of sv1 "Suc n" b] le by (simp add: Report_incident incidents_in_def)
  next
    case (Report_heartbeat hb)
    obtain w where "trim (line_of dc r) \<noteq> []" "lb_parse lib (line_of dc r) = Some w" "carried (heartbeat_to_json hb) w"
      using lib heartbeat_carried_refl Report_heartbeat unfolding json_library_def by (force simp: line_of_def heartbeat_ndjson_def)
    with heartbeat_ingested [of hb "dc_show dc" lib w tm host kern ip sv n b] Cons.prems Report_heartbeat
    obtain sv1 where "ingest_line lib tm host kern ip (line_of dc r) (sv, n, b) = (sv1, n, Suc b)" by (auto simp: line_of_def)
    then show ?thesis using IH [of sv1 n "Suc b"] le by (simp add: Report_heartbeat incidents_in_def Suc_diff_le)
  qed
qed (simp add: incidents_in_def)

text \<open>Every tick the caller was told of is among the reports.\<close>

lemma reports_count:
  "retell (daemon_caller dc) xs da = Some da' \<Longrightarrow>
   length (reports dc xs (da_count da) (da_agent da)) = incidents_in (reports dc xs (da_count da) (da_agent da)) + length (ticks_of xs)"
proof (induction xs arbitrary: da)
  case (Cons x xs)
  let ?mo = "dc_world dc (da_count da)"
  have tk: "ticks_of (x # xs) = ticks_of [x] @ ticks_of xs" by (simp flip: ticks_append(1))
  show ?case
  proof (cases x)
    case (Told_event raw p)
    show ?thesis
    proof (cases "agent_event (mo_env ?mo) (mo_fs ?mo) (dc_self dc) raw (da_agent da)")
      case None
      then show ?thesis using Cons.prems Told_event daemon_event_None [OF None] by (simp add: daemon_caller_def)
    next
      case (Some y)
      obtain inc ag' where y: "y = (inc, ag')" by fastforce
      from daemon_event_agent [OF Some [unfolded y]] obtain da1 where da1: "daemon_event dc raw da = Some (False, da1)"
        "da_agent da1 = ag'" "da_count da1 = Suc (da_count da)" by blast
      have "retell (daemon_caller dc) xs da1 = Some da'" using Cons.prems Told_event da1(1) by (auto simp: daemon_caller_def split: if_splits)
      from Cons.IH [OF this] show ?thesis unfolding tk using da1 Some y Told_event
        by (auto simp: Let_def incidents_in_def split: option.splits)
    qed
  next
    case (Told_tick st)
    then have "retell (daemon_caller dc) xs (daemon_tick dc st da) = Some da'" using Cons.prems by (simp add: daemon_caller_def)
    from Cons.IH [OF this] daemon_tick_agent [of dc da st] show ?thesis unfolding tk using Told_tick
      by (auto simp: Let_def incidents_in_def)
  qed
qed (simp add: incidents_in_def)

text \<open>
  C7 (liveness): Everything an agent writes is taken in by the server. Over any run with JSON output, when its lines reach the server none of them is
  dropped as unreadable or filed as the wrong kind: as many incidents are stored as the agent reported, and as many heartbeats recorded as it made.
\<close>

theorem agent_to_server:
  assumes "run_loop (daemon_caller dc) cfg update ts (loop_start (daemon_start dc ag) watched m t0 r0) = Some (r, l)"
    and "dc_json dc" and "dc_accepts dc = (\<lambda>_. True)" and "json_library (dc_show dc) (lb_parse lib)"
  shows "\<exists>sv'. fold (ingest_line lib tm host kern ip) (co_lines (da_console (lo_app l))) (sv, 0, 0)
      = (sv', incidents_in (reports dc (lo_told l) 0 ag), length (ticks_of (lo_told l)))"
proof -
  have "faithful (daemon_caller dc) (daemon_start dc ag) (loop_start (daemon_start dc ag) watched m t0 r0)"
    by (simp add: faithful_def loop_start_def)
  from run_loop_faithful [OF assms(1) this] have re: "retell (daemon_caller dc) (lo_told l) (daemon_start dc ag) = Some (lo_app l)"
    by (auto simp: faithful_def)
  have lines: "co_lines (da_console (lo_app l)) = map (line_of dc) (reports dc (lo_told l) 0 ag)"
    using retell_writes [OF assms(2,3) re] assms(2) by (simp add: daemon_start_def Let_def)
  have "length (reports dc (lo_told l) 0 ag) - incidents_in (reports dc (lo_told l) 0 ag) = length (ticks_of (lo_told l))"
    using reports_count [OF re] by (simp add: daemon_start_def Let_def)
  moreover have "\<exists>sv'. fold (ingest_line lib tm host kern ip) (map (line_of dc) (reports dc (lo_told l) 0 ag)) (sv, 0, 0)
      = (sv', 0 + incidents_in (reports dc (lo_told l) 0 ag),
         0 + (length (reports dc (lo_told l) 0 ag) - incidents_in (reports dc (lo_told l) 0 ag)))"
    by (rule reports_ingested [OF assms(4)]) (rule reports_schema)
  ultimately show ?thesis by (simp add: lines)
qed

definition quiet_config :: "(json \<Rightarrow> string) \<Rightarrow> daemon_config" where
  "quiet_config show = \<lparr>dc_world = (\<lambda>_. \<lparr>mo_env = example_env, mo_fs = example_host [] 0, mo_scan = (\<lambda>_. Clean), mo_now = 9, mo_uptime = 9, mo_spawned = None\<rparr>),
     dc_accepts = (\<lambda>_. True), dc_show = show, dc_json = True, dc_scanning = True, dc_clock = boot_relative, dc_self = 4, dc_version = ''1''\<rparr>"

definition busy_turn :: turn where
  "busy_turn = idle_turn\<lparr>tu_data := [raw_bytes (example_raw 1 []), [1, 2]]\<rparr>"

lemma busy_turn_ok: "turn_ok (\<lambda>raw. fork_ok (event_from_raw raw)) busy_turn"
proof -
  have "from_bytes [1, 2] = None" by (simp add: from_bytes_def RAW_SIZE_def)
  then show ?thesis using example_fork_ok by (simp add: turn_ok_def busy_turn_def example_raw_decodes)
qed

abbreviation minute :: sensor_config where
  "minute \<equiv> \<lparr>sn_tick_every = 10 ^ 9, sn_active = 5, sn_total = 13\<rparr>"

lemma busy_run:
  "\<exists>r l. run_loop (daemon_caller (quiet_config show)) minute trie_update [busy_turn]
      (loop_start (daemon_start (quiet_config show) small_agent) {} hm_empty 0 0) = Some (r, l)"
proof -
  let ?l = "loop_start (daemon_start (quiet_config show) small_agent) {} (hm_empty :: (u8 list, u32) hm) 0 0"
  have "agent_ok (da_agent (lo_app ?l))"
    using agent_start_ok by (simp add: loop_start_def daemon_start_def small_agent_def Let_def)
  then show ?thesis using daemon_sound.loop_returns [of ?l "[busy_turn]" "quiet_config show" minute trie_update] busy_turn_ok by auto
qed

theorem daemon_writes_reports_witness:
  "\<exists>r l. run_loop (daemon_caller (quiet_config (\<lambda>_. ''x''))) minute trie_update [busy_turn]
      (loop_start (daemon_start (quiet_config (\<lambda>_. ''x'')) small_agent) {} hm_empty 0 0) = Some (r, l)
    \<and> co_lines (da_console (lo_app l)) = map (line_of (quiet_config (\<lambda>_. ''x''))) (reports (quiet_config (\<lambda>_. ''x'')) (lo_told l) 0 small_agent)"
proof -
  obtain r l where "run_loop (daemon_caller (quiet_config (\<lambda>_. ''x''))) minute trie_update [busy_turn]
      (loop_start (daemon_start (quiet_config (\<lambda>_. ''x'')) small_agent) {} hm_empty 0 0) = Some (r, l)" using busy_run by blast
  from daemon_writes_reports [OF this] this show ?thesis by (auto simp: quiet_config_def)
qed

text \<open>A library that can do it: the text of a tree is its number in an enumeration, written in ones.\<close>

instance json :: countable
  by countable_datatype

definition tally :: "json \<Rightarrow> string" where
  "tally v = replicate (Suc (to_nat v)) (CHR ''1'')"

definition untally :: "string \<Rightarrow> json option" where
  "untally s = Some (from_nat (length s - 1))"

lemma tally_library: "json_library tally untally"
proof -
  have "trim (tally v) = tally v" for v by (rule trim_plain) (simp_all add: tally_def plain_char_def)
  then show ?thesis by (simp add: json_library_def tally_def untally_def)
qed

theorem agent_to_server_witness:
  "\<exists>r l sv'. run_loop (daemon_caller (quiet_config tally)) minute trie_update [busy_turn]
      (loop_start (daemon_start (quiet_config tally) small_agent) {} hm_empty 0 0) = Some (r, l)
    \<and> fold (ingest_line (some_libs\<lparr>lb_parse := untally\<rparr>) some_times ''web'' [] []) (co_lines (da_console (lo_app l))) (quiet_server, 0, 0)
      = (sv', incidents_in (reports (quiet_config tally) (lo_told l) 0 small_agent), length (ticks_of (lo_told l)))"
proof -
  obtain r l where run: "run_loop (daemon_caller (quiet_config tally)) minute trie_update [busy_turn]
      (loop_start (daemon_start (quiet_config tally) small_agent) {} hm_empty 0 0) = Some (r, l)" using busy_run by blast
  have "json_library (dc_show (quiet_config tally)) (lb_parse (some_libs\<lparr>lb_parse := untally\<rparr>))"
    using tally_library by (simp add: quiet_config_def)
  from agent_to_server [OF run _ _ this, of some_times "''web''" "[]" "[]" quiet_server] run show ?thesis by (auto simp: quiet_config_def)
qed

end
