(* ===== verification/Maps.thy ===== *)
theory Maps
  imports Sensors
begin

text \<open>
  The kernel's tables before the first sensor is attached (the first half of \<^verbatim>\<open>run\<close> in \<^verbatim>\<open>src/sensors.rs\<close>): the trie of watched
  paths, the escape hatches and the watched files by identity. The tables belong to the kernel; what is documented of an update
  is a locale, of which the trie of theory Watchlist is an instance.
\<close>

locale kernel_table =
  fixes ok :: "'t \<Rightarrow> bool"
    and entries :: "'t \<Rightarrow> u8 list \<Rightarrow> u32 option"
    and update :: "u8 list \<Rightarrow> u32 \<Rightarrow> 't \<Rightarrow> 't option"
  assumes table_update_ok: "ok t \<Longrightarrow> update k v t = Some t' \<Longrightarrow> ok t'"
    and table_entries_update: "ok t \<Longrightarrow> update k v t = Some t' \<Longrightarrow> entries t' = (entries t)(k \<mapsto> v)"

sublocale lpm_trie \<subseteq> table: kernel_table ok entries update
  by unfold_locales (simp_all add: update_ok entries_update)

section \<open>Filling the tables\<close>

fun fill :: "(u8 list \<Rightarrow> u32 \<Rightarrow> 't \<Rightarrow> 't option) \<Rightarrow> (u8 list \<times> u32) list \<Rightarrow> 't \<Rightarrow> 't option" where
  "fill update [] t = Some t"
| "fill update ((k, v) # kvs) t = Option.bind (update k v t) (fill update kvs)"

record ('m, 't) kernel_maps =
  km_watched_paths :: 'm
  km_escape_targets :: 't
  km_watched_ids :: 't

definition sensors_setup :: "(u8 list \<Rightarrow> u32 \<Rightarrow> 'm \<Rightarrow> 'm option) \<Rightarrow> (u8 list \<Rightarrow> u32 \<Rightarrow> 't \<Rightarrow> 't option) \<Rightarrow> string list option \<Rightarrow> host_fs
    \<Rightarrow> (string \<Rightarrow> bool) \<Rightarrow> enforce \<Rightarrow> u32 \<Rightarrow> ('m, 't) kernel_maps \<Rightarrow> string + nat \<times> ('m, 't) kernel_maps" where
  "sensors_setup update tupdate homes fs is_file enforce host_mnt_ns km =
     (case populate_watches update (default_watches homes) 0 (km_watched_paths km) of
        (Inl e, _) \<Rightarrow> Inl e
      | (Inr loaded, m) \<Rightarrow>
          if refuse_enforcement enforce host_mnt_ns then Inl ''enforcement needs the host mount namespace''
          else
            (case fill tupdate (map (\<lambda>i. (to_map_key i, 1)) (escape_hatch_ids fs)) (km_escape_targets km) of
               None \<Rightarrow> Inl ''populating the escape-target map''
             | Some h \<Rightarrow>
                 (case fill tupdate (map (\<lambda>(i, flags). (to_map_key i, flags)) (watched_file_ids fs is_file homes)) (km_watched_ids km) of
                    None \<Rightarrow> Inl ''populating the watched-identity map''
                  | Some w \<Rightarrow> Inr (loaded, km\<lparr>km_watched_paths := m, km_escape_targets := h, km_watched_ids := w\<rparr>))))"

context kernel_table
begin

lemma fill_entries: "ok t \<Longrightarrow> fill update kvs t = Some t' \<Longrightarrow> ok t' \<and> entries t' = entries t ++ map_of (rev kvs)"
proof (induction kvs arbitrary: t)
  case (Cons kv kvs)
  obtain k v t1 where kv: "kv = (k, v)" and t1: "update k v t = Some t1" "fill update kvs t1 = Some t'"
    using Cons.prems(2) by (cases kv) (auto simp: bind_eq_Some_conv)
  have "entries t ++ map_of (rev (kv # kvs)) = entries t1 ++ map_of (rev kvs)"
    by (simp add: kv table_entries_update [OF Cons.prems(1) t1(1)] map_of_append fun_eq_iff map_add_def split: option.splits)
  then show ?case using Cons.IH [OF table_update_ok [OF Cons.prems(1) t1(1)] t1(2)] by simp
qed simp

lemma fill_dom: "ok t \<Longrightarrow> entries t = (\<lambda>_. None) \<Longrightarrow> fill update kvs t = Some t' \<Longrightarrow> dom (entries t') = fst ` set kvs"
  using fill_entries [of t kvs t'] by (simp add: dom_map_of_conv_image_fst)

end

section \<open>A reference table\<close>

definition TABLE_ENTRIES :: nat where "TABLE_ENTRIES = 256"

definition table_update :: "u8 list \<Rightarrow> u32 \<Rightarrow> (u8 list, u32) hm \<Rightarrow> (u8 list, u32) hm option" where
  "table_update k v t = (if hm_get t k = None \<and> TABLE_ENTRIES \<le> hm_len t then None else Some (hm_insert k v t))"

interpretation ref_table: kernel_table hm_ok hm_get table_update
  by unfold_locales (auto simp: table_update_def split: if_splits)

text \<open>
  C38 (functional): No sensor sees a half-filled table. When the set-up succeeds, which is before anything is attached, the kernel's table of escape
  hatches holds exactly the identities of the hatches this host has, the table of watched files exactly those of the watched files that
  exist under their own name, and enforcement, if asked for, has a host namespace; a write to a file that is one of the hatches is then
  recognised whatever it is called, and no other file is.
\<close>

theorem tables_complete:
  assumes table: "kernel_table ok entries tupdate" and "ok (km_escape_targets km)" "ok (km_watched_ids km)"
    and "entries (km_escape_targets km) = (\<lambda>_. None)" "entries (km_watched_ids km) = (\<lambda>_. None)"
    and "sensors_setup update tupdate homes fs is_file enforce ns km = Inr (n, km')"
  shows "(to_map_key fid \<in> dom (entries (km_escape_targets km')) \<longleftrightarrow> fid \<in> set (escape_hatch_ids fs))
    \<and> (to_map_key fid \<in> dom (entries (km_watched_ids km')) \<longleftrightarrow> fid \<in> fst ` set (watched_file_ids fs is_file homes))
    \<and> (enforce = Enforce_Off \<or> ns \<noteq> 0)"
proof -
  obtain h w where h: "fill tupdate (map (\<lambda>i. (to_map_key i, 1)) (escape_hatch_ids fs)) (km_escape_targets km) = Some h"
    and w: "fill tupdate (map (\<lambda>(i, flags). (to_map_key i, flags)) (watched_file_ids fs is_file homes)) (km_watched_ids km) = Some w"
    and km: "km_escape_targets km' = h" "km_watched_ids km' = w" and e: "\<not> refuse_enforcement enforce ns"
    using assms(6) by (auto simp: sensors_setup_def split: prod.splits sum.splits if_splits option.splits)
  have "dom (entries h) = to_map_key ` set (escape_hatch_ids fs)"
    using kernel_table.fill_dom [OF table assms(2,4) h] by (simp add: image_image)
  moreover have "dom (entries w) = to_map_key ` fst ` set (watched_file_ids fs is_file homes)"
    using kernel_table.fill_dom [OF table assms(3,5) w] by (simp add: image_image case_prod_beta)
  moreover have "inj to_map_key" by (simp add: inj_def to_map_key_eq_iff)
  ultimately show ?thesis using km e by (auto simp: inj_image_mem_iff refuse_enforcement_def)
qed

definition empty_maps :: "((u8 list, u32) hm, (u8 list, u32) hm) kernel_maps" where
  "empty_maps = \<lparr>km_watched_paths = hm_empty, km_escape_targets = hm_empty, km_watched_ids = hm_empty\<rparr>"

theorem tables_complete_witness:
  "\<exists>n km'. sensors_setup trie_update table_update None hatch_host (\<lambda>_. False) Enforce_On 5 empty_maps = Inr (n, km')
     \<and> to_map_key (file_id_new 23 77) \<in> dom (hm_get (km_escape_targets km'))"
proof -
  have ids: "escape_hatch_ids hatch_host = [file_id_new 23 77]"
    by (simp add: escape_hatch_ids_def ESCAPE_HATCHES_def hatch_host_def file_id_of_def kernel_dev_def
        List.map_filter_def file_id_new_def MINOR_BITS_def)
  have none: "watched_file_ids hatch_host (\<lambda>_. False) None = []" by (simp add: watched_file_ids_def List.map_filter_def)
  have "length (default_watches None) \<le> TRIE_ENTRIES"
    by (simp add: TRIE_ENTRIES_def default_watches_def static_watches_def home_watches_def)
  then obtain c m where pop: "populate_watches trie_update (default_watches None) 0 hm_empty = (Inr c, m)"
    using populate_room [of hm_empty "default_watches None" 0] by auto
  then obtain n km' where s: "sensors_setup trie_update table_update None hatch_host (\<lambda>_. False) Enforce_On 5 empty_maps = Inr (n, km')"
    by (simp add: sensors_setup_def empty_maps_def refuse_enforcement_def ids none table_update_def TABLE_ENTRIES_def)
  from tables_complete [OF ref_table.kernel_table_axioms _ _ _ _ s, of "file_id_new 23 77"] s show ?thesis
    by (auto simp: empty_maps_def ids fun_eq_iff)
qed

end
