(* ===== verification/Commands.thy ===== *)
theory Commands
  imports Daemon Maps
begin

text \<open>
  The commands around a stream of events, whole: \<^verbatim>\<open>run\<close> of \<^verbatim>\<open>src/sensors.rs\<close> from the tables to the end of the loop, and on top
  of it \<^verbatim>\<open>run\<close> and \<^verbatim>\<open>record\<close> of \<^verbatim>\<open>src/main.rs\<close>, which differ in their callbacks; and \<^verbatim>\<open>replay\<close> with what it prints. The recorder is the
  second instance of the loop's contract, beside the daemon.
\<close>

section \<open>The sensors, from start to end\<close>

text \<open>What the sensors find: the listing of \<^verbatim>\<open>/home\<close>, the files, the kernel's tables and their updates, which programs attach, and the clock.\<close>

record ('m, 't) sensor_host =
  sh_homes :: "string list option"
  sh_fs :: host_fs
  sh_is_file :: "string \<Rightarrow> bool"
  sh_update :: "u8 list \<Rightarrow> u32 \<Rightarrow> 'm \<Rightarrow> 'm option"
  sh_tupdate :: "u8 list \<Rightarrow> u32 \<Rightarrow> 't \<Rightarrow> 't option"
  sh_maps :: "('m, 't) kernel_maps"
  sh_attach :: "string \<Rightarrow> string option"
  sh_lsm :: "bool option"
  sh_tick0 :: nat
  sh_refresh0 :: nat

type_synonym ('s, 'm) ended = "((string + sensor_stats) option \<times> ('s, 'm) looping) option"

definition sensors_run :: "'s caller \<Rightarrow> ('m, 't) sensor_host \<Rightarrow> nat \<Rightarrow> enforce \<Rightarrow> u32 \<Rightarrow> turn list \<Rightarrow> 's
    \<Rightarrow> (string + ('s, 'm) ended) \<times> (u32 \<times> u32) option" where
  "sensors_run cl h tick_every enforce ns ts s =
     (case sensors_setup (sh_update h) (sh_tupdate h) (sh_homes h) (sh_fs h) (sh_is_file h) enforce ns (sh_maps h) of
        Inl e \<Rightarrow> (Inl e, None)
      | Inr (loaded, km) \<Rightarrow>
          (case sensors_start enforce ns (sh_attach h) (sh_lsm h) of
             (Inl e, cfg) \<Rightarrow> (Inl e, cfg)
           | (Inr ar, cfg) \<Rightarrow>
               (Inr (run_loop cl \<lparr>sn_tick_every = tick_every, sn_active = ar_active ar, sn_total = ar_total ar\<rparr> (sh_update h) ts
                  (loop_start s (set (map w_prefix (default_watches (sh_homes h)))) (km_watched_paths km) (sh_tick0 h) (sh_refresh0 h))), cfg)))"

lemma sensors_run_Inr:
  assumes "sensors_run cl h every enforce ns ts s = (Inr res, cfg)"
  shows "\<exists>ar km. sensors_start enforce ns (sh_attach h) (sh_lsm h) = (Inr ar, cfg)
    \<and> res = run_loop cl \<lparr>sn_tick_every = every, sn_active = ar_active ar, sn_total = ar_total ar\<rparr> (sh_update h) ts
       (loop_start s (set (map w_prefix (default_watches (sh_homes h)))) km (sh_tick0 h) (sh_refresh0 h))"
  using assms by (auto simp: sensors_run_def split: sum.splits prod.splits)

section \<open>Running\<close>

text \<open>The clock and the outputs are in \<open>dc\<close>; what is printed and whether there is a scanner follow from the options.\<close>

definition run_cmd :: "disk \<Rightarrow> procfs \<Rightarrow> int \<Rightarrow> u32 \<Rightarrow> u64 \<Rightarrow> (string \<Rightarrow> json option) \<Rightarrow> u64 \<Rightarrow> (string \<Rightarrow> string + rule)
    \<Rightarrow> (string \<Rightarrow> string + 'r scanner) \<Rightarrow> daemon_config \<Rightarrow> ('m, 't) sensor_host \<Rightarrow> turn list \<Rightarrow> run_args
    \<Rightarrow> (string + (daemon, 'm) ended) \<times> (u32 \<times> u32) option" where
  "run_cmd d pf hz euid rlim parse now_ms yaml scanner dc0 h ts a =
     (case run_prepare d (sh_fs h) euid rlim parse now_ms yaml scanner a of
        Inl e \<Rightarrow> (Inl e, None)
      | Inr re \<Rightarrow>
          let ag = agent_start (ra_max_processes a) (ra_retain_secs a) (re_floor re) (re_baseline re) (re_rules re) pf (sh_fs h) hz;
              dc = dc0\<lparr>dc_json := ra_json a, dc_scanning := (re_scanner re \<noteq> None)\<rparr>
          in sensors_run (daemon_caller dc) h (unat INTERVAL_SECS * NANOS) (re_enforce re) (host_mnt_ns pf) ts (daemon_start dc ag))"


section \<open>Recording\<close>

record recorder =
  rc_trusted :: trusted_binaries
  rc_sink :: console
  rc_count :: u64
  rc_calls :: nat

text \<open>\<open>rf_world\<close> is the host at each call; \<open>rf_show\<close> is the JSON library, which may refuse an event.\<close>

record record_config =
  rf_world :: "nat \<Rightarrow> host_fs"
  rf_accepts :: "string list \<Rightarrow> bool"
  rf_show :: "json \<Rightarrow> string option"
  rf_self :: u32

definition recorder_event :: "record_config \<Rightarrow> raw_event \<Rightarrow> recorder \<Rightarrow> (bool \<times> recorder) option" where
  "recorder_event rf raw rc0 =
     (let rc = rc0\<lparr>rc_calls := Suc (rc_calls rc0)\<rparr>
      in case record_event (rf_world rf (rc_calls rc0)) (rf_self rf) raw (rc_trusted rc) of
           (None, tb) \<Rightarrow> Some (False, rc\<lparr>rc_trusted := tb\<rparr>)
         | (Some ev, tb) \<Rightarrow>
             (case rf_show rf (event_to_json ev) of
                None \<Rightarrow> Some (False, rc\<lparr>rc_trusted := tb\<rparr>)
              | Some line \<Rightarrow>
                  Some (False, rc\<lparr>rc_trusted := tb, rc_sink := emit (rf_accepts rf) line (rc_sink rc),
                     rc_count := rc_count rc + (if rf_accepts rf (co_lines (rc_sink rc)) then 1 else 0)\<rparr>)))"

definition recorder_caller :: "record_config \<Rightarrow> recorder caller" where
  "recorder_caller rf = \<lparr>cl_event = recorder_event rf, cl_tick = (\<lambda>_ rc. rc), cl_stopped = (\<lambda>rc. co_stop (rc_sink rc))\<rparr>"

definition recorder_start :: "host_fs \<Rightarrow> recorder" where
  "recorder_start fs = \<lparr>rc_trusted = resolve_host fs, rc_sink = \<lparr>co_lines = [], co_stop = False\<rparr>, rc_count = 0, rc_calls = 0\<rparr>"

text \<open>\<open>create\<close> is the error, if any, of creating the file; a dash is the standard output.\<close>

definition record_cmd :: "disk \<Rightarrow> u32 \<Rightarrow> u64 \<Rightarrow> (string \<Rightarrow> string option) \<Rightarrow> record_config \<Rightarrow> ('m, 't) sensor_host \<Rightarrow> turn list \<Rightarrow> string
    \<Rightarrow> (string + (recorder, 'm) ended) \<times> (u32 \<times> u32) option" where
  "record_cmd d euid rlim create rf h ts out =
     (if fatal (doctor_run d (sh_fs h) euid rlim) then (Inl ''preflight checks failed'', None)
      else case (if out = ''-'' then None else create out) of
          Some e \<Rightarrow> (Inl e, None)
        | None \<Rightarrow> sensors_run (recorder_caller rf) h 0 Enforce_Off 0 ts (recorder_start (sh_fs h)))"

section \<open>Replaying\<close>

record replaying =
  rp_agent :: agent
  rp_console :: console
  rp_events :: u64
  rp_bad :: u64

text \<open>The stop flag that a failed write sets is not looked at here: the rest of the capture is still read.\<close>

definition replay_event :: "env \<Rightarrow> (string list \<Rightarrow> bool) \<Rightarrow> (json \<Rightarrow> string) \<Rightarrow> bool \<Rightarrow> event \<Rightarrow> replaying \<Rightarrow> replaying option" where
  "replay_event env accepts show as_json ev rp =
     (let ag = rp_agent rp; g = apply_event ev (ag_graph ag); (inc, e) = engine_on_event env ev g (ag_engine ag);
          out = (case inc of None \<Rightarrow> rp_console rp
                 | Some i \<Rightarrow> emit accepts (if as_json then incident_ndjson show (from_incident i g None) else render i g boot_relative) (rp_console rp))
      in map_option (\<lambda>ag'. rp\<lparr>rp_agent := ag', rp_events := rp_events rp + 1,
             rp_console := (if as_json then out else emit accepts (print_event boot_relative ev) out)\<rparr>)
           (maybe_reap (ev_ts_ns ev) (ag\<lparr>ag_graph := g, ag_engine := e\<rparr>)))"

text \<open>A line that cannot be read (\<open>None\<close>) ends the command; one that does not parse is counted.\<close>

fun replay_lines :: "env \<Rightarrow> (string list \<Rightarrow> bool) \<Rightarrow> (json \<Rightarrow> string) \<Rightarrow> (string \<Rightarrow> json option) \<Rightarrow> bool \<Rightarrow> string option list \<Rightarrow> replaying
    \<Rightarrow> (string + replaying) option" where
  "replay_lines env accepts show parse as_json [] rp = Some (Inr rp)"
| "replay_lines env accepts show parse as_json (None # ls) rp = Some (Inl ''stream did not contain valid UTF-8'')"
| "replay_lines env accepts show parse as_json (Some l # ls) rp =
     (if trim l = [] then replay_lines env accepts show parse as_json ls rp
      else case Option.bind (parse l) event_from_json of
          None \<Rightarrow> replay_lines env accepts show parse as_json ls (rp\<lparr>rp_bad := rp_bad rp + 1\<rparr>)
        | Some ev \<Rightarrow> Option.bind (replay_event env accepts show as_json ev rp) (replay_lines env accepts show parse as_json ls))"

definition replay_cmd :: "env \<Rightarrow> disk \<Rightarrow> (string list \<Rightarrow> bool) \<Rightarrow> (json \<Rightarrow> string) \<Rightarrow> (string \<Rightarrow> json option) \<Rightarrow> (string \<Rightarrow> string + rule)
    \<Rightarrow> (string \<Rightarrow> string option list option) \<Rightarrow> string \<Rightarrow> bool \<Rightarrow> string option \<Rightarrow> string option \<Rightarrow> (string + replaying) option" where
  "replay_cmd env d accepts show parse yaml open_input input as_json bl rules =
     (case open_input input of None \<Rightarrow> Some (Inl (''opening '' @ input))
      | Some ls \<Rightarrow>
          (case given (load_baseline d parse (env_now_ms env)) bl of Inl e \<Rightarrow> Some (Inl e)
           | Inr b \<Rightarrow>
               (case given (load_dir d yaml) rules of Inl e \<Rightarrow> Some (Inl e)
                | Inr rs \<Rightarrow>
                    let c = \<lparr>co_lines = [], co_stop = False\<rparr>
                    in replay_lines env accepts show parse as_json ls
                         \<lparr>rp_agent = replay_start b rs, rp_console = (if as_json then c else emit accepts event_header c), rp_events = 0, rp_bad = 0\<rparr>)))"

section \<open>What a recorder writes\<close>

interpretation recorder_sound: sound_caller "recorder_caller rf" "\<lambda>_. True" "\<lambda>rc. rc_count rc = of_nat (length (co_lines (rc_sink rc)))" for rf
  by unfold_locales
    (auto simp: recorder_caller_def recorder_event_def emit_def Let_def split: option.splits prod.splits)

text \<open>Each record with the host as it was then.\<close>

fun seen_at :: "(nat \<Rightarrow> 'h) \<Rightarrow> nat \<Rightarrow> 'r list \<Rightarrow> ('h \<times> 'r) list" where
  "seen_at world k [] = []"
| "seen_at world k (r # rs) = (world k, r) # seen_at world (Suc k) rs"

lemma retell_records:
  assumes "rf_accepts rf = (\<lambda>_. True)" and "rf_show rf = Some \<circ> show"
  shows "retell (recorder_caller rf) xs rc = Some rc' \<Longrightarrow>
    co_lines (rc_sink rc') = co_lines (rc_sink rc)
      @ map (\<lambda>ev. show (event_to_json ev)) (record_go (rf_self rf) (seen_at (rf_world rf) (rc_calls rc) (events_of xs)) (rc_trusted rc))"
proof (induction xs arbitrary: rc)
  case (Cons x xs)
  show ?case
  proof (cases x)
    case (Told_event raw p)
    obtain e tb where re: "record_event (rf_world rf (rc_calls rc)) (rf_self rf) raw (rc_trusted rc) = (e, tb)" by fastforce
    obtain rc1 where rc1: "recorder_event rf raw rc = Some (False, rc1)" "rc_calls rc1 = Suc (rc_calls rc)" "rc_trusted rc1 = tb"
      "co_lines (rc_sink rc1) = co_lines (rc_sink rc) @ (case e of None \<Rightarrow> [] | Some ev \<Rightarrow> [show (event_to_json ev)])"
      using re assms by (cases e) (auto simp: recorder_event_def emit_def)
    then have "retell (recorder_caller rf) xs rc1 = Some rc'" using Cons.prems Told_event by (auto simp: recorder_caller_def split: if_splits)
    from Cons.IH [OF this] show ?thesis using rc1 re Told_event told_append(1) [of "[x]" xs] by (simp split: option.splits)
  next
    case (Told_tick st)
    with Cons.prems have "retell (recorder_caller rf) xs rc = Some rc'" by (simp add: recorder_caller_def)
    from Cons.IH [OF this] show ?thesis using Told_tick told_append(1) [of "[x]" xs] by simp
  qed
qed simp

lemma any_turn_ok: "turn_ok (\<lambda>_. True) t"
  by (simp add: turn_ok_def list_all_iff split: option.splits)

text \<open>A recording arms nothing, takes every record that decodes, and counts what it wrote.\<close>

lemma record_cmd_writes:
  assumes "record_cmd d euid rlim create rf h ts out = (Inr (Some (r, l)), cfg)"
  shows "cfg = Some (ENFORCE_OFF, 0)"
    and "\<exists>n \<le> length ts. (r = None \<longrightarrow> n = length ts) \<and> events_of (lo_told l) = List.map_filter from_bytes (concat (map tu_data (take n ts)))"
    and "rc_count (lo_app l) = of_nat (length (co_lines (rc_sink (lo_app l))))"
    and "rf_accepts rf = (\<lambda>_. True) \<Longrightarrow> rf_show rf = Some \<circ> show \<Longrightarrow> co_lines (rc_sink (lo_app l))
       = map (\<lambda>ev. show (event_to_json ev)) (record_go (rf_self rf) (seen_at (rf_world rf) 0 (events_of (lo_told l))) (resolve_host (sh_fs h)))"
proof -
  have "sensors_run (recorder_caller rf) h 0 Enforce_Off 0 ts (recorder_start (sh_fs h)) = (Inr (Some (r, l)), cfg)"
    using assms(1) by (simp add: record_cmd_def split: if_splits option.splits)
  from sensors_run_Inr [OF this] obtain ar km where st: "sensors_start Enforce_Off 0 (sh_attach h) (sh_lsm h) = (Inr ar, cfg)"
    and run: "run_loop (recorder_caller rf) \<lparr>sn_tick_every = 0, sn_active = ar_active ar, sn_total = ar_total ar\<rparr> (sh_update h) ts
       (loop_start (recorder_start (sh_fs h)) (set (map w_prefix (default_watches (sh_homes h)))) km (sh_tick0 h) (sh_refresh0 h)) = Some (r, l)"
    (is "run_loop _ ?cfg _ _ ?l0 = _") by metis
  show "cfg = Some (ENFORCE_OFF, 0)" using sensors_start_Inr [OF st] by (simp add: enforce_mode_def ENFORCE_OFF_def)
  have "faithful (recorder_caller rf) (recorder_start (sh_fs h)) ?l0" by (simp add: faithful_def loop_start_def)
  note told = run_loop_faithful [OF run this]
  then show "\<exists>n \<le> length ts. (r = None \<longrightarrow> n = length ts) \<and> events_of (lo_told l) = List.map_filter from_bytes (concat (map tu_data (take n ts)))"
    by (auto simp: loop_start_def)
  have "rc_count (lo_app ?l0) = of_nat (length (co_lines (rc_sink (lo_app ?l0))))" by (simp add: loop_start_def recorder_start_def)
  from recorder_sound.loop_returns [OF this, of ts rf ?cfg "sh_update h"]
  show "rc_count (lo_app l) = of_nat (length (co_lines (rc_sink (lo_app l))))" using run by (auto simp: list_all_iff any_turn_ok)
  have "retell (recorder_caller rf) (lo_told l) (recorder_start (sh_fs h)) = Some (lo_app l)" using told by (simp add: faithful_def)
  then show "co_lines (rc_sink (lo_app l)) = map (\<lambda>ev. show (event_to_json ev))
      (record_go (rf_self rf) (seen_at (rf_world rf) 0 (events_of (lo_told l))) (resolve_host (sh_fs h)))"
    if "rf_accepts rf = (\<lambda>_. True)" "rf_show rf = Some \<circ> show"
    using retell_records [OF that] by (simp add: recorder_start_def)
qed

section \<open>What a replay prints\<close>

definition replay_line_of :: "(json \<Rightarrow> string) \<Rightarrow> incident \<Rightarrow> graph \<Rightarrow> string" where
  "replay_line_of show i g = incident_ndjson show (from_incident i g None)"

lemma replay_event_apply:
  assumes "agent_apply env ev (rp_agent rp) = Some (inc, ag')"
  shows "\<exists>rp' g. replay_event env accepts show as_json ev rp = Some rp' \<and> rp_agent rp' = ag' \<and> rp_events rp' = rp_events rp + 1 \<and> rp_bad rp' = rp_bad rp
    \<and> (as_json \<longrightarrow> rp_console rp' = (case inc of None \<Rightarrow> rp_console rp | Some i \<Rightarrow> emit accepts (replay_line_of show i g) (rp_console rp)))"
  using assms
  by (auto simp: replay_event_def agent_apply_def replay_line_of_def Let_def split: prod.splits option.splits)

text \<open>Replaying the lines is replaying the events they hold, and prints a line for each incident.\<close>

lemma replay_lines_go:
  "replay_go env (map (\<lambda>l. Option.bind (parse l) event_from_json) (filter (\<lambda>l. trim l \<noteq> []) ls)) (n, bad) (rp_agent rp) = Some (incs, (n', bad'), ag') \<Longrightarrow>
   rp_events rp = of_nat n \<Longrightarrow> rp_bad rp = of_nat bad \<Longrightarrow>
   \<exists>rp' gs. replay_lines env (\<lambda>_. True) show parse True (map Some ls) rp = Some (Inr rp') \<and> rp_agent rp' = ag'
     \<and> rp_events rp' = of_nat n' \<and> rp_bad rp' = of_nat bad' \<and> length gs = length incs
     \<and> co_lines (rp_console rp') = co_lines (rp_console rp) @ map2 (replay_line_of show) incs gs"
proof (induction ls arbitrary: rp n bad incs)
  case (Cons l ls)
  show ?case
  proof (cases "trim l = []")
    case True
    then show ?thesis using Cons.IH Cons.prems by simp
  next
    case False
    show ?thesis
    proof (cases "Option.bind (parse l) event_from_json")
      case None
      then show ?thesis using Cons.IH [of n "Suc bad" "rp\<lparr>rp_bad := rp_bad rp + 1\<rparr>" incs] Cons.prems False by simp
    next
      case (Some ev)
      obtain inc ag1 incs1 where ap: "agent_apply env ev (rp_agent rp) = Some (inc, ag1)"
        and go: "replay_go env (map (\<lambda>l. Option.bind (parse l) event_from_json) (filter (\<lambda>l. trim l \<noteq> []) ls)) (Suc n, bad) ag1 = Some (incs1, (n', bad'), ag')"
        and incs: "incs = (case inc of None \<Rightarrow> incs1 | Some i \<Rightarrow> i # incs1)"
        using Cons.prems(1) False Some by (auto split: option.splits)
      from replay_event_apply [OF ap, of "\<lambda>_. True" "show" True] obtain rp1 g where rp1: "replay_event env (\<lambda>_. True) show True ev rp = Some rp1"
        "rp_agent rp1 = ag1" "rp_events rp1 = of_nat (Suc n)" "rp_bad rp1 = of_nat bad"
        "co_lines (rp_console rp1) = co_lines (rp_console rp) @ (case inc of None \<Rightarrow> [] | Some i \<Rightarrow> [replay_line_of show i g])"
        using Cons.prems(2,3) by (cases inc) (auto simp: emit_def add.commute)
      from Cons.IH [of "Suc n" bad rp1 incs1] go rp1 obtain rp' gs where
        "replay_lines env (\<lambda>_. True) show parse True (map Some ls) rp1 = Some (Inr rp')" "rp_agent rp' = ag'" "rp_events rp' = of_nat n'"
        "rp_bad rp' = of_nat bad'" "length gs = length incs1" "co_lines (rp_console rp') = co_lines (rp_console rp1) @ map2 (replay_line_of show) incs1 gs"
        by auto
      then show ?thesis using rp1 False Some incs
        by (cases inc) (auto intro: exI [of _ gs] exI [of _ "g # gs"])
    qed
  qed
qed simp

section \<open>From the kernel to a replay\<close>

lemma live_returns:
  "agent_ok ag \<Longrightarrow> list_all (\<lambda>raw. fork_ok (event_from_raw raw)) raws \<Longrightarrow> \<exists>incs ag'. live_go env self_pid (seen_at world k raws) ag = Some (incs, ag')"
proof (induction raws arbitrary: ag k)
  case (Cons raw raws)
  from agent_event_spec [OF Cons.prems(1), of raw env "world k" self_pid] Cons.prems(2) obtain inc ag1 where
    ag1: "agent_event env (world k) self_pid raw ag = Some (inc, ag1)" "agent_ok ag1" by auto
  from Cons.IH [OF ag1(2), of "Suc k"] ag1(1) Cons.prems(2) show ?case by auto
qed simp

lemma polled_fork_ok:
  assumes "list_all (turn_ok good) ts"
  shows "list_all good (List.map_filter from_bytes (concat (map tu_data (take n ts))))"
proof -
  have "turn_ok good t" if "t \<in> set (take n ts)" for t using assms that by (auto simp: list_all_iff dest: in_set_takeD)
  then show ?thesis by (fastforce simp: turn_ok_def list_all_iff map_filter_def split: option.splits)
qed

lemma fresh_agent_ok:
  assumes "tb_ok tb"
  shows "agent_ok ((replay_start b rs)\<lparr>ag_trusted := tb\<rparr>)"
proof -
  have "all_nodes safe_text (graph_new m r)" for m r by (simp add: all_nodes_def graph_new_def graph_get_def)
  then show ?thesis using assms graph_new_wf engine_start_ok by (simp add: agent_ok_def replay_start_def)
qed

text \<open>
  C5 (equivalence): A recording replays to what the live agent saw. The recorder runs on the sensors over any turns and arms no denial; its file
  holds a line for every record that came in and decoded, its own apart, and it counts them. From a fresh graph and the same engine,
  the replay of that file succeeds on whatever machine, counts every line as an event and none as malformed, ends with the graph and the engine that the live agent
  has after the same records, and prints exactly one line for each incident the live agent reports, in their order. Of the JSON
  library it is used that the text of an event is one line that parses to the tree it was made from.
\<close>

theorem recording_replays:
  assumes "record_cmd d euid rlim create rf h ts out = (Inr (Some (r, l)), cfg)"
    and "rf_accepts rf = (\<lambda>_. True)" and "rf_show rf = Some \<circ> show"
    and json: "\<forall>ev. one_line (show (event_to_json ev)) \<and> parse (show (event_to_json ev)) = Some (event_to_json ev)"
    and forks: "list_all (turn_ok (\<lambda>raw. fork_ok (event_from_raw raw))) ts"
    and "given (load_baseline d' parse (env_now_ms env)) bl = Inr b" and "given (load_dir d' yaml) rules = Inr rs"
    and "open_input input = Some (map Some (lines (concat (map (\<lambda>x. x @ nl) (co_lines (rc_sink (lo_app l)))))))"
  shows "cfg = Some (ENFORCE_OFF, 0)
    \<and> (\<exists>n \<le> length ts. (r = None \<longrightarrow> n = length ts) \<and> events_of (lo_told l) = List.map_filter from_bytes (concat (map tu_data (take n ts))))
    \<and> rc_count (lo_app l) = of_nat (length (co_lines (rc_sink (lo_app l))))
    \<and> (\<exists>incs ag rp gs. live_go env (rf_self rf) (seen_at (rf_world rf) 0 (events_of (lo_told l)))
            ((replay_start b rs)\<lparr>ag_trusted := resolve_host (sh_fs h)\<rparr>) = Some (incs, ag)
        \<and> replay_cmd env d' (\<lambda>_. True) show parse yaml open_input input True bl rules = Some (Inr rp)
        \<and> rp_events rp = rc_count (lo_app l) \<and> rp_bad rp = 0
        \<and> ag_graph (rp_agent rp) = ag_graph ag \<and> ag_engine (rp_agent rp) = ag_engine ag
        \<and> length gs = length incs \<and> co_lines (rp_console rp) = map2 (replay_line_of show) incs gs)"
proof -
  let ?evs = "record_go (rf_self rf) (seen_at (rf_world rf) 0 (events_of (lo_told l))) (resolve_host (sh_fs h))"
    and ?rp = "\<lparr>rp_agent = replay_start b rs, rp_console = \<lparr>co_lines = [], co_stop = False\<rparr>, rp_events = 0, rp_bad = 0\<rparr>"
  note rec = record_cmd_writes [OF assms(1)]
  note written = rec(4) [OF assms(2,3)]
  have "list_all (\<lambda>raw. fork_ok (event_from_raw raw)) (events_of (lo_told l))" using rec(2) polled_fork_ok [OF forks] by metis
  from live_returns [OF fresh_agent_ok this] resolve_host_sound obtain incs ag where
    live: "live_go env (rf_self rf) (seen_at (rf_world rf) 0 (events_of (lo_told l))) ((replay_start b rs)\<lparr>ag_trusted := resolve_host (sh_fs h)\<rparr>) = Some (incs, ag)"
    by blast
  have "same_view ((replay_start b rs)\<lparr>ag_trusted := resolve_host (sh_fs h)\<rparr>) (replay_start b rs)" by (simp add: same_view_def)
  from replay_of_record [OF live this, of 0 0] obtain b' where
    go: "replay_go env (read_capture parse (capture_text show ?evs)) (0, 0) (replay_start b rs) = Some (incs, (length ?evs, 0), b')" and view: "same_view ag b'"
    using read_written [of ?evs "show" parse] json by auto
  have "capture_text show ?evs = concat (map (\<lambda>x. x @ nl) (co_lines (rc_sink (lo_app l))))"
    by (simp add: written capture_text_def comp_def)
  with go have "replay_go env (map (\<lambda>l. Option.bind (parse l) event_from_json) (filter (\<lambda>l. trim l \<noteq> [])
      (lines (concat (map (\<lambda>x. x @ nl) (co_lines (rc_sink (lo_app l))))))))  (0, 0) (rp_agent ?rp) = Some (incs, (length ?evs, 0), b')"
    by (simp add: read_capture_def)
  from replay_lines_go [OF this, of "show"] have "\<exists>rp gs. replay_cmd env d' (\<lambda>_. True) show parse yaml open_input input True bl rules = Some (Inr rp)
      \<and> rp_agent rp = b' \<and> rp_events rp = of_nat (length ?evs) \<and> rp_bad rp = 0 \<and> length gs = length incs \<and> co_lines (rp_console rp) = map2 (replay_line_of show) incs gs"
    using assms(6-8) by (simp add: replay_cmd_def)
  then show ?thesis using rec(1-3) live view by (auto simp: written same_view_def)
qed

definition plain_host :: "((u8 list, u32) hm, (u8 list, u32) hm) sensor_host" where
  "plain_host = \<lparr>sh_homes = None, sh_fs = example_host [] 0, sh_is_file = (\<lambda>_. False), sh_update = trie_update, sh_tupdate = table_update,
     sh_maps = empty_maps, sh_attach = (\<lambda>_. None), sh_lsm = Some True, sh_tick0 = 0, sh_refresh0 = 0\<rparr>"

definition tally_recorder :: record_config where
  "tally_recorder = \<lparr>rf_world = (\<lambda>_. example_host [] 0), rf_accepts = (\<lambda>_. True), rf_show = Some \<circ> tally, rf_self = 4\<rparr>"

lemma tally_one_line: "one_line (tally v)" "untally (tally v) = Some v"
proof -
  have "trim (tally v) = tally v" by (rule trim_plain) (simp_all add: tally_def plain_char_def)
  then show "one_line (tally v)" by (simp add: one_line_def tally_def ends_with_def starts_with_def replicate_append_same)
qed (simp add: tally_def untally_def)

lemma plain_setup: "\<exists>n km. sensors_setup trie_update table_update None (example_host [] 0) (\<lambda>_. False) Enforce_Off 0 empty_maps = Inr (n, km)"
proof -
  have ids: "escape_hatch_ids (example_host [] 0) = []"
    by (simp add: escape_hatch_ids_def ESCAPE_HATCHES_def example_host_def file_id_of_def List.map_filter_def)
  have none: "watched_file_ids (example_host [] 0) (\<lambda>_. False) None = []" by (simp add: watched_file_ids_def List.map_filter_def)
  have "length (default_watches None) \<le> TRIE_ENTRIES"
    by (simp add: TRIE_ENTRIES_def default_watches_def static_watches_def home_watches_def)
  then obtain c m where "populate_watches trie_update (default_watches None) 0 hm_empty = (Inr c, m)"
    using populate_room [of hm_empty "default_watches None" 0] by auto
  then show ?thesis by (simp add: sensors_setup_def empty_maps_def refuse_enforcement_def ids none)
qed

lemma plain_fine: "\<not> fatal (doctor_run bare_disk (example_host [] 0) 0 0)"
  by (simp add: doctor_fatal_iff uname_release_def read_to_string_def bare_disk_def parse_version_def split_version_def)

lemma plain_start: "\<exists>ar cfg. sensors_start Enforce_Off 0 (\<lambda>_. None) (Some True) = (Inr ar, cfg)"
  by (simp add: sensors_start_def refuse_enforcement_def drop_inert_def attach_all_def SENSOR_NAMES_def)


lemma plain_recording: "\<exists>r l cfg. record_cmd bare_disk 0 0 (\<lambda>_. None) tally_recorder plain_host [busy_turn] ''-'' = (Inr (Some (r, l)), cfg)"
proof -
  obtain n km where km: "sensors_setup trie_update table_update None (example_host [] 0) (\<lambda>_. False) Enforce_Off 0 empty_maps = Inr (n, km)"
    using plain_setup by blast
  obtain ar cfg where st: "sensors_start Enforce_Off 0 (\<lambda>_. None) (Some True) = (Inr ar, cfg)" using plain_start by blast
  have "\<exists>r l'. run_loop (recorder_caller tally_recorder) sc trie_update [busy_turn] (loop_start (recorder_start fs) w m 0 0) = Some (r, l')" for sc fs w m
    using recorder_sound.loop_returns [of "loop_start (recorder_start fs) w m 0 0" "[busy_turn]" tally_recorder sc trie_update]
    by (auto simp: any_turn_ok loop_start_def recorder_start_def)
  then show ?thesis using plain_fine km st by (simp add: record_cmd_def sensors_run_def plain_host_def)
qed

theorem recording_replays_witness:
  "\<exists>r l cfg rp. record_cmd bare_disk 0 0 (\<lambda>_. None) tally_recorder plain_host [busy_turn] ''-'' = (Inr (Some (r, l)), cfg)
     \<and> replay_cmd example_env bare_disk (\<lambda>_. True) tally untally (\<lambda>_. Inl ''no'')
         (\<lambda>_. Some (map Some (lines (concat (map (\<lambda>x. x @ nl) (co_lines (rc_sink (lo_app l)))))))) ''-'' True None None = Some (Inr rp)
     \<and> rp_events rp = rc_count (lo_app l)"
proof -
  obtain r l cfg where rec: "record_cmd bare_disk 0 0 (\<lambda>_. None) tally_recorder plain_host [busy_turn] ''-'' = (Inr (Some (r, l)), cfg)"
    using plain_recording by blast
  have none: "given (load_baseline bare_disk untally (env_now_ms example_env)) None = Inr None"
    "given (load_dir bare_disk (\<lambda>_. Inl ''no'')) None = Inr None" by (simp_all add: given_def)
  from recording_replays [OF rec, of tally untally, OF _ _ _ _ none, of "\<lambda>_. Some (map Some (lines (concat (map (\<lambda>x. x @ nl) (co_lines (rc_sink (lo_app l)))))))" "''-''"]
  show ?thesis using rec busy_turn_ok tally_one_line by (auto simp: tally_recorder_def)
qed

end
