(* ===== verification/Budget.thy ===== *)
theory Budget
  imports Agent
begin

text \<open>
  The alert budget (\<^verbatim>\<open>src/budget.rs\<close>): a recorded capture is replayed once for every severity floor, each time
  with an engine of its own, and the incidents are counted, attributed and extrapolated to a day. The text of
  the capture and the decoding of a line are arguments; a baseline or a rule directory is given or not, and
  when given loads or not.
\<close>

section \<open>Data\<close>

definition MIN_RELIABLE_SECS :: u64 where "MIN_RELIABLE_SECS = 3600"
definition NS_PER_SEC :: rat where "NS_PER_SEC = 1000000000"

record floor_row =
  fl_floor :: string
  fl_incidents :: nat
  fl_per_day :: "rat option"

record offender =
  of_name :: string
  of_count :: nat

record budget =
  bg_events :: nat
  bg_parse_errors :: nat
  bg_duration_secs :: rat
  bg_events_per_sec :: rat
  bg_reliable :: bool
  bg_floors :: "floor_row list"
  bg_by_signal :: "offender list"
  bg_by_subject :: "offender list"
  bg_without_baseline :: "floor_row list option"

definition FLOORS :: "severity list" where "FLOORS = [Info, Low, Medium, High, Critical]"

record pass =
  ps_incidents :: nat
  ps_by_signal :: "(string, nat) hm"
  ps_by_subject :: "(string, nat) hm"
  ps_events :: nat
  ps_parse_errors :: nat
  ps_first_ns :: u64
  ps_last_ns :: u64

section \<open>One replay\<close>

definition engine_for :: "severity \<Rightarrow> baseline option option \<Rightarrow> rule list option option \<Rightarrow> engine" where
  "engine_for floor_sev b rs =
     (let e = engine_new floor_sev;
          e = (case b of Some (Some b) \<Rightarrow> with_baseline b e | _ \<Rightarrow> e)
      in case rs of Some (Some r) \<Rightarrow> with_rules (rule_set_new r) e | _ \<Rightarrow> e)"

definition pass_new :: pass where
  "pass_new = \<lparr>ps_incidents = 0, ps_by_signal = hm_empty, ps_by_subject = hm_empty, ps_events = 0, ps_parse_errors = 0,
     ps_first_ns = 0, ps_last_ns = 0\<rparr>"

definition count_event :: "event \<Rightarrow> pass \<Rightarrow> pass" where
  "count_event ev p =
     (let p = p\<lparr>ps_events := Suc (ps_events p)\<rparr>
      in if ev_ts_ns ev \<noteq> 0
         then p\<lparr>ps_first_ns := (if ps_first_ns p = 0 then ev_ts_ns ev else min (ps_first_ns p) (ev_ts_ns ev)),
                ps_last_ns := max (ps_last_ns p) (ev_ts_ns ev)\<rparr>
         else p)"

definition bump :: "string \<Rightarrow> (string, nat) hm \<Rightarrow> (string, nat) hm" where
  "bump k m = hm_entry k 0 Suc m"

definition subject_name :: "graph \<Rightarrow> proc_key \<Rightarrow> string" where
  "subject_name g k =
     (case graph_get g k of None \<Rightarrow> ''<unknown>''
      | Some n \<Rightarrow> if pn_exe n = [] then pn_comm n else pn_exe n)"

definition count_incident :: "graph \<Rightarrow> incident \<Rightarrow> pass \<Rightarrow> pass" where
  "count_incident g inc p =
     p\<lparr>ps_incidents := Suc (ps_incidents p),
       ps_by_signal := fold (\<lambda>s. bump (s_id s)) (inc_signals inc) (ps_by_signal p),
       ps_by_subject := bump (subject_name g (inc_subject inc)) (ps_by_subject p)\<rparr>"

definition replay_line :: "env \<Rightarrow> (string \<Rightarrow> event option) \<Rightarrow> string \<Rightarrow> graph \<times> engine \<times> pass \<Rightarrow> graph \<times> engine \<times> pass" where
  "replay_line env parse line = (\<lambda>(g0, e0, p).
     if trim line = [] then (g0, e0, p)
     else (case parse line of
         None \<Rightarrow> (g0, e0, p\<lparr>ps_parse_errors := Suc (ps_parse_errors p)\<rparr>)
       | Some ev \<Rightarrow>
           let p = count_event ev p; g = apply_event ev g0; (inc, e) = engine_on_event env ev g e0
           in (g, e, case inc of None \<Rightarrow> p | Some i \<Rightarrow> count_incident g i p)))"

definition replay_at :: "env \<Rightarrow> (string \<Rightarrow> event option) \<Rightarrow> string \<Rightarrow> severity \<Rightarrow> baseline option option
    \<Rightarrow> rule list option option \<Rightarrow> pass" where
  "replay_at env parse text floor_sev b rs =
     snd (snd (fold (replay_line env parse) (lines text)
       (graph_new USIZE_MAX (FOREVER_SECS * NANOS), engine_for floor_sev b rs, pass_new)))"

section \<open>The measurement\<close>

text \<open>Count descending, then name; the names are distinct, so the order of the hash table does not show.\<close>

definition top :: "(string, nat) hm \<Rightarrow> nat \<Rightarrow> offender list" where
  "top m n = take n (sort_key (\<lambda>x. - int (of_count x)) (sort_key of_name (map (\<lambda>(k, c). \<lparr>of_name = k, of_count = c\<rparr>) m)))"

definition per_day :: "nat \<Rightarrow> rat \<Rightarrow> bool \<Rightarrow> rat option" where
  "per_day incidents duration_secs reliable =
     (if \<not> reliable \<or> duration_secs \<le> 0 then None
      else Some (f64_div (rnd (of_nat incidents)) (f64_div duration_secs 86400)))"

definition floor_row_of :: "rat \<Rightarrow> bool \<Rightarrow> severity \<times> pass \<Rightarrow> floor_row" where
  "floor_row_of duration_secs reliable = (\<lambda>(f, p).
     \<lparr>fl_floor = severity_label f, fl_incidents = ps_incidents p, fl_per_day = per_day (ps_incidents p) duration_secs reliable\<rparr>)"

text \<open>The result is \<open>None\<close> when the attributed floor is none of the five, where the code panics.\<close>

definition measure_budget :: "env \<Rightarrow> (string \<Rightarrow> event option) \<Rightarrow> string \<Rightarrow> baseline option option \<Rightarrow> rule list option option
    \<Rightarrow> severity \<Rightarrow> budget option" where
  "measure_budget env parse text b rs attribution_floor =
     (let passes = map (\<lambda>f. (f, replay_at env parse text f b rs)) FLOORS;
          any = snd (hd passes);
          duration_secs = f64_div (u64_f64 (saturating_sub (ps_last_ns any) (ps_first_ns any))) NS_PER_SEC;
          reliable = duration_secs \<ge> u64_f64 MIN_RELIABLE_SECS;
          row = floor_row_of duration_secs reliable
      in map_option (\<lambda>(_, attributed).
           \<lparr>bg_events = ps_events any, bg_parse_errors = ps_parse_errors any, bg_duration_secs = duration_secs,
            bg_events_per_sec = (if duration_secs > 0 then f64_div (rnd (of_nat (ps_events any))) duration_secs else 0),
            bg_reliable = reliable, bg_floors = map row passes,
            bg_by_signal = top (ps_by_signal attributed) 10, bg_by_subject = top (ps_by_subject attributed) 10,
            bg_without_baseline = map_option (\<lambda>_. map (\<lambda>f. row (f, replay_at env parse text f None rs)) FLOORS) b\<rparr>)
         (find (\<lambda>(f, _). f = attribution_floor) passes))"

section \<open>The report\<close>

definition fmt1 :: "rat \<Rightarrow> string" where
  "fmt1 x = (let n = nat (round_even (x * 10)) in show_nat (n div 10) @ ''.'' @ show_nat (n mod 10))"

definition human_secs :: "rat \<Rightarrow> string" where
  "human_secs s =
     (if s \<ge> 86400 then fmt1 (f64_div s 86400) @ ''d''
      else if s \<ge> 3600 then fmt1 (f64_div s 3600) @ ''h''
      else if s \<ge> 60 then fmt0 (f64_div s 60) @ ''m''
      else fmt0 s @ ''s'')"

definition pad_left :: "nat \<Rightarrow> string \<Rightarrow> string" where
  "pad_left w s = replicate (w - chars_count s) (CHR '' '') @ s"

definition render_row :: "nat option \<Rightarrow> floor_row \<Rightarrow> string" where
  "render_row base row =
     (let delta = (case base of Some b \<Rightarrow> if b \<noteq> fl_incidents row then ''   (was '' @ show_nat b @ '' without the baseline)'' else []
                   | None \<Rightarrow> [])
      in ''  '' @ pad_right 10 (fl_floor row) @ ''  '' @ pad_left 9 (show_nat (fl_incidents row))
         @ (case fl_per_day row of Some d \<Rightarrow> ''  '' @ pad_left 9 (fmt1 d) | None \<Rightarrow> []) @ delta @ nl)"

definition render_offender :: "offender \<Rightarrow> string" where
  "render_offender x = ''  '' @ pad_left 9 (show_nat (of_count x)) @ ''x  '' @ of_name x @ nl"

definition base_at :: "floor_row list option \<Rightarrow> nat \<Rightarrow> nat option" where
  "base_at w i = (case w of None \<Rightarrow> None | Some rows \<Rightarrow> if i < length rows then Some (fl_incidents (rows ! i)) else None)"

definition render_budget :: "budget \<Rightarrow> severity \<Rightarrow> string" where
  "render_budget b attribution_floor =
     nl @ ''alert budget'' @ nl @ nl
     @ ''  capture     '' @ show_nat (bg_events b) @ '' events over '' @ human_secs (bg_duration_secs b) @ '', ''
       @ fmt1 (bg_events_per_sec b) @ '' events/sec'' @ nl
     @ (if bg_parse_errors b > 0
        then ''              '' @ show_nat (bg_parse_errors b) @ '' lines could not be parsed'' @ nl else [])
     @ nl
     @ (if bg_reliable b then ''  floor       incidents    per day'' @ nl else ''  floor       incidents'' @ nl)
     @ concat (map (\<lambda>(i, row). render_row (base_at (bg_without_baseline b) i) row)
         (enumerate 0 (bg_floors b)))
     @ (if \<not> bg_reliable b
        then nl @ ''  The capture is shorter than '' @ human_secs (u64_f64 MIN_RELIABLE_SECS) @ '', so a daily rate from it would be'' @ nl
             @ ''  invented rather than measured. Record a host doing its ordinary work'' @ nl
             @ ''  for a few hours and re-run.'' @ nl
        else [])
     @ (if bg_by_signal b \<noteq> []
        then nl @ ''  what fired at '' @ to_ascii_lowercase (severity_label attribution_floor) @ nl @ concat (map render_offender (bg_by_signal b))
        else [])
     @ (if bg_by_subject b \<noteq> [] then nl @ ''  who set it off'' @ nl @ concat (map render_offender (bg_by_subject b)) else [])
     @ (if list_ex (\<lambda>r. fl_incidents r > 0) (bg_floors b)
        then nl @ ''  If nothing malicious happened while this was recorded, every incident'' @ nl
             @ ''  above is a false positive. The two lists say which detector to tighten or'' @ nl
             @ ''  which pair to teach a baseline.'' @ nl
        else [])"

section \<open>One pass tells every floor\<close>

text \<open>The events of a capture, and the incidents an engine raises over them with the graph of the moment.\<close>

definition capture :: "(string \<Rightarrow> event option) \<Rightarrow> string \<Rightarrow> event option list" where
  "capture parse text = map parse (filter (\<lambda>l. trim l \<noteq> []) (lines text))"

definition capture_events :: "event option list \<Rightarrow> event list" where
  "capture_events c = List.map_filter (\<lambda>x. x) c"

fun incident_log :: "env \<Rightarrow> event list \<Rightarrow> graph \<Rightarrow> engine \<Rightarrow> (graph \<times> incident) list" where
  "incident_log env [] g e = []"
| "incident_log env (ev # evs) g e =
     (let g' = apply_event ev g; (inc, e') = engine_on_event env ev g' e
      in (case inc of None \<Rightarrow> [] | Some i \<Rightarrow> [(g', i)]) @ incident_log env evs g' e')"

definition severity_of :: "graph \<times> incident \<Rightarrow> severity" where
  "severity_of x = sc_severity (inc_score (snd x))"

text \<open>An engine with a higher floor has reported the same, less what is below the floor.\<close>

definition raised :: "severity \<Rightarrow> engine \<Rightarrow> engine \<Rightarrow> bool" where
  "raised f e0 e1 \<longleftrightarrow> en_signals e1 = en_signals e0 \<and> en_baseline e1 = en_baseline e0 \<and> en_rules e1 = en_rules e0
     \<and> en_min_severity e0 = Info \<and> en_min_severity e1 = f
     \<and> (\<forall>k. hm_get (en_reported e1) k = (case hm_get (en_reported e0) k of None \<Rightarrow> None | Some p \<Rightarrow> if f \<le> p then Some p else None))"

lemma raised_stored: "raised f e0 e1 \<Longrightarrow> raised f (stored ev g e0) (stored ev g e1) \<and> new_signals_of ev g e1 = new_signals_of ev g e0"
  by (auto simp: raised_def stored_def new_signals_of_def Let_def split: option.splits)

lemma raised_evaluate:
  assumes "raised f e0 e1" and "evaluate env k g e0 = (i, e0')"
  shows "\<exists>e1'. evaluate env k g e1 = (case i of None \<Rightarrow> None | Some x \<Rightarrow> if f \<le> sc_severity (inc_score x) then Some x else None, e1')
    \<and> raised f e0' e1'"
proof -
  note r = assms(1)
  have q: "gather e1 l = gather e0 l" "adjust_for_baseline env e1 g ss = adjust_for_baseline env e0 g ss" for l ss
    using r by (auto simp: raised_def gather_def adjust_for_baseline_def)
  have info: "\<not> s < Info" for s :: severity by (cases s) (simp_all add: less_severity_def rank_def)
  let ?ss = "adjust_for_baseline env e0 g (gather e0 (lineage g k))"
  let ?sc = "score ?ss (context_of (lineage g k) g)"
  let ?inc = "\<lparr>inc_subject = k, inc_signals = sort_key s_ts_ns ?ss, inc_score = ?sc, inc_attack = remdups_adj (sort (concat (map s_attack ?ss)))\<rparr>"
  let ?said = "\<lambda>e. case hm_get (en_reported e) k of None \<Rightarrow> False | Some p \<Rightarrow> sc_severity ?sc \<le> p"
  have ev: "evaluate env k g e = (if gather e0 (lineage g k) = [] \<or> sc_severity ?sc < en_min_severity e \<or> ?said e then (None, e)
      else (Some ?inc, e\<lparr>en_reported := hm_insert k (sc_severity ?sc) (en_reported e)\<rparr>))" if "e \<in> {e0, e1}" for e
    using that by (auto simp: evaluate_def Let_def q split: option.splits)
  have m: "en_min_severity e0 = Info" "en_min_severity e1 = f" using r by (simp_all add: raised_def)
  have rep: "hm_get (en_reported e1) k = (case hm_get (en_reported e0) k of None \<Rightarrow> None | Some p \<Rightarrow> if f \<le> p then Some p else None)"
    using r by (simp add: raised_def)
  show ?thesis
  proof (cases "gather e0 (lineage g k) = [] \<or> ?said e0")
    case True
    then have "gather e0 (lineage g k) = [] \<or> sc_severity ?sc < f \<or> ?said e1"
      by (auto simp: rep not_less split: option.splits)
    then show ?thesis using ev [of e0] ev [of e1] True assms m by auto
  next
    case False
    then have ns: "\<not> ?said e1" by (auto simp: rep split: option.splits if_splits)
    have i0: "i = Some ?inc" "e0' = e0\<lparr>en_reported := hm_insert k (sc_severity ?sc) (en_reported e0)\<rparr>"
      using ev [of e0] False assms(2) m(1) info by auto
    have "evaluate env k g e1 = (if f \<le> sc_severity ?sc then (Some ?inc, e1\<lparr>en_reported := hm_insert k (sc_severity ?sc) (en_reported e1)\<rparr>)
        else (None, e1))"
      using ev [of e1] False ns m(2) by (simp add: not_le [symmetric])
    moreover have "raised f (e0\<lparr>en_reported := hm_insert k (sc_severity ?sc) (en_reported e0)\<rparr>)
        (if f \<le> sc_severity ?sc then e1\<lparr>en_reported := hm_insert k (sc_severity ?sc) (en_reported e1)\<rparr> else e1)"
      using r False by (auto simp: raised_def rep split: option.splits)
    ultimately show ?thesis unfolding i0 by (cases "f \<le> sc_severity ?sc") simp_all
  qed
qed

lemma raised_step:
  assumes "raised f e0 e1" and "engine_on_event env ev g e0 = (i, e0')"
  shows "\<exists>e1'. engine_on_event env ev g e1 = (case i of None \<Rightarrow> None | Some x \<Rightarrow> if f \<le> sc_severity (inc_score x) then Some x else None, e1')
    \<and> raised f e0' e1'"
  using raised_stored [OF assms(1), of ev g] assms(2)
    raised_evaluate [of f "stored ev g e0" "stored ev g e1" env "s_key (hd (new_signals_of ev g e0))" g i e0']
  by (cases "new_signals_of ev g e0 = []") (auto simp: engine_on_event_eq)

lemma log_raised:
  "raised f e0 e1 \<Longrightarrow> incident_log env evs g e1 = filter (\<lambda>x. f \<le> severity_of x) (incident_log env evs g e0)"
proof (induction evs arbitrary: g e0 e1)
  case (Cons ev evs)
  obtain i e0' where s: "engine_on_event env ev (apply_event ev g) e0 = (i, e0')" by fastforce
  from raised_step [OF Cons.prems this] obtain e1' where
    "engine_on_event env ev (apply_event ev g) e1 = (case i of None \<Rightarrow> None | Some x \<Rightarrow> if f \<le> sc_severity (inc_score x) then Some x else None, e1')"
    "raised f e0' e1'" by blast
  with s Cons.IH show ?case by (auto simp: Let_def severity_of_def split: option.splits)
qed simp

lemma engine_for_raised: "raised f (engine_for Info b rs) (engine_for f b rs)"
  by (auto simp: raised_def engine_for_def engine_new_def with_baseline_def with_rules_def Let_def split: option.splits)

text \<open>What a replay counts, over the events of the capture.\<close>

lemma count_event_simps [simp]:
  "ps_incidents (count_event ev p) = ps_incidents p" "ps_parse_errors (count_event ev p) = ps_parse_errors p"
  "ps_by_signal (count_event ev p) = ps_by_signal p" "ps_by_subject (count_event ev p) = ps_by_subject p"
  "ps_events (count_event ev p) = Suc (ps_events p)"
  by (simp_all add: count_event_def Let_def)

lemma replay_fold:
  assumes "fold (replay_line env parse) ls (g, e, p) = (g', e', q)"
  shows "ps_incidents q = ps_incidents p + length (incident_log env (capture_events (map parse (filter (\<lambda>l. trim l \<noteq> []) ls))) g e)
    \<and> ps_by_signal q = fold (\<lambda>(g, i). fold (\<lambda>s. bump (s_id s)) (inc_signals i)) (incident_log env (capture_events (map parse (filter (\<lambda>l. trim l \<noteq> []) ls))) g e) (ps_by_signal p)
    \<and> ps_by_subject q = fold (\<lambda>(g, i). bump (subject_name g (inc_subject i))) (incident_log env (capture_events (map parse (filter (\<lambda>l. trim l \<noteq> []) ls))) g e) (ps_by_subject p)
    \<and> ps_events q = ps_events p + length (capture_events (map parse (filter (\<lambda>l. trim l \<noteq> []) ls)))
    \<and> ps_parse_errors q + ps_events q = ps_parse_errors p + ps_events p + length (filter (\<lambda>l. trim l \<noteq> []) ls)"
  using assms
proof (induction ls arbitrary: g e p)
  case (Cons l ls)
  obtain g1 e1 p1 where s: "replay_line env parse l (g, e, p) = (g1, e1, p1)" by (metis prod_cases3)
  with Cons.prems have "fold (replay_line env parse) ls (g1, e1, p1) = (g', e', q)" by simp
  from Cons.IH [OF this] s show ?case
    by (auto simp: replay_line_def Let_def capture_events_def List.map_filter_simps count_incident_def
        split: if_splits option.splits prod.splits)
qed (simp add: capture_events_def List.map_filter_simps)

text \<open>The time a capture covers: from its first to its last timestamp, ignoring events without one.\<close>

definition capture_span :: "event list \<Rightarrow> u64" where
  "capture_span evs = (let ts = filter (\<lambda>t. t \<noteq> 0) (map ev_ts_ns evs) in if ts = [] then 0 else Max (set ts) - Min (set ts))"

lemma count_incident_times [simp]:
  "ps_first_ns (count_incident g i p) = ps_first_ns p" "ps_last_ns (count_incident g i p) = ps_last_ns p"
  by (simp_all add: count_incident_def)

lemma replay_times:
  "fold (replay_line env parse) ls (g, e, p) = (g', e', q) \<Longrightarrow> ps_first_ns p = ps_first_ns r \<Longrightarrow> ps_last_ns p = ps_last_ns r \<Longrightarrow>
     ps_first_ns q = ps_first_ns (fold count_event (capture_events (map parse (filter (\<lambda>l. trim l \<noteq> []) ls))) r)
     \<and> ps_last_ns q = ps_last_ns (fold count_event (capture_events (map parse (filter (\<lambda>l. trim l \<noteq> []) ls))) r)"
proof (induction ls arbitrary: g e p r)
  case (Cons l ls)
  obtain g1 e1 p1 where s: "replay_line env parse l (g, e, p) = (g1, e1, p1)" by (metis prod_cases3)
  with Cons.prems have f: "fold (replay_line env parse) ls (g1, e1, p1) = (g', e', q)" by simp
  let ?r = "if trim l = [] then r else case parse l of None \<Rightarrow> r | Some ev \<Rightarrow> count_event ev r"
  have "ps_first_ns p1 = ps_first_ns ?r \<and> ps_last_ns p1 = ps_last_ns ?r"
    using s Cons.prems(2,3) by (auto simp: replay_line_def Let_def count_event_def split: if_splits option.splits prod.splits)
  with Cons.IH [OF f, of ?r] show ?case by (auto simp: capture_events_def List.map_filter_simps split: option.splits)
qed (simp add: capture_events_def List.map_filter_simps)

lemma count_event_times:
  "ps_first_ns (count_event ev p) = (if ev_ts_ns ev = 0 then ps_first_ns p
     else if ps_first_ns p = 0 then ev_ts_ns ev else min (ps_first_ns p) (ev_ts_ns ev))"
  "ps_last_ns (count_event ev p) = (if ev_ts_ns ev = 0 then ps_last_ns p else max (ps_last_ns p) (ev_ts_ns ev))"
  by (simp_all add: count_event_def Let_def)

lemma count_times:
  "ps_first_ns (fold count_event evs p) = (let ts = filter (\<lambda>t. t \<noteq> 0) (map ev_ts_ns evs) in if ts = [] then ps_first_ns p
      else if ps_first_ns p = 0 then Min (set ts) else min (ps_first_ns p) (Min (set ts)))
   \<and> ps_last_ns (fold count_event evs p) = (let ts = filter (\<lambda>t. t \<noteq> 0) (map ev_ts_ns evs) in
      if ts = [] then ps_last_ns p else max (ps_last_ns p) (Max (set ts)))"
proof (induction evs arbitrary: p)
  case (Cons ev evs)
  let ?ts = "filter (\<lambda>t. t \<noteq> 0) (map ev_ts_ns evs)"
  have m: "Min (set (t # xs)) = (if xs = [] then t else min t (Min (set xs)))"
    "Max (set (t # xs)) = (if xs = [] then t else max t (Max (set xs)))" for t :: u64 and xs
    by (auto simp: Min_insert Max_insert)
  show ?case
  proof (cases "ev_ts_ns ev = 0")
    case True
    then show ?thesis using Cons.IH [of "count_event ev p"] by (simp add: count_event_times Let_def)
  next
    case False
    then have "min (ps_first_ns p) (ev_ts_ns ev) = 0 \<longleftrightarrow> ps_first_ns p = 0" by (auto simp: min_def)
    then show ?thesis using Cons.IH [of "count_event ev p"] False unfolding Let_def
      by (simp only: list.map filter.simps fold_simps m if_True if_False not_False_eq_True list.distinct)
        (simp add: count_event_times min.assoc max.assoc)
  qed
qed simp

lemma rnd_pos_scale: "0 < x \<Longrightarrow> rnd_pos (x / 2 ^ k) = rnd_pos x / 2 ^ k"
proof (induction k)
  case (Suc k)
  then show ?case using rnd_pos_double [of "x / 2 ^ Suc k"] by simp
qed simp

lemma hour_exact: "u64_f64 MIN_RELIABLE_SECS \<le> f64_div (u64_f64 x) NS_PER_SEC \<longleftrightarrow> 3600 * 10 ^ 9 \<le> unat x"
proof -
  have "rnd (3599999999999 / 1000000000) \<le> rnd (of_int (3600 * 2 ^ 30 - 1) / 2 ^ 30)" by (rule rnd_mono) simp
  also have "\<dots> < 3600" using rnd_pos_scale [of "of_int (3600 * 2 ^ 30 - 1)" 30] rnd_pos_int [of "3600 * 2 ^ 30 - 1"]
    by (simp add: rnd_def)
  finally have below: "rnd (3599999999999 / 1000000000) < 3600" .
  have n: "(of_int (uint x) :: rat) = of_nat (unat x)" by simp
  have h: "u64_f64 MIN_RELIABLE_SECS = 3600" using rnd_int_small [of 3600] by (simp add: u64_f64_def MIN_RELIABLE_SECS_def)
  show ?thesis
  proof (cases "3600 * 10 ^ 9 \<le> unat x")
    case True
    then have "rnd (of_int 3600000000000) \<le> rnd (of_int (uint x))"
      unfolding n using of_nat_mono [of "3600 * 10 ^ 9" "unat x", where 'a = rat] by (intro rnd_mono) (simp del: of_nat_unat)
    then have "rnd (of_int 3600) \<le> rnd (rnd (of_int (uint x)) / 1000000000)"
      using rnd_int_small [of 3600000000000] by (intro rnd_mono) simp
    then show ?thesis using True h rnd_int_small [of 3600] by (simp add: f64_div_def u64_f64_def NS_PER_SEC_def)
  next
    case False
    then have "rnd (of_int (uint x)) \<le> rnd (of_int 3599999999999)"
      unfolding n using of_nat_mono [of "unat x" 3599999999999, where 'a = rat] by (intro rnd_mono) (simp del: of_nat_unat)
    then have "rnd (rnd (of_int (uint x)) / 1000000000) \<le> rnd (3599999999999 / 1000000000)"
      using rnd_int_small [of 3599999999999] by (intro rnd_mono) simp
    then show ?thesis using False h below by (simp add: f64_div_def u64_f64_def NS_PER_SEC_def)
  qed
qed

lemma pass_new_times: "ps_first_ns pass_new = 0" "ps_last_ns pass_new = 0"
  by (simp_all add: pass_new_def)

lemma replay_at_facts:
  fixes env parse src f b rs
  defines "incs \<equiv> incident_log env (capture_events (capture parse src)) (graph_new USIZE_MAX (FOREVER_SECS * NANOS)) (engine_for f b rs)"
    and "p \<equiv> replay_at env parse src f b rs"
  shows "ps_incidents p = length incs"
    and "ps_by_signal p = fold (\<lambda>(g, i). fold (\<lambda>s. bump (s_id s)) (inc_signals i)) incs hm_empty"
    and "ps_by_subject p = fold (\<lambda>(g, i). bump (subject_name g (inc_subject i))) incs hm_empty"
    and "ps_events p = length (capture_events (capture parse src))"
    and "ps_parse_errors p + ps_events p = length (capture parse src)"
    and "saturating_sub (ps_last_ns p) (ps_first_ns p) = capture_span (capture_events (capture parse src))"
proof -
  obtain g' e' q where r: "fold (replay_line env parse) (lines src) (graph_new USIZE_MAX (FOREVER_SECS * NANOS), engine_for f b rs, pass_new) = (g', e', q)"
    by (metis prod_cases3)
  then have p: "p = q" by (simp add: p_def replay_at_def)
  note f = replay_fold [OF r, folded capture_def] and t = replay_times [OF r refl refl, folded capture_def]
  show "ps_incidents p = length incs"
    "ps_by_signal p = fold (\<lambda>(g, i). fold (\<lambda>s. bump (s_id s)) (inc_signals i)) incs hm_empty"
    "ps_by_subject p = fold (\<lambda>(g, i). bump (subject_name g (inc_subject i))) incs hm_empty"
    "ps_events p = length (capture_events (capture parse src))"
    "ps_parse_errors p + ps_events p = length (capture parse src)"
    using f by (simp_all add: p incs_def pass_new_def capture_def)
  have "Min (set ts) \<le> Max (set ts)" if "ts \<noteq> []" for ts :: "u64 list" using that by (cases ts) (auto intro: order_trans [OF Min_le Max_ge])
  note minmax = this
  define ts where "ts = filter (\<lambda>t. t \<noteq> 0) (map ev_ts_ns (capture_events (capture parse src)))"
  have q: "ps_first_ns q = (if ts = [] then 0 else Min (set ts))" "ps_last_ns q = (if ts = [] then 0 else Max (set ts))"
    using t count_times [of "capture_events (capture parse src)" pass_new]
    unfolding Let_def ts_def [symmetric] by (simp_all add: pass_new_times)
  show "saturating_sub (ps_last_ns p) (ps_first_ns p) = capture_span (capture_events (capture parse src))"
    unfolding capture_span_def Let_def ts_def [symmetric] p q using minmax [of ts]
    by (simp add: saturating_sub_def leD del: Max_less_iff Min_gr_iff)
qed

lemma replicate_five: "replicate 5 c = [c, c, c, c, c]" for c :: bool
  by (simp add: numeral_eq_Suc)

text \<open>
  C18 (equivalence): One pass tells every floor. The measurement of a capture always succeeds: every line that is not blank is
  counted as an event or as unreadable, the count at a floor is the number of incidents of that severity or above that a single
  replay at the lowest floor raises, and daily rates are given exactly if the capture spans an hour or more.
\<close>

theorem budget_exact:
  "\<exists>bud. measure_budget env parse text b rs fl = Some bud
    \<and> bg_events bud + bg_parse_errors bud = length (filter (\<lambda>l. trim l \<noteq> []) (lines text))
    \<and> map fl_incidents (bg_floors bud) = map (\<lambda>f. length (filter (\<lambda>x. f \<le> severity_of x)
        (incident_log env (capture_events (capture parse text)) (graph_new USIZE_MAX (FOREVER_SECS * NANOS)) (engine_for Info b rs)))) FLOORS
    \<and> map (\<lambda>r. fl_per_day r \<noteq> None) (bg_floors bud)
        = replicate 5 (3600 * 10 ^ 9 \<le> unat (capture_span (capture_events (capture parse text))))"
proof -
  let ?p = "\<lambda>f. replay_at env parse text f b rs" and ?span = "capture_span (capture_events (capture parse text))"
  let ?d = "f64_div (u64_f64 ?span) NS_PER_SEC"
  let ?rel = "u64_f64 MIN_RELIABLE_SECS \<le> ?d"
  have "\<exists>x. find (\<lambda>(f, _). f = fl) (map (\<lambda>f. (f, ?p f)) FLOORS) = Some (fl, x)" by (cases fl) (simp_all add: FLOORS_def)
  then obtain bud where m: "measure_budget env parse text b rs fl = Some bud"
    and e: "bg_events bud = ps_events (?p Info)" "bg_parse_errors bud = ps_parse_errors (?p Info)"
    and fl: "bg_floors bud = map (\<lambda>f. floor_row_of ?d ?rel (f, ?p f)) FLOORS"
    by (auto simp: measure_budget_def Let_def replay_at_facts(6) FLOORS_def)
  have "bg_events bud + bg_parse_errors bud = length (filter (\<lambda>l. trim l \<noteq> []) (lines text))"
    using e replay_at_facts(5) [of env parse "text" Info b rs] by (simp add: capture_def)
  moreover have "map fl_incidents (bg_floors bud) = map (\<lambda>f. length (filter (\<lambda>x. f \<le> severity_of x)
      (incident_log env (capture_events (capture parse text)) (graph_new USIZE_MAX (FOREVER_SECS * NANOS)) (engine_for Info b rs)))) FLOORS"
    by (simp add: fl floor_row_of_def replay_at_facts(1) log_raised [OF engine_for_raised, symmetric])
  moreover have "0 < ?d" if ?rel
    using that rnd_int_small [of 3600] by (simp add: u64_f64_def MIN_RELIABLE_SECS_def)
  then have "fl_per_day (floor_row_of ?d ?rel x) \<noteq> None \<longleftrightarrow> 3600 * 10 ^ 9 \<le> unat ?span" for x
    using hour_exact [of ?span] by (auto simp: floor_row_of_def per_day_def not_le split: prod.splits)
  then have "map (\<lambda>r. fl_per_day r \<noteq> None) (bg_floors bud) = replicate 5 (3600 * 10 ^ 9 \<le> unat ?span)"
    using replicate_five [of "3600 * 10 ^ 9 \<le> unat ?span"] by (simp only: fl FLOORS_def list.map)
  ultimately show ?thesis using m by blast
qed

end
