(* ===== verification/Tree.thy ===== *)
theory Tree
  imports Agent
begin

text \<open>
  The process tree (\<^verbatim>\<open>tree\<close> and \<^verbatim>\<open>print_subtree\<close> of \<^verbatim>\<open>src/main.rs\<close>). Printing recurses over the
  children without remembering where it has been; the model counts the depth it may still go and gives
  \<open>None\<close> when that runs out. Started from the roots it always ends; started from a process on a cycle it does not.
\<close>

definition BRANCH_LAST :: string where
  \<comment> \<open>U+2514 U+2500 and a space\<close>
  "BRANCH_LAST = map char_of [0xE2, 0x94, 0x94, 0xE2, 0x94, 0x80, 0x20 :: nat]"

definition BRANCH_MORE :: string where
  \<comment> \<open>U+251C U+2500 and a space\<close>
  "BRANCH_MORE = map char_of [0xE2, 0x94, 0x9C, 0xE2, 0x94, 0x80, 0x20 :: nat]"

definition TRUNK :: string where
  \<comment> \<open>U+2502 and two spaces\<close>
  "TRUNK = map char_of [0xE2, 0x94, 0x82, 0x20, 0x20 :: nat]"

definition ARROW :: string where
  \<comment> \<open>U+2192\<close>
  "ARROW = map char_of [0xE2, 0x86, 0x92 :: nat]"

definition tree_line :: "proc_node \<Rightarrow> string \<Rightarrow> bool \<Rightarrow> string" where
  "tree_line node pre is_last =
     (let connector = (if pre = [] then [] else if is_last then BRANCH_LAST else BRANCH_MORE);
          cred = (if pn_uid node \<noteq> pn_euid node then '' [uid='' @ show_word (pn_uid node) @ ARROW @ show_word (pn_euid node) @ '']''
                  else if pn_uid node \<noteq> 0 then '' [uid='' @ show_word (pn_uid node) @ '']'' else [])
      in pre @ connector @ pn_comm node @ '' ('' @ show_word (pk_pid (pn_key node)) @ '')'' @ cred)"

definition child_prefix :: "string \<Rightarrow> bool \<Rightarrow> string" where
  "child_prefix pre is_last = (if pre = [] then ''  '' else if is_last then pre @ ''   '' else pre @ TRUNK)"

fun print_subtree :: "nat \<Rightarrow> graph \<Rightarrow> proc_key \<Rightarrow> string \<Rightarrow> bool \<Rightarrow> string list option" where
  "print_subtree 0 g key pre is_last = None"
| "print_subtree (Suc depth) g key pre is_last =
     (case graph_get g key of None \<Rightarrow> Some []
      | Some node \<Rightarrow>
          let children = children_of g key
          in map_option (\<lambda>subs. tree_line node pre is_last # concat subs)
               (those (map (\<lambda>(i, child). print_subtree depth g child (child_prefix pre is_last) (i + 1 = length children))
                  (enumerate 0 children))))"

definition tree_roots :: "u32 option \<Rightarrow> graph \<Rightarrow> proc_key list" where
  "tree_roots root_pid g =
     (case root_pid of Some pid \<Rightarrow> map pn_key (filter (\<lambda>n. pk_pid (pn_key n) = pid) (hm_values (g_nodes g)))
      | None \<Rightarrow> roots g)"

definition tree_graph :: "procfs \<Rightarrow> host_fs \<Rightarrow> int \<Rightarrow> graph" where
  "tree_graph pf fs hz = snd (bootstrap pf fs hz tb_none (graph_new USIZE_MAX 0))"

definition tree :: "nat \<Rightarrow> procfs \<Rightarrow> host_fs \<Rightarrow> int \<Rightarrow> u32 option \<Rightarrow> string list option" where
  "tree depth pf fs hz root_pid =
     (let g = tree_graph pf fs hz
      in map_option concat (those (map (\<lambda>r. print_subtree depth g r [] True) (tree_roots root_pid g))))"

section \<open>From the roots, printing ends\<close>

text \<open>Every child names as its parent the process that lists it.\<close>

definition back_linked :: "graph \<Rightarrow> bool" where
  "back_linked g \<longleftrightarrow> (\<forall>p n c. graph_get g p = Some n \<longrightarrow> c \<in> set (pn_children n) \<longrightarrow>
     c \<noteq> p \<and> (\<exists>m. graph_get g c = Some m \<and> pn_parent m = Some p))"

text \<open>The way down from a root, nearest first: each names the next as its parent, the last has none in the graph.\<close>

fun way_up :: "graph \<Rightarrow> proc_key list \<Rightarrow> bool" where
  "way_up g [] = False"
| "way_up g [r] = (\<exists>n. graph_get g r = Some n \<and> (case pn_parent n of None \<Rightarrow> True | Some p \<Rightarrow> graph_get g p = None))"
| "way_up g (k # p # ps) = ((\<exists>n. graph_get g k = Some n \<and> pn_parent n = Some p) \<and> way_up g (p # ps))"

lemma way_up_known: "way_up g ks \<Longrightarrow> j \<in> set ks \<Longrightarrow> graph_get g j \<noteq> None"
  by (induction g ks rule: way_up.induct) auto

text \<open>The parent of a process on the way is on the way too, or not in the graph.\<close>

lemma way_up_parent:
  "way_up g ks \<Longrightarrow> j \<in> set ks \<Longrightarrow> graph_get g j = Some n \<Longrightarrow> pn_parent n = Some p \<Longrightarrow> graph_get g p \<noteq> None \<Longrightarrow> p \<in> set (tl ks)"
  by (induction g ks rule: way_up.induct) auto

lemma way_up_fresh:
  assumes "way_up g (k # ks)" and "distinct (k # ks)" and "graph_get g c = Some m" and "pn_parent m = Some k" and "c \<noteq> k"
  shows "c \<notin> set (k # ks)"
proof
  assume "c \<in> set (k # ks)"
  then have "k \<in> set ks" using way_up_parent [OF assms(1) _ assms(3,4)] way_up_known [OF assms(1), of k] by auto
  then show False using assms(2) by simp
qed

lemma those_Some: "\<forall>x \<in> set xs. x \<noteq> None \<Longrightarrow> \<exists>ys. those xs = Some ys"
  by (induction xs) auto

lemma print_subtree_ends:
  assumes "back_linked g" and "hm_ok (g_nodes g)"
  shows "way_up g (k # ks) \<Longrightarrow> distinct (k # ks) \<Longrightarrow> hm_len (g_nodes g) < length ks + depth \<Longrightarrow>
    \<exists>out. print_subtree depth g k pre is_last = Some out"
proof (induction depth arbitrary: k ks pre is_last)
  case 0
  have "finite {k. hm_get (g_nodes g) k \<noteq> None}" unfolding hm_keys by simp
  then have "card (set (k # ks)) \<le> hm_len (g_nodes g)"
    unfolding hm_len_card [OF assms(2)] by (rule card_mono) (use way_up_known [OF 0(1)] in \<open>auto simp: graph_get_def\<close>)
  then show ?case using 0 distinct_card [OF 0(2)] by simp
next
  case (Suc depth)
  obtain node where n: "graph_get g k = Some node" using way_up_known [OF Suc.prems(1), of k] by auto
  have sub: "\<exists>out. print_subtree depth g c pre' l = Some out" if "c \<in> set (children_of g k)" for c pre' l
  proof -
    have "c \<in> set (pn_children node)" using that n by (simp add: children_of_def)
    then obtain m where c: "c \<noteq> k" "graph_get g c = Some m" "pn_parent m = Some k"
      using assms(1) n unfolding back_linked_def by blast
    have "way_up g (c # k # ks)" using c Suc.prems(1) by simp
    moreover have "distinct (c # k # ks)" using way_up_fresh [OF Suc.prems(1,2) c(2,3,1)] Suc.prems(2) by simp
    ultimately show ?thesis using Suc.IH [of c "k # ks"] Suc.prems(3) by simp
  qed
  let ?subs = "map (\<lambda>(i, child). print_subtree depth g child (child_prefix pre is_last) (i + 1 = length (children_of g k))) (enumerate 0 (children_of g k))"
  have "\<forall>x \<in> set ?subs. x \<noteq> None" using sub by (fastforce dest: in_set_enumerate_eq [THEN iffD1] simp: in_set_conv_nth)
  from those_Some [OF this] show ?case using n by (auto simp: Let_def)
qed

section \<open>A scan links both ways\<close>

definition linked_by :: "(proc_key \<Rightarrow> u32) \<Rightarrow> graph \<Rightarrow> bool" where
  \<comment> \<open>a process is listed only by the one its parent id stands for\<close>
  "linked_by F g \<longleftrightarrow> (\<forall>p n c. graph_get g p = Some n \<longrightarrow> c \<in> set (pn_children n) \<longrightarrow>
     c \<noteq> p \<and> hm_get (g_by_pid g) (F c) = Some p \<and> (\<exists>m. graph_get g c = Some m \<and> pn_parent m = Some p))"

lemma link_edge_linked:
  assumes "linked_by F g" and "graph_get g c \<noteq> None"
  shows "linked_by F (link_edge (c, F c) g)"
proof (cases "\<exists>p. hm_get (g_by_pid g) (F c) = Some p \<and> p \<noteq> c")
  case True
  then obtain p where p: "hm_get (g_by_pid g) (F c) = Some p" "p \<noteq> c" by blast
  let ?g = "link_edge (c, F c) g"
  have by_pid: "g_by_pid ?g = g_by_pid g" using p by (simp add: link_edge_def)
  have get: "graph_get ?g q = map_option (\<lambda>n. n\<lparr>pn_children := pn_children n @ (if q = p then [c] else []),
      pn_parent := (if q = c then Some p else pn_parent n)\<rparr>) (graph_get g q)" for q
    using p by (cases "graph_get g q") (auto simp: link_edge_def)
  have up: "\<exists>m. graph_get ?g x = Some m \<and> pn_parent m = Some q"
    if "hm_get (g_by_pid g) (F x) = Some q" "x = c \<or> (\<exists>m. graph_get g x = Some m \<and> pn_parent m = Some q)" for x q
    using that p assms(2) by (cases "x = c") (auto simp: get)
  show ?thesis unfolding linked_by_def by_pid
  proof (intro allI impI)
    fix q n x
    assume q: "graph_get ?g q = Some n" and x: "x \<in> set (pn_children n)"
    then obtain n0 where n0: "graph_get g q = Some n0" "x \<in> set (pn_children n0) \<or> q = p \<and> x = c"
      by (auto simp: get split: if_splits)
    then have "x \<noteq> q \<and> hm_get (g_by_pid g) (F x) = Some q \<and> (x = c \<or> (\<exists>m. graph_get g x = Some m \<and> pn_parent m = Some q))"
      using assms(1) p unfolding linked_by_def by metis
    then show "x \<noteq> q \<and> hm_get (g_by_pid g) (F x) = Some q \<and> (\<exists>m. graph_get ?g x = Some m \<and> pn_parent m = Some q)"
      using up by blast
  qed
qed (use assms(1) in \<open>auto simp: link_edge_def split: option.splits\<close>)

lemma link_edge_keeps: "graph_get (link_edge e g) k = None \<longleftrightarrow> graph_get g k = None"
  by (auto simp: link_edge_def split: prod.splits option.splits)

lemma link_scanned_linked:
  "linked_by F g \<Longrightarrow> \<forall>(c, pp) \<in> set edges. pp = F c \<and> graph_get g c \<noteq> None \<Longrightarrow> linked_by F (link_scanned edges g)"
  unfolding link_scanned_def
proof (induction edges arbitrary: g)
  case (Cons e edges)
  then show ?case using link_edge_linked by (auto simp: link_edge_keeps simp del: not_None_eq)
qed simp

text \<open>The parent id a scan reads for a process depends on the process alone.\<close>

definition scanned_ppid :: "procfs \<Rightarrow> host_fs \<Rightarrow> u64 \<Rightarrow> trusted_binaries \<Rightarrow> proc_key \<Rightarrow> u32" where
  "scanned_ppid pf fs t tb k = (case scan_one pf fs (pk_pid k) t tb of None \<Rightarrow> 0 | Some (_, ppid) \<Rightarrow> ppid)"

lemma scan_fold_edges:
  "\<forall>(c, pp) \<in> set (sc_edges st). pp = scanned_ppid pf fs t tb c \<and> graph_get (sc_graph st) c \<noteq> None \<Longrightarrow>
   \<forall>(c, pp) \<in> set (sc_edges (fold (scan_entry pf fs t tb) names st)). pp = scanned_ppid pf fs t tb c
     \<and> graph_get (sc_graph (fold (scan_entry pf fs t tb) names st)) c \<noteq> None"
proof (induction names arbitrary: st)
  case (Cons name names)
  have "\<forall>(c, pp) \<in> set (sc_edges (scan_entry pf fs t tb name st)). pp = scanned_ppid pf fs t tb c
      \<and> graph_get (sc_graph (scan_entry pf fs t tb name st)) c \<noteq> None"
  proof (cases "\<exists>pid node ppid. utf8_valid (map of_char name) \<and> parse_u32 name = Some pid \<and> scan_one pf fs pid t tb = Some (node, ppid)")
    case True
    then obtain pid node ppid where s: "utf8_valid (map of_char name)" "parse_u32 name = Some pid" "scan_one pf fs pid t tb = Some (node, ppid)"
      by blast
    then have "ppid = scanned_ppid pf fs t tb (pn_key node)" using scan_one_node [OF s(3)] by (simp add: scanned_ppid_def)
    then show ?thesis using s Cons.prems by (auto simp: scan_entry_def insert_scanned_def graph_get_def)
  next
    case False
    then have "sc_edges (scan_entry pf fs t tb name st) = sc_edges st \<and> sc_graph (scan_entry pf fs t tb name st) = sc_graph st"
      by (auto simp: scan_entry_def split: option.splits)
    then show ?thesis using Cons.prems by simp
  qed
  then show ?case using Cons.IH by simp
qed simp

lemma tree_graph_linked: "back_linked (tree_graph pf fs hz) \<and> graph_wf (tree_graph pf fs hz)"
proof (cases "pf_entries pf")
  case (Some names)
  let ?t = "ns_per_tick hz"
  let ?st = "fold (scan_entry pf fs ?t tb_none) names \<lparr>sc_graph = graph_new USIZE_MAX 0, sc_edges = [], sc_scanned = 0, sc_failed = 0\<rparr>"
  have g: "tree_graph pf fs hz = link_scanned (sc_edges ?st) (sc_graph ?st)"
    by (simp add: tree_graph_def bootstrap_def Some Let_def)
  have flat: "flat tb_none (sc_graph ?st)"
    by (rule scan_fold_flat) (simp add: flat_def graph_new_def graph_get_def)
  then have "linked_by (scanned_ppid pf fs ?t tb_none) (sc_graph ?st)"
    by (auto simp: flat_def linked_by_def scan_node_def)
  from link_scanned_linked [OF this scan_fold_edges] have "linked_by (scanned_ppid pf fs ?t tb_none) (tree_graph pf fs hz)"
    unfolding g by simp
  then show ?thesis using link_scanned_wf [OF flat_wf [OF flat]] unfolding g linked_by_def back_linked_def by blast
next
  case None
  moreover have "graph_get (graph_new USIZE_MAX 0) k = None" for k by (simp add: graph_new_def graph_get_def)
  ultimately show ?thesis by (simp add: tree_graph_def bootstrap_def back_linked_def graph_new_wf)
qed

lemma root_way_up: "graph_wf g \<Longrightarrow> r \<in> set (roots g) \<Longrightarrow> way_up g [r]"
  using expired_keys [of g] unfolding roots_def set_sort by simp

text \<open>
  C32 (termination): The process tree is always printed to its end. Whatever the snapshot of \<^verbatim>\<open>/proc\<close> says, and even if its parent
  ids form cycles, printing from the roots returns: the recursion never goes deeper than there are processes.
\<close>

theorem tree_returns:
  "\<exists>out. tree (Suc (hm_len (g_nodes (tree_graph pf fs hz)))) pf fs hz None = Some out"
proof -
  let ?g = "tree_graph pf fs hz"
  have "\<forall>x \<in> set (map (\<lambda>r. print_subtree (Suc (hm_len (g_nodes ?g))) ?g r [] True) (roots ?g)). x \<noteq> None"
    using print_subtree_ends [of ?g _ "[]" "Suc (hm_len (g_nodes ?g))"] tree_graph_linked [of pf fs hz] root_way_up [of ?g] wf_ok(1) [of ?g]
    by fastforce
  from those_Some [OF this] show ?thesis by (auto simp: tree_def tree_roots_def Let_def simp del: print_subtree.simps)
qed

text \<open>
  Printing the subtree of one process need not end. Two processes that name each other as parent, which a scan can
  read when ids are reused while it runs, are below each other: no recursion depth is enough.
\<close>

theorem subtree_of_a_cycle_never_ends:
  assumes "graph_get g a = Some na" and "graph_get g b = Some nb" and "b \<in> set (pn_children na)" and "a \<in> set (pn_children nb)"
  shows "print_subtree depth g a pre is_last = None"
proof -
  have none: "those xs = None" if "None \<in> set xs" for xs :: "string list option list"
    using that by (induction xs) (auto split: option.splits)
  have down: "print_subtree (Suc d) g x pre l = None"
    if "graph_get g x = Some nx" "c \<in> set (pn_children nx)" "graph_get g c \<noteq> None" "\<And>pre l. print_subtree d g c pre l = None" for d x nx c pre l
  proof -
    have "c \<in> set (children_of g x)" using that(1-3) by (simp add: children_of_def)
    then obtain i where "i < length (children_of g x)" "children_of g x ! i = c" by (auto simp: in_set_conv_nth)
    then have "(i, c) \<in> set (enumerate 0 (children_of g x))" by (simp add: in_set_enumerate_eq)
    then have "None \<in> set (map (\<lambda>(i, child). print_subtree d g child (child_prefix pre l) (i + 1 = length (children_of g x)))
        (enumerate 0 (children_of g x)))" unfolding set_map by (rule rev_image_eqI) (simp add: that(4))
    from none [OF this] show ?thesis using that(1) by (simp add: Let_def)
  qed
  have "print_subtree depth g a pre l = None \<and> print_subtree depth g b pre l = None" for pre l
  proof (induction depth arbitrary: pre l)
    case (Suc d)
    then show ?case using down [OF assms(1,3)] down [OF assms(2,4)] assms(1,2) by simp
  qed simp
  then show ?thesis by blast
qed

definition cycle_graph :: graph where
  \<comment> \<open>what the scan builds when process 5 is read with parent 7 and process 7 with parent 5\<close>
  "cycle_graph = link_scanned [(ProcKey 5 0, 7), (ProcKey 7 0, 5)]
     (insert_scanned (node_new (ProcKey 7 0) Scanned) (insert_scanned (node_new (ProcKey 5 0) Scanned) (graph_new 9 0)))"

lemma cycle_graph_nodes:
  "\<exists>n. graph_get cycle_graph (ProcKey 5 0) = Some n \<and> ProcKey 7 0 \<in> set (pn_children n)"
  "\<exists>n. graph_get cycle_graph (ProcKey 7 0) = Some n \<and> ProcKey 5 0 \<in> set (pn_children n)"
  by (simp_all add: cycle_graph_def link_scanned_def link_edge_def insert_scanned_def graph_new_def graph_get_def modify_node_def node_new_def)

theorem subtree_of_a_cycle_never_ends_witness: "print_subtree 99 cycle_graph (ProcKey 5 0) [] True = None"
  using cycle_graph_nodes subtree_of_a_cycle_never_ends by blast

end
