(* ===== verification/Sweep_Props.thy ===== *)
theory Sweep_Props
  imports Sweep
begin

text \<open>
  What the sweep finds: the walk visits exactly the files of the host that can be reached, and the sweep asks for
  attention exactly if one of the three conclusive artifacts is there.
\<close>

section \<open>What a walk visits\<close>

text \<open>
  A directory some levels below another, through real directories on one device that belong to no image store, and
  the files of the host below a directory.
\<close>

definition subdir :: "disk \<Rightarrow> u64 \<Rightarrow> string \<Rightarrow> string \<Rightarrow> bool" where
  "subdir d device dir q \<longleftrightarrow> (\<exists>es name. dk_read_dir d dir = Some es \<and> (name, Some FDir) \<in> set es \<and> q = path_join dir name
     \<and> \<not> is_image_store q \<and> map_option mt_dev (dk_lstat d q) = Some device)"

definition file_in :: "disk \<Rightarrow> string \<Rightarrow> string \<Rightarrow> meta \<Rightarrow> bool" where
  "file_in d dir p md \<longleftrightarrow> (\<exists>es name. dk_read_dir d dir = Some es \<and> (name, Some FFile) \<in> set es \<and> p = path_join dir name \<and> dk_lstat d p = Some md)"

definition in_steps :: "('a \<Rightarrow> 'a \<Rightarrow> bool) \<Rightarrow> nat \<Rightarrow> 'a \<Rightarrow> 'a \<Rightarrow> bool" where
  \<comment> \<open>reached in fewer than \<open>n\<close> steps\<close>
  "in_steps R n x y \<longleftrightarrow> (\<exists>k < n. (R ^^ k) x y)"

lemma in_steps_0 [simp]: "\<not> in_steps R 0 x y"
  by (simp add: in_steps_def)

lemma in_steps_Suc: "in_steps R (Suc n) x z \<longleftrightarrow> z = x \<or> (\<exists>y. R x y \<and> in_steps R n y z)"
proof -
  have "(\<exists>k < Suc n. (R ^^ k) x z) \<longleftrightarrow> (R ^^ 0) x z \<or> (\<exists>k < n. (R ^^ Suc k) x z)"
    by (metis Suc_less_eq not0_implies_Suc zero_less_Suc)
  also have "\<dots> \<longleftrightarrow> z = x \<or> (\<exists>k < n. \<exists>y. R x y \<and> (R ^^ k) y z)"
    by (auto simp: relpowp_Suc_I2 dest: relpowp_Suc_D2 intro: relpowp_Suc_I2 simp del: relpowp.simps(2))
  finally show ?thesis by (auto simp: in_steps_def)
qed

definition below :: "disk \<Rightarrow> u64 \<Rightarrow> string \<Rightarrow> nat \<Rightarrow> string \<Rightarrow> meta \<Rightarrow> bool" where
  "below d device dir n p md \<longleftrightarrow> (\<exists>q. in_steps (subdir d device) n dir q \<and> file_in d q p md)"

lemma below_0 [simp]: "\<not> below d device dir 0 p md"
  by (simp add: below_def)

lemma below_Suc:
  "below d device dir (Suc n) p md \<longleftrightarrow> file_in d dir p md \<or> (\<exists>r. subdir d device dir r \<and> below d device r n p md)"
  by (auto simp: below_def in_steps_Suc)

text \<open>The files a walk visits, in order.\<close>

definition entry_files :: "disk \<Rightarrow> u64 \<Rightarrow> (string \<Rightarrow> (string \<times> meta) list) \<Rightarrow> string \<Rightarrow> string \<Rightarrow> ftype option \<Rightarrow> (string \<times> meta) list" where
  "entry_files d device go dir name ft =
     (case ft of
        Some FDir \<Rightarrow>
          if is_image_store (path_join dir name) \<or> map_option mt_dev (dk_lstat d (path_join dir name)) \<noteq> Some device then []
          else go (path_join dir name)
      | Some FFile \<Rightarrow> (case dk_lstat d (path_join dir name) of None \<Rightarrow> [] | Some md \<Rightarrow> [(path_join dir name, md)])
      | _ \<Rightarrow> [])"

primrec visited :: "disk \<Rightarrow> u64 \<Rightarrow> nat \<Rightarrow> string \<Rightarrow> (string \<times> meta) list" where
  "visited d device 0 = (\<lambda>dir. [])"
| "visited d device (Suc n) = (\<lambda>dir. case dk_read_dir d dir of None \<Rightarrow> []
     | Some es \<Rightarrow> concat (map (\<lambda>(name, ft). entry_files d device (visited d device n) dir name ft) es))"

lemma fold_concat_map: "fold f (concat (map g xs)) s = fold (\<lambda>x s. fold f (g x) s) xs s"
  by (induction xs arbitrary: s) simp_all

lemma walk_files_visited:
  "walk_files d dir depth device visit st = fold (\<lambda>(p, md). visit p md) (visited d device (17 - depth) dir) st"
proof (induction "17 - depth" arbitrary: depth dir st)
  case 0
  then show ?case by (simp add: walk_files.simps)
next
  case (Suc n)
  then have n: "17 - Suc depth = n" "17 - depth = Suc n" "\<not> depth > 16" by simp_all
  note IH = Suc.hyps(1) [of "Suc depth", unfolded n, OF refl]
  show ?case
    unfolding walk_files.simps [of d dir depth] n visited.simps
    by (cases "dk_read_dir d dir")
       (auto simp: n fold_concat_map Let_def IH entry_files_def fun_eq_iff intro!: fold_cong split: option.splits ftype.splits)
qed

lemma visited_below: "(p, md) \<in> set (visited d device n dir) \<longleftrightarrow> below d device dir n p md"
proof (induction n arbitrary: dir)
  case (Suc n)
  show ?case
  proof (cases "dk_read_dir d dir")
    case (Some es)
    have one: "(p, md) \<in> set (entry_files d device (visited d device n) dir name ft) \<longleftrightarrow>
        ft = Some FFile \<and> p = path_join dir name \<and> dk_lstat d p = Some md
        \<or> ft = Some FDir \<and> \<not> is_image_store (path_join dir name) \<and> map_option mt_dev (dk_lstat d (path_join dir name)) = Some device
          \<and> below d device (path_join dir name) n p md" for name ft
      unfolding entry_files_def by (cases ft) (auto simp: Suc.IH split: ftype.splits option.splits)
    have "(p, md) \<in> set (visited d device (Suc n) dir) \<longleftrightarrow>
        (\<exists>name ft. (name, ft) \<in> set es \<and> (p, md) \<in> set (entry_files d device (visited d device n) dir name ft))"
      using Some by fastforce
    also have "\<dots> \<longleftrightarrow> below d device dir (Suc n) p md"
      unfolding one below_Suc using Some by (auto simp: file_in_def subdir_def simp del: map_option_eq_Some)
    finally show ?thesis .
  qed (simp add: below_Suc file_in_def subdir_def)
qed simp

section \<open>What needs attention\<close>

definition setuid_file :: "meta \<Rightarrow> bool" where
  "setuid_file md \<longleftrightarrow> and (mt_mode md) 0xC00 \<noteq> 0"

definition suid_seen :: "disk \<Rightarrow> (string \<times> meta) list" where
  "suid_seen d = concat (map (\<lambda>dir. case dk_lstat d dir of None \<Rightarrow> [] | Some md \<Rightarrow> visited d (mt_dev md) 17 dir) SUID_ROOTS)"

lemma visit_suid_fold:
  "fold (\<lambda>(p, md). visit_suid m p md) xs (t, u) =
     (t + length (filter (\<lambda>(p, md). setuid_file md) xs),
      u @ map (\<lambda>(p, md). display p @ '' mode '' @ octal4 (and (mt_mode md) 0xFFF) @ '' uid '' @ show_word (mt_uid md))
            (filter (\<lambda>(p, md). setuid_file md \<and> \<not> owns p m) xs))"
  by (induction xs arbitrary: t u) (auto simp: visit_suid_def setuid_file_def)

lemma suid_scan:
  "fold (\<lambda>dir st. case dk_lstat d dir of None \<Rightarrow> st | Some md \<Rightarrow> walk_files d dir 0 (mt_dev md) (visit_suid m) st) dirs st
     = fold (\<lambda>(p, md). visit_suid m p md) (concat (map (\<lambda>dir. case dk_lstat d dir of None \<Rightarrow> [] | Some md \<Rightarrow> visited d (mt_dev md) 17 dir) dirs)) st"
  by (induction dirs arbitrary: st) (simp_all add: walk_files_visited split: option.splits)

lemma suid_suspect:
  "is_suspect (suid d m) \<longleftrightarrow> knows m \<and> (\<exists>(p, md) \<in> set (suid_seen d). setuid_file md \<and> \<not> owns p m)"
proof -
  obtain t u where f: "fold (\<lambda>dir st. case dk_lstat d dir of None \<Rightarrow> st
      | Some md \<Rightarrow> walk_files d dir 0 (mt_dev md) (visit_suid m) st) SUID_ROOTS (0, []) = (t, u)" by fastforce
  then have "u \<noteq> [] \<longleftrightarrow> (\<exists>(p, md) \<in> set (suid_seen d). setuid_file md \<and> \<not> owns p m)"
    by (auto simp: suid_scan suid_seen_def [symmetric] visit_suid_fold filter_empty_conv split: prod.splits)
  then show ?thesis by (auto simp: suid_def f is_suspect_def Let_def)
qed

lemma set_map_filter: "set (List.map_filter f xs) = {y. \<exists>x \<in> set xs. f x = Some y}"
  by (induction xs) (auto simp: List.map_filter_simps split: option.splits)

lemma map_filter_empty: "List.map_filter f xs = [] \<longleftrightarrow> (\<forall>x \<in> set xs. f x = None)"
  by (induction xs) (auto simp: List.map_filter_simps split: option.splits)

lemma list_files_below:
  "set (list_files d dir) = {p. \<exists>rm md. dk_lstat d dir = Some rm \<and> below d (mt_dev rm) dir 17 p md}"
proof -
  have "fold (\<lambda>(p, md) out. out @ [p]) xs out = out @ map fst xs" for xs :: "(string \<times> meta) list" and out
    by (induction xs arbitrary: out) auto
  then show ?thesis
    by (auto simp: list_files_def walk_files_visited case_prod_unfold visited_below [symmetric] image_iff split: option.splits) (metis fst_conv)+
qed

lemma suid_seen_below:
  "(p, md) \<in> set (suid_seen d) \<longleftrightarrow> (\<exists>dir rm. dir \<in> set SUID_ROOTS \<and> dk_lstat d dir = Some rm \<and> below d (mt_dev rm) dir 17 p md)"
proof -
  have "(p, md) \<in> set (case x of None \<Rightarrow> [] | Some rm \<Rightarrow> visited d (mt_dev rm) 17 dir)
      \<longleftrightarrow> (\<exists>rm. x = Some rm \<and> below d (mt_dev rm) dir 17 p md)" for x :: "meta option" and dir
    by (cases x) (simp_all add: visited_below)
  then show ?thesis by (auto simp: suid_seen_def)
qed

lemma running_deleted_iff:
  "running_deleted d pid \<noteq> None \<longleftrightarrow> (\<exists>t. dk_read_link d (''/proc/'' @ pid @ ''/exe'') = Some t
     \<and> (ends_with '' (deleted)'' (display t) \<or> contains ''memfd:'' (display t)))"
  by (cases "dk_read_link d (''/proc/'' @ pid @ ''/exe'')") (simp_all add: running_deleted_def Let_def)

lemma deleted_suspect:
  "is_suspect (deleted_executables d) \<longleftrightarrow> (\<exists>es pid ft t. dk_read_dir d ''/proc'' = Some es \<and> (pid, ft) \<in> set es \<and> is_pid pid
     \<and> dk_read_link d (''/proc/'' @ pid @ ''/exe'') = Some t \<and> (ends_with '' (deleted)'' (display t) \<or> contains ''memfd:'' (display t)))"
proof (cases "dk_read_dir d ''/proc''")
  case (Some es)
  have "is_suspect (deleted_executables d) \<longleftrightarrow> \<not> (\<forall>pid \<in> set (filter is_pid (map fst es)). running_deleted d pid = None)"
    using map_filter_empty [of "running_deleted d" "filter is_pid (map fst es)"]
    by (simp add: deleted_executables_def Some is_suspect_def Let_def)
  also have "\<dots> \<longleftrightarrow> (\<exists>pid ft. (pid, ft) \<in> set es \<and> is_pid pid \<and> running_deleted d pid \<noteq> None)" by force
  finally show ?thesis unfolding running_deleted_iff using Some by auto
qed (simp add: deleted_executables_def is_suspect_def)

lemma modules_suspect:
  "is_suspect (modules d) \<longleftrightarrow> (\<exists>t n. read_to_string d ''/proc/modules'' = Some t \<and> dk_is_dir d (module_base d) \<and> n \<in> set (module_names t)
     \<and> \<not> (\<exists>rm p md. dk_lstat d (module_base d) = Some rm \<and> below d (mt_dev rm) (module_base d) 17 p md
            \<and> module_stem p = Some (dash_to_underscore n)))"
proof (cases "read_to_string d ''/proc/modules''")
  case (Some t)
  have "is_suspect (modules d) \<longleftrightarrow> dk_is_dir d (module_base d)
      \<and> (\<exists>n \<in> set (module_names t). dash_to_underscore n \<notin> set (List.map_filter module_stem (list_files d (module_base d))))"
    by (auto simp: modules_def Some is_suspect_def Let_def filter_empty_conv)
  also have "\<dots> \<longleftrightarrow> dk_is_dir d (module_base d) \<and> (\<exists>n \<in> set (module_names t). \<not> (\<exists>rm p md. dk_lstat d (module_base d) = Some rm
      \<and> below d (mt_dev rm) (module_base d) 17 p md \<and> module_stem p = Some (dash_to_underscore n)))"
    unfolding set_map_filter list_files_below by blast
  finally show ?thesis unfolding Some by blast
qed (simp add: modules_def is_suspect_def)

lemma other_suspect: "\<not> is_suspect (persistence d m)" "\<not> is_suspect (escape_hatches d)" "\<not> is_suspect (authorized_keys d)"
  by (simp_all add: persistence_def escape_hatches_def authorized_keys_def is_suspect_def Let_def)

text \<open>
  C17 (functional): The sweep asks for attention exactly if it should. Its exit status is raised if and only if a setuid or setgid file of the
  host is owned by no package (and there is a package manager to ask), or a running process has an executable that was deleted
  or never on disk, or a loaded module has no file in the tree of the running kernel. The files of the host are those at most
  sixteen directories below a scanned one, on its device, not behind a symbolic link and in no image store.
\<close>

theorem sweep_attention:
  "needs_attention (sweep_run d) \<longleftrightarrow>
     (knows (manifest_load d) \<and> (\<exists>dir rm p md. dir \<in> set SUID_ROOTS \<and> dk_lstat d dir = Some rm \<and> below d (mt_dev rm) dir 17 p md
        \<and> setuid_file md \<and> \<not> owns p (manifest_load d)))
   \<or> (\<exists>es pid ft t. dk_read_dir d ''/proc'' = Some es \<and> (pid, ft) \<in> set es \<and> is_pid pid
        \<and> dk_read_link d (''/proc/'' @ pid @ ''/exe'') = Some t \<and> (ends_with '' (deleted)'' (display t) \<or> contains ''memfd:'' (display t)))
   \<or> (\<exists>t n. read_to_string d ''/proc/modules'' = Some t \<and> dk_is_dir d (module_base d) \<and> n \<in> set (module_names t)
        \<and> \<not> (\<exists>rm p md. dk_lstat d (module_base d) = Some rm \<and> below d (mt_dev rm) (module_base d) 17 p md
               \<and> module_stem p = Some (dash_to_underscore n)))"
proof -
  let ?m = "manifest_load d"
  have "needs_attention (sweep_run d) \<longleftrightarrow> is_suspect (suid d ?m) \<or> is_suspect (deleted_executables d) \<or> is_suspect (modules d)"
    by (simp add: needs_attention_def sweep_run_def Let_def other_suspect)
  also have "is_suspect (suid d ?m) \<longleftrightarrow> knows ?m \<and> (\<exists>dir rm p md. dir \<in> set SUID_ROOTS \<and> dk_lstat d dir = Some rm
      \<and> below d (mt_dev rm) dir 17 p md \<and> setuid_file md \<and> \<not> owns p ?m)"
    unfolding suid_suspect using suid_seen_below by fast
  finally show ?thesis unfolding deleted_suspect modules_suspect .
qed

section \<open>Persistence\<close>

definition anydir :: "disk \<Rightarrow> string \<Rightarrow> string \<Rightarrow> bool" where
  "anydir d dir q \<longleftrightarrow> (\<exists>es name. dk_read_dir d dir = Some es \<and> (name, Some FDir) \<in> set es \<and> q = path_join dir name)"

definition entry_in :: "disk \<Rightarrow> string \<Rightarrow> string \<Rightarrow> bool" where
  "entry_in d dir p \<longleftrightarrow> (\<exists>es name ft. dk_read_dir d dir = Some es \<and> (name, Some ft) \<in> set es \<and> ft \<in> {FSymlink, FFile} \<and> p = path_join dir name)"

definition entry_paths :: "(string \<Rightarrow> string list) \<Rightarrow> string \<Rightarrow> string \<Rightarrow> ftype option \<Rightarrow> string list" where
  "entry_paths go dir name ft =
     (case ft of Some FDir \<Rightarrow> go (path_join dir name) | Some FFile \<Rightarrow> [path_join dir name] | Some FSymlink \<Rightarrow> [path_join dir name] | _ \<Rightarrow> [])"

primrec listed :: "disk \<Rightarrow> nat \<Rightarrow> string \<Rightarrow> string list" where
  "listed d 0 = (\<lambda>dir. [])"
| "listed d (Suc n) = (\<lambda>dir. case dk_read_dir d dir of None \<Rightarrow> []
     | Some es \<Rightarrow> concat (map (\<lambda>(name, ft). entry_paths (listed d n) dir name ft) es))"

lemma list_entries_listed: "list_entries d dir depth out = out @ listed d (9 - depth) dir"
proof (induction "9 - depth" arbitrary: depth dir out)
  case 0
  then show ?case by (simp add: list_entries.simps)
next
  case (Suc n)
  then have n: "9 - Suc depth = n" "9 - depth = Suc n" "\<not> depth > 8" by simp_all
  note IH = Suc.hyps(1) [of "Suc depth", unfolded n, OF refl]
  have "fold (\<lambda>(name, ft) out. let path = path_join dir name in case ft of None \<Rightarrow> out | Some FSymlink \<Rightarrow> out @ [path]
      | Some FFile \<Rightarrow> out @ [path] | Some FDir \<Rightarrow> list_entries d path (depth + 1) out | Some FOther \<Rightarrow> out) es out
    = out @ concat (map (\<lambda>(name, ft). entry_paths (listed d n) dir name ft) es)" for es
    by (induction es arbitrary: out) (auto simp: entry_paths_def IH Let_def split: option.splits ftype.splits)
  then show ?case unfolding list_entries.simps [of d dir depth] n listed.simps by (simp add: n split: option.splits)
qed

lemma listed_within: "p \<in> set (listed d n dir) \<longleftrightarrow> (\<exists>q. in_steps (anydir d) n dir q \<and> entry_in d q p)"
proof (induction n arbitrary: dir)
  case (Suc n)
  show ?case
  proof (cases "dk_read_dir d dir")
    case (Some es)
    have one: "p \<in> set (entry_paths (listed d n) dir name ft) \<longleftrightarrow>
        (ft = Some FFile \<or> ft = Some FSymlink) \<and> p = path_join dir name \<or> ft = Some FDir \<and> p \<in> set (listed d n (path_join dir name))" for name ft
      unfolding entry_paths_def by (cases ft) (auto split: ftype.splits)
    have "p \<in> set (listed d (Suc n) dir) \<longleftrightarrow> (\<exists>name ft. (name, ft) \<in> set es \<and> p \<in> set (entry_paths (listed d n) dir name ft))"
      using Some by fastforce
    also have "\<dots> \<longleftrightarrow> entry_in d dir p \<or> (\<exists>r. anydir d dir r \<and> p \<in> set (listed d n r))"
      unfolding one using Some by (auto simp: entry_in_def anydir_def)
    finally show ?thesis unfolding Suc.IH by (auto simp: in_steps_Suc)
  qed (auto simp: in_steps_Suc entry_in_def anydir_def)
qed simp

lemma sweep_unknown_cases:
  "(\<exists>s. suid d m = Unknown s) \<longleftrightarrow> \<not> knows m" "(\<exists>s. persistence d m = Unknown s) \<longleftrightarrow> \<not> knows m"
  "(\<exists>s. deleted_executables d = Unknown s) \<longleftrightarrow> dk_read_dir d ''/proc'' = None"
  "(\<exists>s. modules d = Unknown s) \<longleftrightarrow> read_to_string d ''/proc/modules'' = None \<or> dk_is_dir d (module_base d) = False"
  "(\<exists>s. escape_hatches d = Unknown s) \<longleftrightarrow> list_all (\<lambda>p. read_to_string d p = None) ESCAPE_HATCHES"
  "authorized_keys d \<noteq> Unknown s"
  by (auto simp: suid_def persistence_def deleted_executables_def modules_def escape_hatches_def authorized_keys_def Let_def
      map_filter_empty list_all_iff split: option.splits if_splits prod.splits)

definition unaccounted :: "disk \<Rightarrow> manifest \<Rightarrow> string \<Rightarrow> bool" where
  "unaccounted d m p \<longleftrightarrow> (\<exists>dir q. dir \<in> set PERSISTENCE_DIRS \<and> dk_is_dir d dir \<and> in_steps (anydir d) 9 dir q \<and> entry_in d q p)
     \<and> \<not> owns p m \<and> \<not> explained d p m"

lemma persistence_files:
  "set (filter (\<lambda>p. \<not> (owns p m \<or> explained d p m)) (concat (map (\<lambda>dir. if dk_is_dir d dir then list_entries d dir 0 [] else []) PERSISTENCE_DIRS)))
     = {p. unaccounted d m p}"
  by (auto simp: unaccounted_def list_entries_listed listed_within)

text \<open>
  A clear persistence check means what it says. Given a package manager, the check is clear exactly if every file and
  every link in the persistence directories, at most eight directories deep, is owned by a package or explained by the
  host's own records; otherwise exactly the others are listed. Without a package manager it is unknown, never clear.
\<close>

theorem persistence_exact:
  "(\<exists>s. persistence d m = Unknown s) = (\<not> knows m)
   \<and> (\<exists>s. persistence d m = Clear s) = (knows m \<and> {p. unaccounted d m p} = {})
   \<and> set (finding_items (persistence d m))
       = (if knows m then {display p @ '' ('' @ age_text ''d old'' ''age unknown'' (dk_lage d p) @ '')'' |p. unaccounted d m p} else {})"
proof (cases "knows m")
  case True
  let ?fs = "filter (\<lambda>p. \<not> (owns p m \<or> explained d p m)) (concat (map (\<lambda>dir. if dk_is_dir d dir then list_entries d dir 0 [] else []) PERSISTENCE_DIRS))"
  let ?item = "\<lambda>p. display p @ '' ('' @ age_text ''d old'' ''age unknown'' (dk_lage d p) @ '')''"
  obtain a b where p: "persistence d m = (if map ?item ?fs = [] then Clear a else Notice b (map ?item ?fs))"
    using True unfolding persistence_def Let_def by simp
  have "?fs = [] \<longleftrightarrow> {p. unaccounted d m p} = {}" unfolding persistence_files [symmetric] by (simp only: set_empty)
  moreover have "set (map ?item ?fs) = {?item p |p. unaccounted d m p}"
    unfolding set_map persistence_files by blast
  ultimately show ?thesis using True unfolding p by (simp add: finding_items_def)
qed (simp add: persistence_def finding_items_def)

end
