(* ===== verification/Cli.thy ===== *)
theory Cli
  imports Budget Tree Display Ship Doctor Yara Sweep_Props
begin

text \<open>
  The command-line tools of \<^verbatim>\<open>src/main.rs\<close> beside the agent itself: what a server is started with, the listing of
  rules, the investigation of one process in a capture, the exit codes of the checks, and the baseline's banner
  (\<^verbatim>\<open>summary\<close> of \<^verbatim>\<open>src/detect/baseline.rs\<close>). Output is the list of lines written.
\<close>

section \<open>The baseline's banner\<close>

definition human_dur :: "u64 \<Rightarrow> string" where
  "human_dur secs =
     (if secs \<ge> 86400 then fmt1 (f64_div (u64_f64 secs) 86400) @ ''d''
      else if secs \<ge> 3600 then fmt1 (f64_div (u64_f64 secs) 3600) @ ''h''
      else if secs \<ge> 60 then fmt0 (f64_div (u64_f64 secs) 60) @ ''m''
      else show_word secs @ ''s'')"

definition baseline_summary :: "env \<Rightarrow> baseline \<Rightarrow> string" where
  "baseline_summary env b =
     show_nat (baseline_len b) @ '' patterns ('' @ show_nat (strong (env_ln1p env) (env_now_ms env) b) @ '' strong)''
     @ (if b_window_ns b > 0 then '', '' @ human_dur (b_window_ns b div 1000000000) @ '' learning window'' else [])
     @ (case age_days (env_now_ms env) b of
          None \<Rightarrow> '', age unknown (v1 format -- re-learn)''
        | Some d \<Rightarrow>
            if is_expired (env_now_ms env) b
            then '', learned '' @ fmt0 d @ ''d ago: EXPIRED past '' @ fmt0 STALE_DAYS @ ''d, suppressing nothing -- re-learn''
            else '', learned '' @ fmt0 d @ ''d ago''
              @ (let f = freshness (env_now_ms env) b in if f < 1 then '' ('' @ fmt0 (f64_mul f 100) @ ''% strength)'' else []))"

section \<open>Checks and their exit codes\<close>

text \<open>What is printed, if anything, and the exit code.\<close>

definition sweep_cmd :: "disk \<Rightarrow> bool \<Rightarrow> string option \<times> nat" where
  "sweep_cmd d quiet_unless_findings =
     (let report = sweep_run d; attention = needs_attention report
      in (if \<not> quiet_unless_findings \<or> attention then Some (render_sweep report) else None, if attention then 1 else 0))"

definition doctor_cmd :: "disk \<Rightarrow> host_fs \<Rightarrow> u32 \<Rightarrow> u64 \<Rightarrow> string \<times> nat" where
  "doctor_cmd d fs euid rlim =
     (let report = doctor_run d fs euid rlim in (render_report report, if fatal report then 1 else 0))"

definition budget_report :: "env \<Rightarrow> (string \<Rightarrow> event option) \<Rightarrow> string option \<Rightarrow> baseline option option \<Rightarrow> rule list option option \<Rightarrow> string
    \<Rightarrow> (string + string) option" where
  \<comment> \<open>the printed form; \<open>None\<close> is a panic\<close>
  "budget_report env parse content b rs min_severity =
     (case parse_severity min_severity of Inl e \<Rightarrow> Some (Inl e)
      | Inr fl \<Rightarrow>
          (case content of None \<Rightarrow> Some (Inl ''reading capture'')
           | Some s \<Rightarrow> map_option (\<lambda>bud. Inr (render_budget bud fl)) (measure_budget env parse s b rs fl)))"

definition rule_line :: "rule \<Rightarrow> string" where
  "rule_line r =
     ''  '' @ pad_right 10 (if r_id r = [] then ''-'' else r_id r) @ '' '' @ pad_right 24 (r_name r) @ '' score ''
     @ pad_right 3 (show_word (r_score r)) @ '' ''
     @ pad_right 10 (if is_sequence r then ''sequence['' @ show_nat (length (r_sequence r)) @ '']'' else ''match'')
     @ '' ['' @ join '', '' (r_attack r) @ '']''"

definition rules_cmd :: "string \<Rightarrow> string + rule list \<Rightarrow> string + string list" where
  "rules_cmd dir loaded =
     (case loaded of Inl e \<Rightarrow> Inl e
      | Inr rules \<Rightarrow> Inr ((show_nat (length rules) @ '' rule(s) in '' @ dir @ '', all valid:'' @ nl) # map rule_line rules))"

section \<open>Starting the server\<close>

datatype sink = Webhook string "u8 list option" | Syslog string

record serve_args =
  sa_keys :: "(string option \<times> u32 option) option"  \<comment> \<open>content and mode of the key file, when one is named\<close>
  sa_tls_cert :: "string option"
  sa_tls_key :: "string option"
  sa_webhook :: "string option"
  sa_webhook_ca :: "(string + u8 list) option"  \<comment> \<open>what reading the certificate gives\<close>
  sa_syslog :: bool
  sa_syslog_socket :: string
  sa_min_severity :: string
  sa_admin_password :: "string option"
  sa_ingest_key :: "string option"

definition alert_sinks :: "serve_args \<Rightarrow> string + sink list" where
  "alert_sinks a =
     (let tail = (if sa_syslog a then [Syslog (sa_syslog_socket a)] else [])
      in case sa_webhook a of
           Some url \<Rightarrow>
             (case sa_webhook_ca a of
                Some (Inl e) \<Rightarrow> Inl e
              | ca \<Rightarrow>
                  if split_url url = None then Inl (''--alert-webhook '' @ url @ '': URL must start with http:// or https://'')
                  else Inr (Webhook url (case ca of Some (Inr der) \<Rightarrow> Some der | _ \<Rightarrow> None) # tail))
         | None \<Rightarrow>
             if sa_webhook_ca a \<noteq> None then Inl ''--alert-webhook-ca has no effect without --alert-webhook'' else Inr tail)"

definition tls_files :: "serve_args \<Rightarrow> string + (string \<times> string) option" where
  "tls_files a =
     (case (sa_tls_cert a, sa_tls_key a) of
        (Some c, Some k) \<Rightarrow> Inr (Some (c, k))
      | (None, None) \<Rightarrow> Inr None
      | _ \<Rightarrow> Inl ''--tls-cert and --tls-key must be given together'')"

definition serve_cmd :: "serve_args \<Rightarrow> string + config \<times> sink list \<times> string \<times> (string \<times> string) option" where
  "serve_cmd a =
     (case parse_min_severity (sa_min_severity a) of
        None \<Rightarrow> Inl ''--alert-min-severity must be INFO, LOW, MEDIUM, HIGH, or CRITICAL''
      | Some sev \<Rightarrow>
          (case alert_sinks a of Inl e \<Rightarrow> Inl e
           | Inr sinks \<Rightarrow>
               (case (case sa_keys a of None \<Rightarrow> Inr None
                      | Some (content, mode) \<Rightarrow> (case keys_load content mode of Inl e \<Rightarrow> Inl e | Inr ks \<Rightarrow> Inr (Some ks))) of
                  Inl e \<Rightarrow> Inl ''key file''
                | Inr ks \<Rightarrow>
                    (case tls_files a of Inl e \<Rightarrow> Inl e
                     | Inr tls \<Rightarrow> Inr (\<lparr>cf_admin_password = unwrap_or [] (sa_admin_password a), cf_ingest_key = unwrap_or [] (sa_ingest_key a),
                          cf_agent_keys = ks\<rparr>, sinks, sev, tls)))))"

definition ship_cmd :: "'s post \<Rightarrow> string option \<Rightarrow> string option \<Rightarrow> string option \<Rightarrow> string \<Rightarrow> string option \<Rightarrow> (string + u8 list) option
    \<Rightarrow> string option list \<Rightarrow> 's \<Rightarrow> (string + nat \<times> nat) \<times> 's" where
  "ship_cmd post ingest_key osrelease host_file url host ca input st =
     (case ingest_key of None \<Rightarrow> (Inl ''set KS_INGEST_KEY to this agent's ingest key'', st)
      | Some key \<Rightarrow> ship post osrelease url key (case host of Some h \<Rightarrow> h | None \<Rightarrow> hostname host_file) ca input st)"

section \<open>Investigating a process\<close>

text \<open>The capture is replayed whole; the events of the process are kept for its timeline.\<close>

definition investigate_line :: "env \<Rightarrow> (string \<Rightarrow> event option) \<Rightarrow> u32 \<Rightarrow> string \<Rightarrow> graph \<times> engine \<times> event list \<Rightarrow> graph \<times> engine \<times> event list" where
  "investigate_line env parse pid line = (\<lambda>(g0, e0, timeline).
     if trim line = [] then (g0, e0, timeline)
     else (case parse line of None \<Rightarrow> (g0, e0, timeline)
       | Some ev \<Rightarrow>
           let g = apply_event ev g0; e = snd (engine_on_event env ev g e0)
           in (g, e, if ev_tgid ev = pid then timeline @ [ev] else timeline)))"

definition cred_line :: "cred_snapshot \<Rightarrow> string" where
  "cred_line c = ''  '' @ clock_format boot_relative (cs_ts_ns c) @ ''  uid='' @ show_word (cs_uid c) @ '' euid='' @ show_word (cs_euid c)
     @ '' gid='' @ show_word (cs_gid c) @ '' egid='' @ show_word (cs_egid c)"

definition show_subject :: "env \<Rightarrow> graph \<Rightarrow> engine \<Rightarrow> event list \<Rightarrow> proc_key \<Rightarrow> proc_node \<Rightarrow> string list" where
  "show_subject env g e timeline subject node =
     (let chain = map (\<lambda>n. pn_comm n @ ''('' @ show_word (pk_pid (pn_key n)) @ '')'') (rev (ancestry g subject));
          (signals, sc) = assess env subject g e;
          techniques = remdups_adj (sort (concat (map s_attack signals)))
      in [nl @ ''=== PID '' @ show_word (pk_pid subject) @ '' '' @ pn_comm node @ '' ===''] 
         @ (if pn_exe node \<noteq> [] then [''executable : '' @ pn_exe node] else [])
         @ (if pn_argv node \<noteq> [] then [''command    : '' @ join '' '' (pn_argv node)] else [])
         @ [''uid        : '' @ show_word (pn_uid node) @ '' (euid '' @ show_word (pn_euid node) @ '')'']
         @ (if pn_container node \<noteq> [] then [''container  : '' @ pn_container node] else [])
         @ (case pn_exited node of None \<Rightarrow> [] | Some t \<Rightarrow> [''exited     : '' @ clock_format boot_relative t])
         @ (if chain \<noteq> [] then [''lineage    : '' @ join '' -> '' chain] else [])
         @ (if pn_cred_history node \<noteq> [] then (nl @ ''credential changes:'') # map cred_line (pn_cred_history node) else [])
         @ [nl @ ''risk       : '' @ severity_label (sc_severity sc) @ '' '' @ show_word (sc_total sc) @ ''/100  (base ''
            @ show_word (sc_base sc) @ '' + chain '' @ show_word (sc_chain_bonus sc) @ '')'']
         @ (if signals \<noteq> [] then ''signals:'' # map (\<lambda>s. ''  '' @ clock_format boot_relative (s_ts_ns s) @ ''  '' @ pad_right 22 (s_id s) @ '' ''
               @ s_detail s @ ''  (+'' @ show_word (s_score s) @ '')'') signals else [])
         @ (if timeline \<noteq> [] then (nl @ ''timeline:'') # map (\<lambda>ev. ''  '' @ clock_format boot_relative (ev_ts_ns ev) @ ''  '' @ event_detail ev)
               (filter (\<lambda>ev. ev_start_boottime ev = pk_start subject) timeline) else [])
         @ (if techniques \<noteq> [] then (nl @ ''MITRE ATT&CK:'') # map (\<lambda>t. ''  '' @ pad_right 12 t @ '' '' @ attack_name t) techniques else []))"

definition investigate :: "env \<Rightarrow> (string \<Rightarrow> event option) \<Rightarrow> u32 \<Rightarrow> string \<Rightarrow> string list list" where
  \<comment> \<open>one section for every instance of the process; none when there is no such process\<close>
  "investigate env parse pid content =
     (let (g, e, timeline) = fold (investigate_line env parse pid) (lines content)
            (graph_new USIZE_MAX (FOREVER_SECS * NANOS), engine_new Info, []);
          subjects = map pn_key (filter (\<lambda>n. pk_pid (pn_key n) = pid) (hm_values (g_nodes g)))
      in List.map_filter (\<lambda>k. map_option (show_subject env g e timeline k) (graph_get g k)) subjects)"

section \<open>Properties\<close>

lemma investigate_fold:
  "fold (investigate_line env parse pid) ls (g, e, t) = (g', e', t') \<Longrightarrow>
     g' = fold apply_event (capture_events (map parse (filter (\<lambda>l. trim l \<noteq> []) ls))) g
     \<and> t' = t @ filter (\<lambda>ev. ev_tgid ev = pid) (capture_events (map parse (filter (\<lambda>l. trim l \<noteq> []) ls)))"
proof (induction ls arbitrary: g e t)
  case (Cons l ls)
  obtain g1 e1 t1 where s: "investigate_line env parse pid l (g, e, t) = (g1, e1, t1)" by (metis prod_cases3)
  with Cons.prems have "fold (investigate_line env parse pid) ls (g1, e1, t1) = (g', e', t')" by simp
  from Cons.IH [OF this] s show ?case
    by (auto simp: investigate_line_def Let_def capture_events_def List.map_filter_simps split: if_splits option.splits)
qed (simp add: capture_events_def List.map_filter_simps)

lemma fold_apply_wf: "graph_wf g \<Longrightarrow> list_all fork_ok evs \<Longrightarrow> graph_wf (fold apply_event evs g)"
  by (induction evs arbitrary: g) (simp_all add: apply_event_wf)

lemma length_map_filter_all: "(\<And>x. x \<in> set xs \<Longrightarrow> f x \<noteq> None) \<Longrightarrow> length (List.map_filter f xs) = length xs"
  by (induction xs) (auto simp: List.map_filter_simps split: option.splits)

text \<open>
  An investigation misses no instance. However often a process id was reused in a capture, there is one section
  for each process that had it, built from the graph of the whole capture.
\<close>

theorem investigate_complete:
  assumes "list_all fork_ok (capture_events (capture parse content))"
  shows "length (investigate env parse pid content) = card {k. pk_pid k = pid
     \<and> graph_get (fold apply_event (capture_events (capture parse content)) (graph_new USIZE_MAX (FOREVER_SECS * NANOS))) k \<noteq> None}"
proof -
  obtain g e t where f: "fold (investigate_line env parse pid) (lines content) (graph_new USIZE_MAX (FOREVER_SECS * NANOS), engine_new Info, []) = (g, e, t)"
    by (metis prod_cases3)
  have g: "fold apply_event (capture_events (capture parse content)) (graph_new USIZE_MAX (FOREVER_SECS * NANOS)) = g"
    using investigate_fold [OF f] by (simp add: capture_def)
  have wf: "graph_wf g" unfolding g [symmetric] by (rule fold_apply_wf [OF graph_new_wf assms])
  let ?ks = "map pn_key (filter (\<lambda>n. pk_pid (pn_key n) = pid) (hm_values (g_nodes g)))"
  have "distinct (map pn_key (hm_values (g_nodes g)))"
  proof -
    have "map pn_key (hm_values (g_nodes g)) = map fst (g_nodes g)"
      unfolding hm_values_def map_map
    proof (rule map_cong [OF refl])
      fix x assume "x \<in> set (g_nodes g)"
      then have "graph_get g (fst x) = Some (snd x)" using wf_ok(1) [OF wf]
        by (metis graph_get_def hm_get_def hm_ok_def map_of_eq_Some_iff prod.collapse)
      then show "(pn_key \<circ> snd) x = fst x" using wf_key [OF wf] by simp
    qed
    then show ?thesis using wf_ok(1) [OF wf] by (simp add: hm_ok_def)
  qed
  then have "distinct ?ks" by (simp add: distinct_map inj_on_def)
  moreover have ks: "set ?ks = {k. pk_pid k = pid \<and> graph_get g k \<noteq> None}"
  proof (intro set_eqI iffI)
    fix k assume "k \<in> {k. pk_pid k = pid \<and> graph_get g k \<noteq> None}"
    then obtain n where n: "pk_pid k = pid" "graph_get g k = Some n" by auto
    then show "k \<in> set ?ks" using wf_values [OF wf, of n] wf_key [OF wf n(2)] by force
  qed (use wf_values [OF wf] in auto)
  moreover have "length (investigate env parse pid content) = length ?ks"
  proof -
    have "investigate env parse pid content = List.map_filter (\<lambda>k. map_option (show_subject env g e t k) (graph_get g k)) ?ks"
      by (simp add: investigate_def f Let_def)
    then show ?thesis using length_map_filter_all [of ?ks "\<lambda>k. map_option (show_subject env g e t k) (graph_get g k)"] ks by simp
  qed
  ultimately show ?thesis unfolding g by (metis distinct_card)
qed

theorem investigate_complete_witness:
  "length (investigate env (\<lambda>_. Some (fork_event 1 0 2 1 10)) 2 ''x'') = card {k. pk_pid k = 2
     \<and> graph_get (fold apply_event (capture_events (capture (\<lambda>_. Some (fork_event 1 0 2 1 10)) ''x'')) (graph_new USIZE_MAX (FOREVER_SECS * NANOS))) k \<noteq> None}"
proof (rule investigate_complete)
  have "fork_ok (fork_event 1 0 2 1 10)" by (simp add: fork_ok_def event_evals)
  then show "list_all fork_ok (capture_events (capture (\<lambda>_. Some (fork_event 1 0 2 1 10)) ''x''))"
    by (auto simp: list_all_iff capture_events_def capture_def set_map_filter)
qed

text \<open>
  A configuration that cannot work never starts a server. The command goes on to serve exactly if the severity is one of the five,
  a webhook's address can be used and its certificate read, no certificate is given for a webhook that is not, the key file loads, and
  TLS has both of its files or neither.
\<close>

theorem serve_cmd_accepts:
  "(\<exists>r. serve_cmd a = Inr r) \<longleftrightarrow>
     parse_min_severity (sa_min_severity a) \<noteq> None
   \<and> (case sa_webhook a of None \<Rightarrow> sa_webhook_ca a = None
      | Some url \<Rightarrow> split_url url \<noteq> None \<and> (\<nexists>e. sa_webhook_ca a = Some (Inl e)))
   \<and> (case sa_keys a of None \<Rightarrow> True | Some (content, mode) \<Rightarrow> \<exists>ks. keys_load content mode = Inr ks)
   \<and> (sa_tls_cert a = None) = (sa_tls_key a = None)"
proof -
  have s: "(\<exists>r. alert_sinks a = Inr r) \<longleftrightarrow> (case sa_webhook a of None \<Rightarrow> sa_webhook_ca a = None
      | Some url \<Rightarrow> split_url url \<noteq> None \<and> (\<nexists>e. sa_webhook_ca a = Some (Inl e)))"
    by (auto simp: alert_sinks_def Let_def split: option.splits sum.splits)
  have t: "(\<exists>r. tls_files a = Inr r) \<longleftrightarrow> (sa_tls_cert a = None) = (sa_tls_key a = None)"
    by (auto simp: tls_files_def split: option.splits)
  show ?thesis unfolding s [symmetric] t [symmetric]
    by (auto simp: serve_cmd_def split: option.splits sum.splits)
qed

end
