(* ===== verification/Delivery.thy ===== *)
theory Delivery
  imports Cli Pipeline
begin

text \<open>
  Alerts on their way out: the HTTP client with its two ways of trusting a server (\<^verbatim>\<open>src/http.rs\<close>), and the dispatcher's
  deliveries to its sinks (\<^verbatim>\<open>deliver\<close> and \<^verbatim>\<open>deliver_all\<close> of \<^verbatim>\<open>src/notify.rs\<close>). The network is a parameter: what is at an
  address, what it presents and what it answers. Of the TLS library it is used that a session is set up only with a peer whose certificate
  the configured verifier accepts.
\<close>

section \<open>The client\<close>

record peer =
  pe_cert :: "u8 list"
  pe_answer :: "string \<Rightarrow> string option"  \<comment> \<open>the response to a request; \<open>None\<close> when it cannot be written\<close>

text \<open>The system's store of roots: what loading gives, the certificates that could be added, and the library's check against them.\<close>

record trust_store =
  ts_roots :: "u8 list list option"
  ts_usable :: "u8 list \<Rightarrow> bool"
  ts_verifies :: "u8 list list \<Rightarrow> string \<Rightarrow> u8 list \<Rightarrow> bool"
  ts_valid_name :: "string \<Rightarrow> bool"

definition pinned_verify :: "u8 list \<Rightarrow> u8 list \<Rightarrow> bool" where
  "pinned_verify der end_entity \<longleftrightarrow> end_entity = der"

text \<open>The verifier a session is set up with, by name of the server.\<close>

definition tls_conn :: "trust_store \<Rightarrow> tls \<Rightarrow> string \<Rightarrow> string + (u8 list \<Rightarrow> bool)" where
  "tls_conn ts t name =
     (let verifier = (case t of
            Tls_pinned der \<Rightarrow> Inr (pinned_verify der)
          | System_roots \<Rightarrow>
              (case ts_roots ts of None \<Rightarrow> Inl ''loading the system certificate store''
               | Some found \<Rightarrow>
                   let roots = filter (ts_usable ts) found
                   in if roots = [] then Inl ''system certificate store is empty; pass a pinned certificate''
                      else Inr (ts_verifies ts roots name)))
      in case verifier of Inl e \<Rightarrow> Inl e
         | Inr v \<Rightarrow> if ts_valid_name ts name then Inr v else Inl (name @ '' is not a valid DNS name for TLS''))"

definition load_pinned_cert :: "string \<Rightarrow> (string \<Rightarrow> string option) \<Rightarrow> (string \<Rightarrow> u8 list list option) \<Rightarrow> string + u8 list" where
  "load_pinned_cert path read certs =
     (case read path of None \<Rightarrow> Inl (''reading pinned cert '' @ path)
      | Some pem \<Rightarrow>
          (case certs pem of None \<Rightarrow> Inl ''parsing pinned cert''
           | Some [] \<Rightarrow> Inl ''pinned cert file has no certificate''
           | Some (der # _) \<Rightarrow> Inr der))"

text \<open>
  One request: the answer's status line or an error, and what was written, to whom. \<open>connect\<close> gives the peer at an address, and
  \<open>handshake\<close> whether the library sets up a session with it under a verifier.
\<close>

definition status_of :: "string \<Rightarrow> string" where
  "status_of resp = (case lines resp of [] \<Rightarrow> [] | l # _ \<Rightarrow> l)"

definition send_to :: "peer \<Rightarrow> string \<Rightarrow> string \<Rightarrow> (string + string) \<times> (peer \<times> string) list" where
  "send_to p err req = (case pe_answer p req of None \<Rightarrow> (Inl err, []) | Some resp \<Rightarrow> (Inr (status_of resp), [(p, req)]))"

definition http_post :: "(string \<Rightarrow> peer option) \<Rightarrow> trust_store \<Rightarrow> ((u8 list \<Rightarrow> bool) \<Rightarrow> peer \<Rightarrow> bool)
    \<Rightarrow> string \<Rightarrow> (string \<times> string) list \<Rightarrow> string \<Rightarrow> string \<Rightarrow> tls \<Rightarrow> (string + string) \<times> (peer \<times> string) list" where
  "http_post connect ts handshake url headers content_type body t =
     (case split_url url of None \<Rightarrow> (Inl ''URL must start with http:// or https://'', [])
      | Some (sch, hostport, path) \<Rightarrow>
          let req = post_request path hostport headers content_type body
          in (case connect hostport of None \<Rightarrow> (Inl (''connecting to '' @ hostport), [])
              | Some p \<Rightarrow>
                  (case sch of
                     Http \<Rightarrow> send_to p ''sending request'' req
                   | Https \<Rightarrow>
                       (case tls_conn ts t (hd (split_on (CHR '':'') hostport)) of
                          Inl e \<Rightarrow> (Inl e, [])
                        | Inr v \<Rightarrow> if handshake v p then send_to p ''TLS write'' req else (Inl ''TLS write'', [])))))"

section \<open>Delivery\<close>

definition alert_json :: "(json \<Rightarrow> string) \<Rightarrow> alert \<Rightarrow> string" where
  "alert_json show a = show (json_obj
     [(''text'', json_str (summary a)), (''source'', json_str ''kernelsentinel''), (''host'', json_str (al_host a)),
      (''severity'', json_str (al_severity a)), (''score'', json_num (al_score a)), (''subject'', json_str (al_subject a)),
      (''cmdline'', json_str (al_cmdline a)), (''attack'', json_strs (al_attack a))])"

text \<open>
  What leaves: a request to a webhook's peer or a datagram to a socket. \<open>post\<close> is the client, \<open>datagram\<close> whether a socket takes a
  message.
\<close>

datatype outgoing = Out_request peer string | Out_datagram string string

type_synonym poster = "string \<Rightarrow> (string \<times> string) list \<Rightarrow> string \<Rightarrow> string \<Rightarrow> tls \<Rightarrow> (string + string) \<times> (peer \<times> string) list"

definition deliver_to :: "(json \<Rightarrow> string) \<Rightarrow> poster \<Rightarrow> (string \<Rightarrow> string \<Rightarrow> bool) \<Rightarrow> alert \<Rightarrow> sink \<Rightarrow> (string + unit) \<times> outgoing list" where
  "deliver_to show post datagram a s =
     (case s of
        Webhook url pinned \<Rightarrow>
          (case post url [] ''application/json'' (alert_json show a) (case pinned of Some der \<Rightarrow> Tls_pinned der | None \<Rightarrow> System_roots) of
             (Inl e, out) \<Rightarrow> (Inl e, map (\<lambda>(p, r). Out_request p r) out)
           | (Inr status, out) \<Rightarrow>
               (if is_ok status then Inr () else Inl (''webhook '' @ url @ '' returned '' @ status), map (\<lambda>(p, r). Out_request p r) out))
      | Syslog socket \<Rightarrow>
          if datagram socket (syslog_message a) then (Inr (), [Out_datagram socket (syslog_message a)])
          else (Inl ''sending the datagram'', []))"

text \<open>A failure is logged and the next sink gets its turn: what left, and the errors.\<close>

definition deliver_all :: "(json \<Rightarrow> string) \<Rightarrow> poster \<Rightarrow> (string \<Rightarrow> string \<Rightarrow> bool) \<Rightarrow> sink list \<Rightarrow> alert \<Rightarrow> outgoing list \<times> string list" where
  "deliver_all show post datagram sinks a =
     fold (\<lambda>s (out, log). case deliver_to show post datagram a s of
             (Inl e, o1) \<Rightarrow> (out @ o1, log @ [''kernelsentinel: alert delivery failed: '' @ e])
           | (Inr _, o1) \<Rightarrow> (out @ o1, log)) sinks ([], [])"

definition dispatch_out :: "(json \<Rightarrow> string) \<Rightarrow> poster \<Rightarrow> (string \<Rightarrow> string \<Rightarrow> bool) \<Rightarrow> sink list \<Rightarrow> delivery list \<Rightarrow> outgoing list" where
  "dispatch_out show post datagram sinks ds = concat (map (\<lambda>d. fst (deliver_all show post datagram sinks (delivered d))) ds)"

section \<open>A dead sink silences no other\<close>

lemma deliver_all_eq:
  "deliver_all show post datagram sinks a =
     (concat (map (\<lambda>s. snd (deliver_to show post datagram a s)) sinks),
      List.map_filter (\<lambda>s. case fst (deliver_to show post datagram a s) of
         Inl e \<Rightarrow> Some (''kernelsentinel: alert delivery failed: '' @ e) | Inr _ \<Rightarrow> None) sinks)"
proof -
  have "fold (\<lambda>s (out, log). case deliver_to show post datagram a s of
             (Inl e, o1) \<Rightarrow> (out @ o1, log @ [''kernelsentinel: alert delivery failed: '' @ e])
           | (Inr _, o1) \<Rightarrow> (out @ o1, log)) sinks (out, log)
      = (out @ concat (map (\<lambda>s. snd (deliver_to show post datagram a s)) sinks),
         log @ List.map_filter (\<lambda>s. case fst (deliver_to show post datagram a s) of
           Inl e \<Rightarrow> Some (''kernelsentinel: alert delivery failed: '' @ e) | Inr _ \<Rightarrow> None) sinks)" for out log
    by (induction sinks arbitrary: out log) (auto simp: List.map_filter_def split: sum.splits prod.splits)
  then show ?thesis by (simp add: deliver_all_def)
qed

text \<open>
  C27 (safety): A dead webhook does not silence syslog. Whatever the other sinks do, an alert that is not suppressed is written to a
  syslog socket that takes it, and every failure leaves a line in the log, one for each sink that failed.
\<close>

theorem sinks_independent:
  assumes "dispatch m xs d = (out, d')" and "Sent a \<in> set out" and "Syslog socket \<in> set sinks" and "datagram socket (syslog_message a)"
  shows "Out_datagram socket (syslog_message a) \<in> set (dispatch_out show post datagram sinks out)
    \<and> length (snd (deliver_all show post datagram sinks a))
        = length (filter (\<lambda>s. \<exists>e. fst (deliver_to show post datagram a s) = Inl e) sinks)"
proof -
  have "Out_datagram socket (syslog_message a) \<in> set (fst (deliver_all show post datagram sinks a))"
    unfolding deliver_all_eq using assms(3,4) by (force simp: deliver_to_def)
  then have "Out_datagram socket (syslog_message a) \<in> set (dispatch_out show post datagram sinks out)"
    using assms(2) unfolding dispatch_out_def by (force simp: delivered_def)
  moreover have "length (List.map_filter (\<lambda>s. case f s of Inl (e :: string) \<Rightarrow> Some (g e) | Inr _ \<Rightarrow> None) ss)
      = length (filter (\<lambda>s. \<exists>e. f s = Inl e) ss)" for f :: "sink \<Rightarrow> string + unit" and g :: "string \<Rightarrow> string" and ss
    by (induction ss) (auto simp: List.map_filter_def split: sum.splits)
  ultimately show ?thesis by (simp add: deliver_all_eq)
qed

section \<open>Whom a request reaches\<close>


theorem sinks_independent_witness:
  "let out = fst (dispatch 1 [(5, 6, some_alert)] (dispatch_start 1))
   in Out_datagram ''/dev/log'' (syslog_message some_alert)
        \<in> set (dispatch_out (\<lambda>_. []) (\<lambda>_ _ _ _ _. (Inl ''unreachable'', [])) (\<lambda>_ _. True) [Webhook ''http://chat/'' None, Syslog ''/dev/log''] out)"
proof -
  obtain out d where o: "dispatch 1 [(5, 6, some_alert)] (dispatch_start 1) = (out, d)" by fastforce
  then have sent: "Sent some_alert \<in> set out" by (auto simp: dispatch_step_def dispatch_start_def Let_def split: if_splits)
  show ?thesis unfolding o Let_def fst_conv by (rule sinks_independent [OF o sent, THEN conjunct1]) simp_all
qed


end
