(* ===== verification/Typing.thy ===== *)
theory Typing
  imports Session
begin

text \<open>
  The type of text. A Rust string is valid UTF-8, and slicing one inside a character stops the program. The model's strings
  are byte lists; that they are text is a typing judgement, proved here for what the decoder and the redaction make.
\<close>

abbreviation ascii :: "char \<Rightarrow> bool" where
  "ascii c \<equiv> (of_char c :: nat) < 128"

lemma ascii_not_cont: "ascii c \<Longrightarrow> \<not> is_cont (of_char c)"
  using unat_of_nat [of "of_char c", where 'a = 8] by (simp add: of_nat_of_char is_cont_def word_le_nat_alt)

text \<open>Text can be cut before an ASCII character.\<close>

lemma text_ok_split:
  assumes "text_ok (a @ c # b)" and "ascii c"
  shows "text_ok a" and "text_ok (c # b)" and "text_ok b"
proof -
  have v: "utf8_valid (map of_char a @ of_char c # map of_char b)" using assms(1) by (simp add: text_ok_def)
  from utf8_take [OF this, of "length a"] have a: "utf8_valid (map of_char a)" using ascii_not_cont [OF assms(2)] by (simp add: nth_append)
  then show "text_ok a" by (simp add: text_ok_def)
  from utf8_valid_append [OF a] v have cb: "utf8_valid (of_char c # map of_char b)" by simp
  then show "text_ok (c # b)" by (simp add: text_ok_def)
  have "utf8_valid [of_char c]" using ascii_text [of "[c]"] assms(2) by (simp add: text_ok_def)
  from utf8_valid_append [OF this, of "map of_char b"] cb show "text_ok b" by (simp add: text_ok_def)
qed

lemma text_ok_around: "text_ok (a @ w @ b) \<Longrightarrow> list_all ascii w \<Longrightarrow> w \<noteq> [] \<Longrightarrow> text_ok a \<and> text_ok b"
proof (induction w arbitrary: a)
  case (Cons c w)
  from text_ok_split [of a c "w @ b"] Cons.prems have ok: "text_ok a" "text_ok (w @ b)" by simp_all
  show ?case
  proof (cases "w = []")
    case False
    then show ?thesis using Cons.IH [of "[]"] ok Cons.prems(2) by simp
  qed (use ok in simp)
qed simp

lemma redacted_text: "text_ok REDACTED"
  by (simp add: REDACTED_def ascii_text)

lemma lower_ascii: "to_ascii_lowercase m = h \<Longrightarrow> list_all ascii h \<Longrightarrow> list_all ascii m"
proof (induction m arbitrary: h)
  case (Cons c m)
  have "ascii c" if "ascii (ascii_lower c)" using that by (auto simp: ascii_lower_def Let_def split: if_splits)
  then show ?case using Cons by (auto simp: to_ascii_lowercase_def)
qed (simp add: to_ascii_lowercase_def)

lemma header_cut_text:
  assumes "header_secret_cut arg = Some n"
  shows "text_ok (take n arg)"
proof -
  obtain q m r where a: "arg = q @ m @ r" "list_all is_quote q" "to_ascii_lowercase m \<in> set HEADERS" "n = length (q @ m)"
    using header_cut_Some [OF assms [unfolded header_secret_cut_def]] by blast
  have "list_all (list_all ascii) HEADERS" by (simp add: HEADERS_def)
  then have "list_all ascii (to_ascii_lowercase m)" using a(3) unfolding list_all_iff [of "list_all ascii"] by blast
  then have "list_all ascii m" by (rule lower_ascii [OF refl])
  moreover have "list_all ascii q" using a(2) by (rule list.pred_mono_strong) (auto simp: is_quote_def)
  ultimately have "text_ok (q @ m)" by (intro ascii_text) simp
  then show ?thesis using a(1,4) by simp
qed

lemma str_find_text:
  assumes "text_ok s" and "str_find w s = Some i" and "list_all ascii w" and "w \<noteq> []"
  shows "text_ok (take i s)" and "text_ok (drop (i + length w) s)" and "take (i + length w) s = take i s @ w" and "drop i s = w @ drop (i + length w) s"
proof -
  obtain r where r: "s = take i s @ w @ r" "i + length w \<le> length s" using str_find_Some [OF assms(2)] by blast
  then have d: "drop i s = w @ r" by (metis append_take_drop_id same_append_eq)
  then have dr: "drop (i + length w) s = r" by (metis add.commute append_eq_conv_conj drop_drop)
  then show "drop i s = w @ drop (i + length w) s" using d by simp
  show "take (i + length w) s = take i s @ w" using d by (simp add: take_add)
  show "text_ok (take i s)" "text_ok (drop (i + length w) s)"
    using text_ok_around [of "take i s" w r] assms r(1) unfolding dr by simp_all
qed

lemma url_text:
  assumes "text_ok arg" and "redact_url_userinfo arg = Some r"
  shows "text_ok r"
proof -
  obtain i j k where s: "str_find ''://'' arg = Some i" "str_find ''@'' (drop (i + 3) arg) = Some j"
    "str_find '':'' (take j (drop (i + 3) arg)) = Some k"
    and r: "r = take (i + 3) arg @ take k (take j (drop (i + 3) arg)) @ '':'' @ REDACTED @ drop j (drop (i + 3) arg)"
    using assms(2) by (auto simp: redact_url_userinfo_def Let_def split: option.splits)
  have w: "text_ok ''://''" "text_ok '':''" "text_ok ''@''" by (simp_all add: ascii_text)
  note f1 = str_find_text [OF assms(1) s(1)]
  have t1: "text_ok (take (i + 3) arg)" and rest: "text_ok (drop (i + 3) arg)"
    using f1 w(1) by (simp_all add: text_ok_append numeral_3_eq_3)
  note f2 = str_find_text [OF rest s(2)]
  have ui: "text_ok (take j (drop (i + 3) arg))" using f2(1) by simp
  have t3: "text_ok (drop j (drop (i + 3) arg))" using f2(2,4) text_ok_append [OF w(3)] by simp
  have t2: "text_ok (take k (take j (drop (i + 3) arg)))" using str_find_text(1) [OF ui s(3)] by simp
  show ?thesis unfolding r by (intro text_ok_append t1 t2 t3 redacted_text w)
qed

lemma classify_text:
  assumes "text_ok arg" and "classify sp arg nx = Replace r"
  shows "text_ok r"
proof (cases "long_flag arg")
  case (Some act)
  then obtain flag v where "split_once (CHR ''='') arg = Some (flag, v)" and r: "r = flag @ ''='' @ REDACTED"
    using assms(2) by (auto simp: long_flag_def classify_def split: if_splits option.splits)
  then have "text_ok flag" using text_ok_split(1) [of flag "CHR ''=''" v] assms(1) by (simp add: split_once_Some)
  then show ?thesis unfolding r by (intro text_ok_append redacted_text) (simp_all add: ascii_text)
next
  case None
  have p: "text_ok (''-p'' @ REDACTED)" "text_ok (''pass:'' @ REDACTED)"
    by (intro text_ok_append redacted_text, simp add: ascii_text)+
  show ?thesis
    using assms(2) None p header_cut_text url_text [OF assms(1)] redacted_text
    by (auto simp: classify_def intro!: text_ok_append split: if_splits option.splits)
qed

lemma redact_go_text: "list_all text_ok args \<Longrightarrow> list_all text_ok (redact_go sp rn args)"
  by (induction sp rn args rule: redact_go.induct) (auto simp: redacted_text classify_text split: action.splits)

lemma lossy_text: "text_ok (from_utf8_lossy bs)"
proof -
  have "(of_char (char_of (unat b)) :: u8) = b" for b
    using unsigned_less [of b, where 'a = nat] of_nat_of_char [of "char_of (unat b)", where 'a = u8] by simp
  then show ?thesis using utf8_valid_lossy [of bs] by (simp add: text_ok_def from_utf8_lossy_def text_of_def comp_def)
qed

text \<open>
  C31 (type): Everything the decoder calls text is text. Whatever bytes the kernel wrote, the command name, the path and every
  argument of the decoded event are valid UTF-8, also where the redaction replaced a part of an argument: it cuts between characters only.
\<close>

theorem decoded_text:
  "text_ok (ev_comm (event_from_raw raw)) \<and> text_ok (ev_filename (event_from_raw raw)) \<and> list_all text_ok (ev_argv (event_from_raw raw))"
proof -
  have "list_all text_ok (raw_argv raw)" by (auto simp: raw_argv_def Let_def list_all_iff lossy_text)
  then have "list_all text_ok (Redact.argv (raw_argv raw))" unfolding Redact.argv_def by (rule redact_go_text)
  moreover have "text_ok (cstr_lossy bs)" for bs by (simp add: cstr_lossy_def lossy_text)
  ultimately show ?thesis by (simp add: event_from_raw_def raw_comm_def raw_filename_def)
qed

end
