(* ===== verification/Server_Inv.thy ===== *)
theory Server_Inv
  imports Server_Props
begin

text \<open>
  The running server as a state machine: requests of any kind, polls that end and alerts that are taken
  from the queue, in any order, from a fresh start on. It composes the store, the accounts, the login
  limiter and the notifier.
\<close>

section \<open>Requests are steps of the store\<close>

text \<open>What is relied on of the JSON library: a value it parsed survives being printed and parsed again.\<close>

definition lib_ok :: "libs \<Rightarrow> bool" where
  "lib_ok lib \<longleftrightarrow> (\<forall>l v. lb_parse lib l = Some v \<longrightarrow> lb_parse lib (lb_print lib v) = Some v)"

abbreviation lib_steps :: "libs \<Rightarrow> u64 \<times> store \<Rightarrow> u64 \<times> store \<Rightarrow> bool" where
  "lib_steps lib \<equiv> (store_step (lb_print lib) (lb_parse lib))\<^sup>*\<^sup>*"

text \<open>No operation but ingest draws a number, and each draws one.\<close>

lemma next_id_ingest: "so_next_id (ingest print now host kern ip v s) = so_next_id s + 1"
  by (simp add: ingest_def apply_incident_def maybe_prune_def Let_def split: option.splits)

lemma next_id_heartbeat: "so_next_id (store_heartbeat now host kern ip hb s) = so_next_id s"
  by (simp add: store_heartbeat_def Let_def)

lemma unat_plus1: "unat (w :: u64) + 1 < 2 ^ 63 \<Longrightarrow> unat (w + 1) = unat w + 1"
  using unat_add_lem [of w 1] by simp

lemma ingest_line_steps:
  assumes lib: "lib_ok lib" and now: "clock \<le> tm_secs tm" "tm_secs tm < 2 ^ 63" and nx: "unat (so_next_id (sv_store sv)) + 1 < 2 ^ 63"
    and l: "ingest_line lib tm host kern ip line (sv, n, b) = (sv', n', b')"
  shows "\<exists>c. lib_steps lib (clock, sv_store sv) (c, sv_store sv') \<and> c \<le> tm_secs tm
    \<and> unat (so_next_id (sv_store sv')) \<le> unat (so_next_id (sv_store sv)) + 1"
proof -
  have small: "so_next_id (sv_store sv) < 2 ^ 63 - 1" using nx by (simp add: word_less_nat_alt)
  have up: "unat (so_next_id (sv_store sv) + 1) = unat (so_next_id (sv_store sv)) + 1" using unat_plus1 nx by blast
  have ing: "lib_steps lib (clock, sv_store sv) (tm_secs tm, ingest (lb_print lib) (tm_secs tm) host kern ip v (sv_store sv))"
    if "lb_parse lib line = Some v" for v
    using step_ingest [OF now small, of "lb_parse lib" "lb_print lib" v] lib that by (auto simp: lib_ok_def)
  have hb: "lib_steps lib (clock, sv_store sv) (tm_secs tm, store_heartbeat (tm_secs tm) host kern ip hb (sv_store sv))" for hb
    using step_heartbeat [OF now] by blast
  consider (same) "sv' = sv"
    | (inc) v where "lb_parse lib line = Some v" "sv_store sv' = ingest (lb_print lib) (tm_secs tm) host kern ip v (sv_store sv)"
    | (beat) hb where "sv_store sv' = store_heartbeat (tm_secs tm) host kern ip hb (sv_store sv)"
    using l by (auto simp: ingest_line_def push_alert_def split: if_splits option.splits)
  then show ?thesis
  proof cases
    case same
    then show ?thesis using now(1) by (auto intro: exI [of _ clock])
  next
    case inc
    then show ?thesis using ing [OF inc(1)] up by (auto simp: next_id_ingest)
  next
    case beat
    then show ?thesis using hb by (auto simp: next_id_heartbeat)
  qed
qed

lemma ingest_lines_steps:
  assumes lib: "lib_ok lib" and "clock \<le> tm_secs tm" and now: "tm_secs tm < 2 ^ 63"
    and "unat (so_next_id (sv_store sv)) + length ls < 2 ^ 63"
    and "fold (ingest_line lib tm host kern ip) ls (sv, n, b) = (sv', n', b')"
  shows "\<exists>c. lib_steps lib (clock, sv_store sv) (c, sv_store sv') \<and> c \<le> tm_secs tm"
  using assms(2,4,5)
proof (induction ls arbitrary: clock sv n b)
  case (Cons l ls)
  obtain sv1 n1 b1 where s: "ingest_line lib tm host kern ip l (sv, n, b) = (sv1, n1, b1)" by (metis prod_cases3)
  have nx: "unat (so_next_id (sv_store sv)) + 1 < 2 ^ 63" using Cons.prems(2) by simp
  obtain c1 where c1: "lib_steps lib (clock, sv_store sv) (c1, sv_store sv1)" "c1 \<le> tm_secs tm"
    "unat (so_next_id (sv_store sv1)) \<le> unat (so_next_id (sv_store sv)) + 1"
    using ingest_line_steps [OF lib Cons.prems(1) now nx s] by blast
  have "unat (so_next_id (sv_store sv1)) + length ls < 2 ^ 63" using c1(3) Cons.prems(2) by simp
  from Cons.IH [OF c1(2) this] Cons.prems(3) s obtain c where
    "lib_steps lib (c1, sv_store sv1) (c, sv_store sv')" "c \<le> tm_secs tm" by auto
  then show ?case using c1(1) by (meson rtranclp_trans)
qed auto

lemma length_lines: "length (lines b) \<le> Suc (length b)"
proof -
  have "length (split_on c b) \<le> Suc (length b)" for c by (simp add: length_split_on count_le_length)
  then show ?thesis by (simp add: lines_def Let_def le_diff_conv) (meson le_SucI)
qed

lemma read_body_length: "read_body req limit = Some b \<Longrightarrow> length b \<le> limit"
  by (auto simp: read_body_def read_capped_def text_of_def Let_def split: if_splits option.splits)

lemma handle_ingest_steps:
  assumes lib: "lib_ok lib" and now: "clock \<le> tm_secs tm" "tm_secs tm < 2 ^ 63" and nx: "so_next_id (sv_store sv) < 2 ^ 62"
  shows "\<exists>c. lib_steps lib (clock, sv_store sv) (c, sv_store (snd (handle_ingest lib tm cfg req sv))) \<and> c \<le> tm_secs tm"
proof (cases "agent_host cfg req")
  case (Inr host)
  show ?thesis
  proof (cases "read_body req MAX_INGEST_BODY")
    case (Some b)
    let ?kern = "unwrap_or [] (header req ''X-Sentinel-Kernel'')" and ?ip = "unwrap_or [] (header req ''X-Sentinel-Ip'')"
    obtain sv' n beats where f: "fold (ingest_line lib tm host ?kern ?ip) (lines b) (sv, 0, 0) = (sv', n, beats)" by (metis prod_cases3)
    have "length (lines b) \<le> 2 ^ 24" using length_lines [of b] read_body_length [OF Some] by (simp add: MAX_INGEST_BODY_def)
    moreover have "unat (so_next_id (sv_store sv)) < 2 ^ 62" using nx by (simp add: word_less_nat_alt)
    ultimately have "unat (so_next_id (sv_store sv)) + length (lines b) < 2 ^ 63" by simp
    from ingest_lines_steps [OF lib now this f] show ?thesis using Inr Some f by (auto simp: handle_ingest_def Let_def)
  qed (use now in \<open>auto simp: handle_ingest_def Inr\<close>)
qed (use now in \<open>auto simp: handle_ingest_def\<close>)

lemma handle_resolve_steps:
  assumes now: "clock \<le> tm_secs tm" "tm_secs tm < 2 ^ 63"
  shows "\<exists>c. lib_steps lib (clock, sv_store sv) (c, sv_store (snd (handle_resolve lib tm u req sv))) \<and> c \<le> tm_secs tm"
proof -
  let ?v = "form_json lib req"
  let ?h = "unwrap_or [] (get_str ''host'' ?v)" and ?i = "unwrap_or 0 (get_u64 ''id'' ?v)"
  let ?s = "snd (triage (tm_secs tm) ?h ?i u (get_str ''note'' ?v) (get_bool ''resolved'' ?v) (sv_store sv))"
  have t: "lib_steps lib (clock, sv_store sv) (tm_secs tm, ?s)" using step_triage [OF now] by blast
  moreover have "lib_steps lib (clock, sv_store sv) (tm_secs tm, snd (mark_expected (tm_secs tm) ?h ?i u ?s))"
    using t step_expect [OF order_refl now(2)] by (meson rtranclp.rtrancl_into_rtrancl)
  ultimately show ?thesis by (auto simp: handle_resolve_def Let_def case_prod_beta)
qed

lemma serve_one_steps:
  assumes lib: "lib_ok lib" and now: "clock \<le> tm_secs tm" "tm_secs tm < 2 ^ 63" and nx: "so_next_id (sv_store sv) < 2 ^ 62"
  shows "\<exists>c. lib_steps lib (clock, sv_store sv) (c, sv_store (snd (serve_one lib tm cfg secret req sv))) \<and> c \<le> tm_secs tm"
proof (cases "handle lib tm cfg secret req sv")
  case Panic
  then show ?thesis using now by (auto simp: serve_one_def)
next
  case (Ret x)
  obtain r sv' where x: "x = (r, sv')" by (cases x)
  have sv': "snd (serve_one lib tm cfg secret req sv) = sv'" by (simp add: serve_one_def Ret x)
  have cr: "lib_steps lib (clock, sv_store sv) (tm_secs tm, sv_store (snd (handle_create lib tm req sv)))"
    using step_create [OF now, of "lb_print lib" "lb_parse lib" "sv_store sv" "lb_hash_pw lib" "unwrap_or [] (get_str ''username'' (form_json lib req))"
      "unwrap_or [] (get_str ''password'' (form_json lib req))" "unwrap_or ''admin'' (get_str ''role'' (form_json lib req))"]
    by (auto simp: handle_create_def Let_def split: prod.splits sum.splits)
  have dl: "lib_steps lib (clock, sv_store sv) (tm_secs tm, sv_store (snd (handle_delete lib req sv)))"
    using step_delete [OF now, of "lb_print lib" "lb_parse lib" "sv_store sv" "unwrap_or [] (get_str ''username'' (form_json lib req))"]
    by (auto simp: handle_delete_def Let_def split: prod.splits sum.splits)
  have same: ?thesis if "sv_store sv' = sv_store sv" using that now sv' by auto
  from handle_outcomes [OF Ret [unfolded x]] show ?thesis
    using handle_ingest_steps [OF assms, of cfg req] handle_resolve_steps [OF now] cr dl same unfolding sv' by fastforce
qed

section \<open>The other parts\<close>

definition queue_ok :: "(u8 \<times> alert list) option \<Rightarrow> bool" where
  "queue_ok n \<longleftrightarrow> (case n of None \<Rightarrow> True | Some (_, q) \<Rightarrow> length q \<le> QUEUE)"

lemma notify_bounded: "length q \<le> QUEUE \<Longrightarrow> length (fst (notify m a q)) \<le> QUEUE"
  by (simp add: notify_def)

lemma ingest_lines_queue:
  "queue_ok (sv_notifier sv) \<Longrightarrow> fold (ingest_line lib tm host kern ip) ls (sv, n, b) = (sv', n', b') \<Longrightarrow> queue_ok (sv_notifier sv')"
proof (induction ls arbitrary: sv n b)
  case (Cons l ls)
  obtain sv1 n1 b1 where s: "ingest_line lib tm host kern ip l (sv, n, b) = (sv1, n1, b1)" by (metis prod_cases3)
  have "queue_ok (sv_notifier sv1)"
    using s Cons.prems(1) by (auto simp: ingest_line_def push_alert_def queue_ok_def notify_bounded split: if_splits option.splits prod.splits)
  then show ?case using Cons s by simp
qed simp

lemma handle_ingest_rest:
  assumes "queue_ok (sv_notifier sv)"
  shows "queue_ok (sv_notifier (snd (handle_ingest lib tm cfg req sv))) \<and> sv_limiter (snd (handle_ingest lib tm cfg req sv)) = sv_limiter sv"
proof (cases "agent_host cfg req")
  case (Inr host)
  show ?thesis
  proof (cases "read_body req MAX_INGEST_BODY")
    case (Some b)
    let ?kern = "unwrap_or [] (header req ''X-Sentinel-Kernel'')" and ?ip = "unwrap_or [] (header req ''X-Sentinel-Ip'')"
    obtain sv' n beats where f: "fold (ingest_line lib tm host ?kern ?ip) (lines b) (sv, 0, 0) = (sv', n, beats)" by (metis prod_cases3)
    show ?thesis using ingest_lines_queue [OF assms f] ingest_lines_frame [OF f] Inr Some f by (auto simp: handle_ingest_def Let_def)
  qed (use assms in \<open>auto simp: handle_ingest_def Inr\<close>)
qed (use assms in \<open>auto simp: handle_ingest_def\<close>)

lemma handle_rest:
  "sv_notifier (snd (handle_resolve lib tm u req sv)) = sv_notifier sv" "sv_limiter (snd (handle_resolve lib tm u req sv)) = sv_limiter sv"
  "sv_notifier (snd (handle_create lib tm req sv)) = sv_notifier sv" "sv_limiter (snd (handle_create lib tm req sv)) = sv_limiter sv"
  "sv_notifier (snd (handle_delete lib req sv)) = sv_notifier sv" "sv_limiter (snd (handle_delete lib req sv)) = sv_limiter sv"
  by (simp_all add: handle_resolve_def handle_create_def handle_delete_def Let_def split: prod.splits sum.splits)

lemma serve_one_rest:
  assumes "queue_ok (sv_notifier sv)" and "hm_ok (sv_limiter sv)"
  shows "queue_ok (sv_notifier (snd (serve_one lib tm cfg secret req sv))) \<and> hm_ok (sv_limiter (snd (serve_one lib tm cfg secret req sv)))"
proof (cases "handle lib tm cfg secret req sv")
  case (Ret x)
  obtain r sv' where x: "x = (r, sv')" by (cases x)
  have sv': "snd (serve_one lib tm cfg secret req sv) = sv'" by (simp add: serve_one_def Ret x)
  from handle_outcomes [OF Ret [unfolded x]] show ?thesis
    using handle_ingest_rest [OF assms(1), of lib tm cfg req] assms unfolding sv' by (elim disjE) (auto simp: handle_rest)
qed (use assms in \<open>simp add: serve_one_def\<close>)

section \<open>The state machine\<close>

inductive server_step :: "libs \<Rightarrow> config \<Rightarrow> u8 list \<Rightarrow> u64 \<times> 'ip server \<Rightarrow> u64 \<times> 'ip server \<Rightarrow> bool" for lib cfg secret where
  step_request: "clock \<le> tm_secs tm \<Longrightarrow> tm_secs tm < 2 ^ 63 \<Longrightarrow> so_next_id (sv_store sv) < 2 ^ 62 \<Longrightarrow>
    server_step lib cfg secret (clock, sv) (tm_secs tm, snd (serve_one lib tm cfg secret req sv))"
| step_poll_ends: "server_step lib cfg secret (clock, sv) (clock, sv\<lparr>sv_bus := snd (finish_poll i (sv_bus sv))\<rparr>)"
| step_alert_taken: "sv_notifier sv = Some (m, a # q) \<Longrightarrow>
    server_step lib cfg secret (clock, sv) (clock, sv\<lparr>sv_notifier := Some (m, q)\<rparr>)"

definition server_init :: "libs \<Rightarrow> config \<Rightarrow> u8 list \<Rightarrow> u64 \<times> 'ip server \<Rightarrow> bool" where
  \<comment> \<open>a first start with a journal and an administrator password that can be seeded\<close>
  "server_init lib cfg secret = (\<lambda>(clock, sv). lib_ok lib \<and> clock < 2 ^ 63 \<and> length (cf_admin_password cfg) \<ge> 8
     \<and> (\<exists>tm retain fresh sinks. tm_secs tm = clock \<and> serve_start lib tm cfg (Some empty_db) retain fresh sinks = Ret (Inr (secret, sv))))"

definition server_ok :: "libs \<Rightarrow> u64 \<times> 'ip server \<Rightarrow> bool" where
  "server_ok lib = (\<lambda>(clock, sv). lib_ok lib \<and> clock < 2 ^ 63 \<and> store_invar (lb_print lib) (lb_parse lib) (clock, sv_store sv)
     \<and> accounts_ok (sv_store sv) \<and> queue_ok (sv_notifier sv) \<and> hm_ok (sv_limiter sv))"

lemma store_invar_later:
  "store_invar print parse (c, s) \<Longrightarrow> c \<le> now \<Longrightarrow> now < 2 ^ 63 \<Longrightarrow> store_invar print parse (now, s)"
  unfolding store_invar_def by (metis represents_tick snd_conv)

lemma server_step_ok:
  assumes "server_ok lib cs" and "server_step lib cfg secret cs cs'"
  shows "server_ok lib cs'"
  using assms(2)
proof (cases rule: server_step.cases)
  case (step_request clock tm sv req)
  let ?sv' = "snd (serve_one lib tm cfg secret req sv)"
  have ok: "lib_ok lib" "store_invar (lb_print lib) (lb_parse lib) (clock, sv_store sv)" "accounts_ok (sv_store sv)"
    "queue_ok (sv_notifier sv)" "hm_ok (sv_limiter sv)" using assms(1) by (auto simp: server_ok_def step_request(1))
  obtain c where c: "lib_steps lib (clock, sv_store sv) (c, sv_store ?sv')" "c \<le> tm_secs tm"
    using serve_one_steps [OF ok(1) step_request(3,4,5)] by blast
  have "store_invar (lb_print lib) (lb_parse lib) (tm_secs tm, sv_store ?sv')"
    using store_invar_later [OF sto.invar_steps [OF c(1) ok(2)] c(2) step_request(4)] .
  moreover have "accounts_ok (sv_store ?sv')" using accounts_steps [OF c(1)] ok(3) by simp
  ultimately show ?thesis using ok(1) step_request(2,4) serve_one_rest [OF ok(4,5)] by (simp add: server_ok_def)
qed (use assms(1) in \<open>auto simp: server_ok_def queue_ok_def\<close>)

lemma server_init_ok:
  assumes "server_init lib cfg secret cs"
  shows "server_ok lib cs"
proof -
  obtain clock sv where cs: "cs = (clock, sv)" by (cases cs)
  obtain tm retain fresh sinks where i: "lib_ok lib" "clock < 2 ^ 63" "length (cf_admin_password cfg) \<ge> 8" "tm_secs tm = clock"
    "serve_start lib tm cfg (Some empty_db) retain fresh sinks = Ret (Inr (secret, sv))"
    using assms by (auto simp: server_init_def cs)
  let ?s0 = "store_new\<lparr>so_db := Some (empty_db\<lparr>db_version := 4\<rparr>), so_retain_days := retain\<rparr>"
  have p: "persistent (lb_parse lib) (tm_secs tm) retain empty_db = Some ?s0"
    by (simp add: persistent_def migrate_def empty_db_def prune_def prune_rows_def store_new_def Let_def SCHEMA_VERSION_def)
  then have si: "store_init (clock, ?s0)" using i(2,4) by (auto simp: store_init_def)
  let ?s1 = "?s0\<lparr>so_db := Some (empty_db\<lparr>db_version := 4, db_secret := Some (hex fresh)\<rparr>)\<rparr>"
  let ?s2 = "snd (create_user (lb_hash_pw lib) (tm_secs tm) ''admin'' (cf_admin_password cfg) ''admin'' ?s1)"
  have ss: "session_secret fresh ?s0 = Ret (fresh, ?s1)"
    by (simp add: session_secret_def empty_db_def store_new_def)
  have eu: "db_users empty_db = []" by (simp add: empty_db_def)
  have sv: "sv_store sv = ?s2" "sv_limiter sv = hm_empty" "queue_ok (sv_notifier sv)"
    using i(5) by (auto simp: serve_start_def p ss has_users_def eu Let_def queue_ok_def split: prod.splits if_splits)
  have ti: "represents (lb_print lib) (lb_parse lib) [] (clock, ?s1) \<and> telemetry_ok ?s1"
    using init_represents [OF si, of "lb_print lib" "lb_parse lib"]
    by (auto simp: empty_db_def represents_def window_of_def telemetry_ok_def)
  then have "store_invar (lb_print lib) (lb_parse lib) (clock, ?s1)" by (auto simp: store_invar_def)
  moreover have "store_step (lb_print lib) (lb_parse lib) (clock, ?s1) (clock, ?s2)"
    using step_create [OF order_refl i(2)] i(4) by blast
  ultimately have "store_invar (lb_print lib) (lb_parse lib) (clock, ?s2)" by (rule step_represents [rotated])
  moreover have "accounts_ok ?s2" using i(3)
    by (simp add: create_user_def accounts_ok_def find_user_def username_ok_def is_ascii_alphanumeric_def empty_db_def Let_def)
  ultimately show ?thesis using i(1,2) sv by (simp add: server_ok_def cs)
qed

interpretation srv: transition_system "server_init lib cfg secret" "server_step lib cfg secret" "server_ok lib"
  by unfold_locales (auto intro: server_init_ok server_step_ok)


lemma create_user_next_id [simp]: "so_next_id (snd (create_user hash_pw now u p r s)) = so_next_id s"
  by (simp add: create_user_def Let_def split: option.splits)

lemma some_start:
  obtains secret sv where "server_init some_libs some_config secret (9, sv :: nat server)" "so_next_id (sv_store sv) = 1"
proof -
  let ?s0 = "store_new\<lparr>so_db := Some (empty_db\<lparr>db_version := 4\<rparr>)\<rparr>"
  have p: "persistent (lb_parse some_libs) 9 0 empty_db = Some ?s0"
    by (simp add: persistent_def migrate_def empty_db_def prune_def prune_rows_def store_new_def Let_def SCHEMA_VERSION_def)
  have "\<exists>secret sv. serve_start some_libs some_times some_config (Some empty_db) 0 [1, 2] (True, ''HIGH'') = Ret (Inr (secret, sv :: nat server))
      \<and> so_next_id (sv_store sv) = 1"
    by (simp add: serve_start_def some_config_def some_times_def p Let_def) (simp add: session_secret_def empty_db_def store_new_def)
  then show ?thesis using that by (force simp: server_init_def lib_ok_def some_libs_def some_config_def some_times_def)
qed


end
