(* ===== verification/Spec2Isabelle.thy ===== *)
theory Spec2Isabelle
  imports Commands Delivery Typing Server_Inv
begin

text \<open>
  KernelSentinel: a model of the program and the theorems that make it correct.

  \<^bold>\<open>The program.\<close> An agent watches one host. BPF programs (\<^verbatim>\<open>src/bpf\<close>) write fixed-size records into a
  ring buffer; \<^verbatim>\<open>sensors.rs\<close> loads them, fills the watch list and hands each record to \<^verbatim>\<open>main.rs\<close>, which decodes it
  (\<^verbatim>\<open>event.rs\<close>, \<^verbatim>\<open>decoded.rs\<close>), resolves who the executable is (\<^verbatim>\<open>fileid.rs\<close>), keeps a process graph
  (\<^verbatim>\<open>graph/\<close>) and runs the detection engine (\<^verbatim>\<open>detect/\<close>: detectors, rules, score, baseline). What crosses a line
  is printed and recorded (\<^verbatim>\<open>detect/alert.rs\<close>, \<^verbatim>\<open>detect/record.rs\<close>); heartbeats and a canary attest that the
  sensors still report. A fleet server (\<^verbatim>\<open>server/\<close>) takes incidents and heartbeats from the agents, keeps them in
  memory and in SQLite, serves the dashboard's API behind sessions and accounts, and forwards alerts (\<^verbatim>\<open>notify.rs\<close>); agents ship to it with
  \<^verbatim>\<open>server/ship.rs\<close>. Beside these, the sweep (\<^verbatim>\<open>sweep/\<close>) takes an inventory of a host, the budget (\<^verbatim>\<open>budget.rs\<close>) measures how
  often a capture would have alerted, and \<^verbatim>\<open>doctor.rs\<close> checks a host before a start.

  \<^bold>\<open>How Rust is modelled.\<close> Strings are lists of bytes read as characters, with UTF-8 validity a predicate where the
  code depends on it; machine integers are words of their width and wrap, as the release profile does; the
  saturating and checked operations are written out. Floating point is IEEE double rounding over the rationals
  (theory Float64). Hash tables (theory Hash_Map) are association lists without duplicate keys whose
  order is a parameter or is left open where the code iterates. Panics are a value (\<^verbatim>\<open>outcome\<close>, theory Session)
  where a caller can provoke one. Loops are structural recursion or have a termination proof. The one fuel is the recursion depth of
  the printed process tree (theory Tree), which the code does not bound: one more than the number of processes is shown to be enough from the
  roots, and no depth is enough from a process on a cycle. The walks of the sweep carry the depth limit of the code.

  \<^bold>\<open>The agent.\<close>
  \<^item> Prelude, Hash_Map, Float64, Text: shared lemmas, tables, doubles and the string operations of the standard library.
  \<^item> Contracts: the locales for transition systems and for tables of processes, interpreted on the
    graph, the store and the server.
  \<^item> FileId (\<^verbatim>\<open>fileid.rs\<close>): identities, trusted programs, binding and rebinding; an unreadable file is never trusted.
  \<^item> Redact (\<^verbatim>\<open>redact.rs\<close>): secrets of command lines are replaced whatever the tool does with them.
  \<^item> Container (\<^verbatim>\<open>container.rs\<close>), Event (\<^verbatim>\<open>event.rs\<close>, \<^verbatim>\<open>decoded.rs\<close>): the record layout, decoding, text recovery.
  \<^item> Graph, Graph_Inv (\<^verbatim>\<open>graph/mod.rs\<close>): the process graph, its well-formedness after any operations, ancestry,
    reaping, adoption of scanned processes. Scan (\<^verbatim>\<open>graph/scan.rs\<close>): the start-up scan of \<^verbatim>\<open>/proc\<close>.
  \<^item> Score, Detectors, Rule, Baseline, Engine (\<^verbatim>\<open>detect/\<close>): scores, detectors, rules as sequences over a stream, what a
    learned baseline may reduce, and that alerts about a process strictly escalate.
  \<^item> Watchlist, Sensors (\<^verbatim>\<open>watchlist.rs\<close>, \<^verbatim>\<open>sensors.rs\<close>, the file-open program and the enforcement decision of
    \<^verbatim>\<open>src/bpf\<close>): which opens are reported and which are denied.
  \<^item> Canary, Report, Display: attestation, the incident record, rendering.
  \<^item> Agent (\<^verbatim>\<open>main.rs\<close>): the event loop, recording and replay.
  \<^item> Wire (\<^verbatim>\<open>decoded.rs\<close>, \<^verbatim>\<open>heartbeat.rs\<close>, \<^verbatim>\<open>detect/baseline.rs\<close>): events, heartbeats and baselines as JSON trees, by tables of
    fields with their attributes; one locale for all tables shows that reading gives back what was written.
  \<^item> Pipeline (\<^verbatim>\<open>main.rs\<close>, \<^verbatim>\<open>detect/record.rs\<close>): what crosses from one part to another as text: a capture is read back as it was
    written, an incident and a heartbeat reach the server as the agent sent them.
  \<^item> Maps, Loop (\<^verbatim>\<open>run\<close> of \<^verbatim>\<open>sensors.rs\<close>): the kernel's tables are complete before a sensor is attached; the loop hands on every record
    that decodes, survives and counts panics, reports in on time and watches new homes. The loop is over a list of turns, each what the environment does in
    one of them, and its callbacks are parameters with a contract (a locale).
  \<^item> Startup, Daemon (\<^verbatim>\<open>run\<close> of \<^verbatim>\<open>main.rs\<close>): what has to be in order before the agent runs, and the running agent: the loop with the agent's callbacks
    never hangs, writes exactly what the agent reports, and what it writes is taken in by the server.
  \<^item> Commands (\<^verbatim>\<open>run\<close> of \<^verbatim>\<open>sensors.rs\<close>; \<^verbatim>\<open>run\<close>, \<^verbatim>\<open>record\<close> and \<^verbatim>\<open>replay\<close> of \<^verbatim>\<open>main.rs\<close>): the commands put together from these parts. \<^verbatim>\<open>run\<close> never hangs once started;
    what \<^verbatim>\<open>record\<close> writes replays to what the live agent reports, line for line.
  \<^item> Typing: what the decoder and the redaction call text is valid UTF-8, so that no slice stops the program.

  \<^bold>\<open>The server.\<close>
  \<^item> RateLimit (\<^verbatim>\<open>server/ratelimit.rs\<close>): a locked-out address stays locked out; five guesses a window.
  \<^item> Session (\<^verbatim>\<open>server/session.rs\<close>): a token is accepted exactly if it was signed and is in date.
  \<^item> Keys (\<^verbatim>\<open>server/keys.rs\<close>): the key file binds each key to one host and nothing else resolves.
  \<^item> Notify (\<^verbatim>\<open>notify.rs\<close>, the text of \<^verbatim>\<open>http.rs\<close>): every alert is sent, counted as suppressed or pending.
  \<^item> Store, Store_Inv, Store_Props (\<^verbatim>\<open>server/store.rs\<close>): memory and tables as an image of one abstract history of
    incidents, through pruning and restarts; accounts; the fleet ranking; what marking an incident expected teaches.
  \<^item> Server, Server_Props, Server_Inv (\<^verbatim>\<open>server/mod.rs\<close>): all routes; who may change what, what a stranger
    sees, body limits, logins, and the server's invariant after any requests.
  \<^item> Delivery (\<^verbatim>\<open>notify.rs\<close>, \<^verbatim>\<open>http.rs\<close>): a dead sink silences no other; a request under a pinned certificate reaches its owner or nobody.
  \<^item> Ship (\<^verbatim>\<open>server/ship.rs\<close>): the client, and its composition with the server: what is shipped is stored, in order.

  \<^bold>\<open>The tools.\<close>
  \<^item> Budget (\<^verbatim>\<open>budget.rs\<close>): a replay for every severity floor; each count is the number of incidents of at least that severity in one
    replay, and rates are given from an hour on.
  \<^item> Sweep, Sweep_Props (\<^verbatim>\<open>sweep/\<close>): manifests, walks and checks over a file system; the exit status is raised exactly if a conclusive
    artifact is there, and a check without its authority is unknown.
  \<^item> Yara (\<^verbatim>\<open>yara.rs\<close>), Doctor (\<^verbatim>\<open>doctor.rs\<close>): content scanning as enrichment; the preflight.
  \<^item> Tree, Cli (\<^verbatim>\<open>main.rs\<close>): the process tree, investigation of a process, starting a server, exit codes.

  \<^bold>\<open>Parameters.\<close> The system calls (stat, the content of \<^verbatim>\<open>/proc\<close>, clocks, spawning), SQLite beyond its tables,
  HMAC-SHA256, Argon2, the JSON, YAML and TLS libraries, the kernel's longest-prefix table, the YARA engine and the natural logarithm are arguments of
  the definitions that use them, with what is relied on stated as hypotheses.

  \<^bold>\<open>Not modelled.\<close> Loading and attaching BPF programs, the inside of the ring buffer, of sockets and of TLS, argument parsing and signal handlers,
  which are libraries or the operating system; the status lines on standard error; the text of JSON and YAML, the YAML form of rules and the JSON form of the
  server's own answers, which derive macros generate; and the dashboard, a constant page of HTML and JavaScript.
\<close>

end
